(* ===== verification/Prelude.thy ===== *)
theory Prelude
  imports
    Main
    "HOL-Library.Word"
    "HOL-Library.Char_ord"
    "HOL-Library.List_Lexorder"
    "HOL-Library.While_Combinator"
begin

unbundle bit_operations_syntax

text \<open>
  What every component of the development shares: the names of the machine integers and byte
  strings, the ways an operation of the program fails, the sequencing of fallible operations, and
  the two ordered containers of the C++ standard library the code uses (\<open>std::map\<close> as an
  association list in key order, \<open>std::set\<close> as a list in order without repetition).
\<close>

section \<open>Machine integers and byte strings\<close>

type_synonym uint32 = "32 word"
type_synonym uint64 = "64 word"
type_synonym int64 = "64 word"
type_synonym uint128 = "128 word"

abbreviation UINT32_MAX :: uint32 where "UINT32_MAX \<equiv> 4294967295"
abbreviation UINT64_MAX :: uint64 where "UINT64_MAX \<equiv> 18446744073709551615"
abbreviation INT64_MAX :: int64 where "INT64_MAX \<equiv> 9223372036854775807"

lemma unat_of_nat_u64: "n < 2 ^ 64 \<Longrightarrow> unat (of_nat n :: uint64) = n"
  by (simp add: unsigned_of_nat take_bit_nat_eq_self_iff)

lemma of_nat_u64_eq_0: "n < 2 ^ 64 \<Longrightarrow> (of_nat n :: uint64) = 0 \<longleftrightarrow> n = 0"
  using unat_of_nat_u64[of n] by auto

text \<open>Numbers of ledgers that do not wrap around.\<close>

lemma unat_succ: "(a :: uint32) < b \<Longrightarrow> unat (a + 1) = Suc (unat a)"
proof -
  assume "a < b"
  moreover have "unat b < 2 ^ LENGTH(32)" by (rule unsigned_less)
  ultimately show ?thesis by (simp add: word_less_nat_alt unat_plus_if')
qed

lemma less_succ: "(a :: uint32) < b \<Longrightarrow> (e < a + 1) = (e \<le> a)"
  by (simp add: word_less_nat_alt word_le_nat_alt unat_succ less_Suc_eq_le)

lemma unat_next:
  assumes "unat (c :: uint32) + unat f < 2 ^ 32"
  shows "unat (c + f) = unat c + unat f"
  using assms by (simp add: unat_plus_if')

lemma u32_compare:
  assumes "a < 2 ^ 32" "b < 2 ^ 32"
  shows "((of_nat a :: uint32) < of_nat b) = (a < b)" "((of_nat a :: uint32) = of_nat b) = (a = b)"
  using assms by (auto simp: word_less_nat_alt word_unat_eq_iff unat_of_nat unsigned_of_nat take_bit_nat_eq_self_iff)

text \<open>Byte strings (\<open>opaque<>\<close>, \<open>std::string\<close>) are character lists, ordered as
  \<open>std::vector\<close> orders them: lexicographically.\<close>

type_synonym bytes = string

section \<open>Failure\<close>

text \<open>
  \<open>AssertFailed\<close> is \<open>assert\<close>, \<open>dbgAssert\<close> or \<open>dbgAbort\<close> stopping the process,
  \<open>NullDeref\<close> a read through a null pointer or past the end of a map,
  \<open>RuntimeError\<close> a thrown \<open>std::exception\<close>, and \<open>Diverges\<close> a loop that never
  returns.
\<close>

datatype failure = AssertFailed | NullDeref | RuntimeError string | Diverges

type_synonym 'a result = "failure + 'a"

fun bindE :: "'e + 'a \<Rightarrow> ('a \<Rightarrow> 'e + 'b) \<Rightarrow> 'e + 'b" where
  "bindE (Inl e) f = Inl e"
| "bindE (Inr a) f = f a"

definition deref :: "'a option \<Rightarrow> 'a result" where
  "deref p = (case p of None \<Rightarrow> Inl NullDeref | Some a \<Rightarrow> Inr a)"

definition assertE :: "bool \<Rightarrow> unit result" where
  "assertE b = (if b then Inr () else Inl AssertFailed)"

lemma bindE_Inr_iff: "bindE m f = Inr r \<longleftrightarrow> (\<exists>a. m = Inr a \<and> f a = Inr r)"
  by (cases m) auto

lemma bindE_Inl_iff: "bindE m f = Inl e \<longleftrightarrow> m = Inl e \<or> (\<exists>a. m = Inr a \<and> f a = Inl e)"
  by (cases m) auto

lemma bindE_InrE:
  assumes "bindE m f = Inr r"
  obtains a where "m = Inr a" "f a = Inr r"
  using assms by (auto simp: bindE_Inr_iff)

lemma bindE_cong [fundef_cong]:
  "m = m' \<Longrightarrow> (\<And>a. m' = Inr a \<Longrightarrow> f a = g a) \<Longrightarrow> bindE m f = bindE m' g"
  by (cases m') auto

lemma deref_simps [simp]:
  "deref None = Inl NullDeref" "deref (Some a) = Inr a"
  by (simp_all add: deref_def)

lemma deref_Inr_iff [simp]: "deref p = Inr a \<longleftrightarrow> p = Some a"
  by (cases p) auto

lemma deref_Inl_iff [simp]: "deref p = Inl e \<longleftrightarrow> p = None \<and> e = NullDeref"
  by (cases p) auto

lemma assertE_simps [simp]:
  "assertE True = Inr ()" "assertE False = Inl AssertFailed"
  by (simp_all add: assertE_def)

lemma assertE_Inr_iff [simp]: "assertE b = Inr u \<longleftrightarrow> b"
  by (simp add: assertE_def)

lemma assertE_Inl_iff [simp]: "assertE b = Inl e \<longleftrightarrow> \<not> b \<and> e = AssertFailed"
  by (auto simp: assertE_def)

text \<open>\<open>std::copy_if\<close> with a predicate that may fail.\<close>

fun filterE :: "('a \<Rightarrow> 'e + bool) \<Rightarrow> 'a list \<Rightarrow> 'e + 'a list" where
  "filterE p [] = Inr []"
| "filterE p (x # xs) =
     bindE (p x) (\<lambda>b. bindE (filterE p xs) (\<lambda>ys. Inr (if b then x # ys else ys)))"

lemma filterE_Inr:
  "(\<And>x. x \<in> set xs \<Longrightarrow> p x = Inr (q x)) \<Longrightarrow> filterE p xs = Inr (filter q xs)"
  by (induction xs) auto

lemma length_filterE: "filterE p xs = Inr ys \<Longrightarrow> length ys \<le> length xs"
  by (induction xs arbitrary: ys) (auto simp: bindE_Inr_iff split: if_splits intro: le_SucI)

lemma filterE_cong [fundef_cong]:
  "xs = ys \<Longrightarrow> (\<And>x. x \<in> set ys \<Longrightarrow> p x = q x) \<Longrightarrow> filterE p xs = filterE q ys"
  by (induction xs arbitrary: ys) auto

lemma last_filter: "xs \<noteq> [] \<Longrightarrow> P (last xs) \<Longrightarrow> filter P xs \<noteq> [] \<and> last (filter P xs) = last xs"
  by (cases xs rule: rev_cases) auto

section \<open>Ordered maps\<close>

type_synonym ('k, 'v) omap = "('k \<times> 'v) list"

fun map_put :: "'k::linorder \<Rightarrow> 'v \<Rightarrow> ('k, 'v) omap \<Rightarrow> ('k, 'v) omap" where
  "map_put k v [] = [(k, v)]"
| "map_put k v ((k', v') # m) =
     (if k < k' then (k, v) # (k', v') # m
      else if k = k' then (k, v) # m
      else (k', v') # map_put k v m)"

definition omap_wf :: "('k::linorder, 'v) omap \<Rightarrow> bool" where
  "omap_wf m \<longleftrightarrow> sorted_wrt (<) (map fst m)"

lemma strict_sorted_insort_insert [simp]:
  "sorted_wrt (<) xs \<Longrightarrow> sorted_wrt (<) (insort_insert (x :: 'a::linorder) xs)"
  by (simp add: strict_sorted_iff sorted_insort_insert distinct_insort_insert)

lemma map_of_map_put [simp]: "omap_wf m \<Longrightarrow> map_of (map_put k v m) = (map_of m)(k \<mapsto> v)"
  by (induction m) (auto simp: omap_wf_def fun_eq_iff)

lemma fst_set_map_put: "fst ` set (map_put k v m) = insert k (fst ` set m)"
  by (induction k v m rule: map_put.induct) force+

lemma set_map_put_subset: "set (map_put k v m) \<subseteq> insert (k, v) (set m)"
  by (induction k v m rule: map_put.induct) auto

lemma in_set_map_put: "(k, v) \<in> set (map_put k v m)"
  by (induction m) auto

lemma omap_wf_map_put [simp]: "omap_wf m \<Longrightarrow> omap_wf (map_put k v m)"
proof (induction m)
  case Nil
  then show ?case by (simp add: omap_wf_def)
next
  case (Cons a m)
  obtain k' v' where a: "a = (k', v')" by (cases a)
  from Cons.prems a have m: "omap_wf m" and lt: "\<forall>x\<in>fst ` set m. k' < x"
    by (auto simp: omap_wf_def)
  show ?case
    using Cons.IH[OF m] lt Cons.prems a
    by (auto simp: omap_wf_def fst_set_map_put)
qed

lemma omap_wf_Nil [simp]: "omap_wf []"
  by (simp add: omap_wf_def)

lemma omap_wf_distinct: "omap_wf m \<Longrightarrow> distinct (map fst m)"
  by (auto simp: omap_wf_def strict_sorted_iff)

lemma omap_wf_map_of: "omap_wf m \<Longrightarrow> (k, v) \<in> set m \<longleftrightarrow> map_of m k = Some v"
  by (simp add: omap_wf_distinct)

end
