(* ===== verification/SCPTypes.thy ===== *)
theory SCPTypes
  imports Prelude
begin

text \<open>
  The data the consensus code exchanges. The XDR definitions are generated from a submodule and
  are not part of the sources, so the types below hold exactly the fields the sources read and
  write: ballots, the four kinds of pledge, statements, envelopes and quorum sets. A node's public
  key is the number its bits denote, since the code only compares keys. A \<open>Value\<close> is a byte
  string. Statement pledges are a tagged union, so they are a \<^theory_text>\<open>datatype\<close>.
\<close>

type_synonym NodeID = nat
type_synonym Value = bytes
type_synonym Hash = bytes

datatype SCPBallot = SCPBallot (counter: uint32) (bvalue: Value)

record SCPPrepare =
  p_quorumSetHash :: Hash
  p_ballot :: SCPBallot
  p_prepared :: "SCPBallot option"
  p_preparedPrime :: "SCPBallot option"
  p_nC :: uint32
  p_nH :: uint32

record SCPConfirm =
  c_ballot :: SCPBallot
  c_nPrepared :: uint32
  c_nCommit :: uint32
  c_nH :: uint32
  c_quorumSetHash :: Hash

record SCPExternalize =
  e_commit :: SCPBallot
  e_nH :: uint32
  e_commitQuorumSetHash :: Hash

record SCPNomination =
  n_quorumSetHash :: Hash
  n_votes :: "Value list"
  n_accepted :: "Value list"

datatype SCPPledges =
    PREPARE SCPPrepare
  | CONFIRM SCPConfirm
  | EXTERNALIZE SCPExternalize
  | NOMINATE SCPNomination

record SCPStatement =
  nodeID :: NodeID
  slotIndex :: uint64
  pledges :: SCPPledges

record SCPEnvelope =
  statement :: SCPStatement
  signature :: bytes

datatype SCPQuorumSet =
  SCPQuorumSet (threshold: uint32) (validators: "NodeID list") (innerSets: "SCPQuorumSet list")

type_synonym envelopes = "(NodeID, SCPEnvelope) omap"

section \<open>The order of ballots\<close>

text \<open>The order \<open>std::set<SCPBallot>\<close> uses: by counter, then by value.\<close>

instantiation SCPBallot :: linorder
begin

definition less_SCPBallot :: "SCPBallot \<Rightarrow> SCPBallot \<Rightarrow> bool" where
  "less_SCPBallot b1 b2 \<longleftrightarrow>
     counter b1 < counter b2 \<or> counter b1 = counter b2 \<and> bvalue b1 < bvalue b2"

definition less_eq_SCPBallot :: "SCPBallot \<Rightarrow> SCPBallot \<Rightarrow> bool" where
  "less_eq_SCPBallot b1 b2 \<longleftrightarrow>
     counter b1 < counter b2 \<or> counter b1 = counter b2 \<and> bvalue b1 \<le> bvalue b2"

instance
  by standard
    (auto simp: less_SCPBallot_def less_eq_SCPBallot_def intro: SCPBallot.expand)

end

lemma ballot_less_counter: "b1 < b2 \<Longrightarrow> counter b1 \<le> counter b2"
  by (auto simp: less_SCPBallot_def)

lemma ballot_le_counter: "b1 \<le> b2 \<Longrightarrow> counter b1 \<le> counter b2"
  by (auto simp: less_eq_SCPBallot_def)

lemma ballot_le_compatible:
  "bvalue b1 = bvalue b2 \<Longrightarrow> b1 \<le> b2 \<longleftrightarrow> counter b1 \<le> counter b2"
  by (auto simp: less_eq_SCPBallot_def)

end
