(* ===== verification/SafeMath.thy ===== *)
theory SafeMath
  imports Prelude
begin

text \<open>
  The overflow-aware arithmetic of \<^verbatim>\<open>util/types.cpp\<close>: \<open>bigDivide\<close> (the product
  of two 64-bit amounts divided by a third, through a 128-bit intermediate), \<open>safeSum\<close> and
  \<open>safeDelta\<close>. An out-parameter together with the returned flag is a pair.
\<close>

section \<open>Definitions\<close>

datatype Rounding = ROUND_DOWN | ROUND_UP

definition ONE :: int64 where
  "ONE = 1000000"

definition bigDivide_u64 :: "uint64 \<Rightarrow> uint64 \<Rightarrow> uint64 \<Rightarrow> Rounding \<Rightarrow> (bool \<times> uint64) result" where
  "bigDivide_u64 A B C rounding =
     (let a = (ucast A :: uint128); b = (ucast B :: uint128); c = (ucast C :: uint128) in
      if c = 0 then Inl (RuntimeError ''Error: division or modulus by 0'')
      else let x = (if rounding = ROUND_DOWN then (a * b) div c else (a * b + c - 1) div c)
           in Inr (x \<le> ucast UINT64_MAX, (ucast x :: uint64)))"

definition bigDivide_i64 :: "int64 \<Rightarrow> int64 \<Rightarrow> int64 \<Rightarrow> Rounding \<Rightarrow> (bool \<times> int64 option) result" where
  "bigDivide_i64 A B C rounding =
     bindE (assertE (0 \<le> sint A \<and> 0 \<le> sint B \<and> 0 < sint C)) (\<lambda>_.
     bindE (bigDivide_u64 A B C rounding) (\<lambda>(res, r2).
     Inr (if res then (r2 \<le> INT64_MAX, Some r2) else (False, None))))"

definition bigDivide_throw :: "int64 \<Rightarrow> int64 \<Rightarrow> int64 \<Rightarrow> Rounding \<Rightarrow> int64 result" where
  "bigDivide_throw A B C rounding =
     bindE (bigDivide_i64 A B C rounding) (\<lambda>(ok, r).
     if ok then deref r else Inl (RuntimeError ''overflow while performing bigDivide''))"

definition safeSum :: "uint64 \<Rightarrow> uint64 \<Rightarrow> bool \<times> uint64" where
  "safeSum a b = (let r = a + b in (a \<le> r \<and> b \<le> r, r))"

fun safeSum_loop :: "uint64 \<Rightarrow> uint64 list \<Rightarrow> bool \<times> uint64" where
  "safeSum_loop acc [] = (True, acc)"
| "safeSum_loop acc (a # params) =
     (case safeSum a acc of (ok, r) \<Rightarrow> if \<not> ok then (False, r) else safeSum_loop r params)"

definition safeSum_list :: "uint64 list \<Rightarrow> bool \<times> uint64" where
  "safeSum_list params = safeSum_loop 0 params"

definition safeDelta :: "uint64 \<Rightarrow> uint64 \<Rightarrow> uint64" where
  "safeDelta a b = (if b < a then a - b else b - a)"

section \<open>Exactness\<close>

text \<open>The exact quotient the code means to compute, over the natural numbers.\<close>

definition exact_quotient :: "nat \<Rightarrow> nat \<Rightarrow> nat \<Rightarrow> Rounding \<Rightarrow> nat" where
  "exact_quotient a b c rounding =
     (if rounding = ROUND_DOWN then a * b div c else (a * b + c - 1) div c)"

lemma unat_u64_less: "unat (a :: uint64) < 18446744073709551616"
proof -
  have "unat a < 2 ^ LENGTH(64)" by (rule unsigned_less)
  then show ?thesis by simp
qed

lemma unat_u64_le: "unat (a :: uint64) \<le> 18446744073709551615"
  using unat_u64_less[of a] by linarith

lemma unat_u128_ucast [simp]: "unat (ucast (a :: uint64) :: uint128) = unat a"
  by (simp add: unsigned_ucast_eq take_bit_nat_eq_self_iff less_trans[OF unat_u64_less])

lemma u64_mult_bound:
  "unat (a :: uint64) * unat (b :: uint64) \<le> 18446744073709551615 * 18446744073709551615"
  by (intro mult_le_mono unat_u64_le)

lemma unat_u128_mult [simp]:
  "unat (ucast (a :: uint64) * ucast (b :: uint64) :: uint128) = unat a * unat b"
proof -
  have "unat a * unat b < 2 ^ 128"
    using u64_mult_bound[of a b] by simp
  then show ?thesis by (subst unat_mult_lem[THEN iffD1]) simp_all
qed

lemma unat_u128_round_up:
  fixes A B C :: uint64
  assumes "C \<noteq> 0"
  shows "unat (ucast A * ucast B + ucast C - 1 :: uint128) = unat A * unat B + unat C - 1"
proof -
  have c: "1 \<le> unat C"
    using assms by (simp add: unat_gt_0 Suc_le_eq)
  have b: "unat A * unat B + unat C < 2 ^ 128"
    using u64_mult_bound[of A B] unat_u64_le[of C] by simp
  have s: "unat (ucast A * ucast B + ucast C :: uint128) = unat A * unat B + unat C"
    using b by (subst unat_add_lem[THEN iffD1]) simp_all
  have "(1 :: uint128) \<le> ucast A * ucast B + ucast C"
    using c s by (simp add: word_le_nat_alt)
  then show ?thesis by (simp add: unat_sub s)
qed

lemma bigDivide_u64_exact:
  assumes "C \<noteq> 0"
  shows "bigDivide_u64 A B C rounding =
    (let q = exact_quotient (unat A) (unat B) (unat C) rounding in Inr (q < 2 ^ 64, of_nat q))"
proof -
  let ?x = "if rounding = ROUND_DOWN then ucast A * ucast B div ucast C
            else (ucast A * ucast B + ucast C - 1) div ucast C :: uint128"
  have c: "(ucast C :: uint128) \<noteq> 0"
    using assms by (metis unat_u128_ucast unsigned_0 unsigned_eq_0_iff)
  have x: "unat ?x = exact_quotient (unat A) (unat B) (unat C) rounding"
    using assms by (simp add: exact_quotient_def unat_div unat_u128_round_up)
  have "(ucast ?x :: uint64) = of_nat (unat ?x)"
    by (simp add: of_nat_unat)
  moreover have "?x \<le> ucast UINT64_MAX \<longleftrightarrow> unat ?x < 2 ^ 64"
    by (auto simp: word_le_nat_alt)
  ultimately show ?thesis
    using c unfolding bigDivide_u64_def Let_def x by simp
qed

lemma safeSum_iff: "fst (safeSum a b) \<longleftrightarrow> unat a + unat b < 2 ^ 64"
  using unat_plus_if'[of a b] unat_u64_less[of a] unat_u64_less[of b]
  by (auto simp: safeSum_def Let_def word_le_nat_alt split: if_splits)

lemma safeSum_value: "fst (safeSum a b) \<Longrightarrow> unat (snd (safeSum a b)) = unat a + unat b"
  using unat_plus_if'[of a b] by (auto simp: safeSum_iff) (auto simp: safeSum_def Let_def)

lemma safeSum_loop_iff:
  "safeSum_loop acc ps = (True, r) \<longleftrightarrow> unat acc + sum_list (map unat ps) < 2 ^ 64 \<and> unat r = unat acc + sum_list (map unat ps)"
proof (induction ps arbitrary: acc)
  case Nil
  then show ?case using unat_u64_less[of r] by (auto simp: word_unat_eq_iff)
next
  case (Cons p ps)
  obtain ok s where s: "safeSum p acc = (ok, s)" by force
  show ?case
  proof (cases ok)
    case True
    then have "unat s = unat p + unat acc" using safeSum_value[of p acc] s by simp
    then show ?thesis using True s Cons.IH[of s] by (simp add: ac_simps)
  next
    case False
    then have "2 ^ 64 \<le> unat p + unat acc" using safeSum_iff[of p acc] s by simp
    then show ?thesis using False s by simp
  qed
qed

lemma bigDivide_i64_exact:
  assumes "0 \<le> sint A" "0 \<le> sint B" "0 < sint C"
  shows "bigDivide_throw A B C rounding =
    (let q = exact_quotient (unat A) (unat B) (unat C) rounding in
     if q < 2 ^ 63 then Inr (of_nat q) else Inl (RuntimeError ''overflow while performing bigDivide''))"
proof -
  let ?q = "exact_quotient (unat A) (unat B) (unat C) rounding"
  have C: "C \<noteq> 0" using assms(3) by auto
  have le: "(of_nat ?q :: uint64) \<le> INT64_MAX \<longleftrightarrow> ?q < 2 ^ 63" if "?q < 2 ^ 64"
    using unat_of_nat_u64[OF that] by (auto simp: word_le_nat_alt)
  show ?thesis
    using assms le by (auto simp: bigDivide_throw_def bigDivide_i64_def bigDivide_u64_exact[OF C] Let_def)
qed

section \<open>Properties\<close>

text \<open>C40. Multiplying two amounts and dividing by a third gives the exact quotient, rounded as asked,
  or fails exactly when that quotient does not fit into a signed 64-bit amount; the intermediate
  product never overflows.\<close>

theorem bigDivide_exact:
  assumes "0 \<le> sint A" "0 \<le> sint B" "0 < sint C"
  shows "bigDivide_throw A B C rounding =
    (let q = exact_quotient (unat A) (unat B) (unat C) rounding in
     if q < 2 ^ 63 then Inr (of_nat q) else Inl (RuntimeError ''overflow while performing bigDivide''))"
  by (rule bigDivide_i64_exact[OF assms])

theorem bigDivide_exact_witness: "bigDivide_throw 7 3 2 ROUND_UP = Inr 11"
  using bigDivide_exact[of 7 3 2 ROUND_UP] by (simp add: exact_quotient_def Let_def)

text \<open>Adding up amounts succeeds with a result exactly when the sum fits into 64 bits and is that
  result.\<close>

theorem safeSum_list_exact:
  "safeSum_list ps = (True, r) \<longleftrightarrow> sum_list (map unat ps) < 2 ^ 64 \<and> unat r = sum_list (map unat ps)"
  by (simp add: safeSum_list_def safeSum_loop_iff)

end
