(* ===== verification/QuorumSet.thy ===== *)
theory QuorumSet
  imports SCPTypes SafeMath "HOL-Library.Multiset"
begin

text \<open>
  Quorum sets, \<^verbatim>\<open>scp/LocalNode.cpp\<close>: sanity, normalisation, weights, quorum slices,
  v-blocking sets, quorums of statements and the smallest sets of failures that block a node.
  The abstract side is a count of satisfied members over plain sets of nodes (\<open>slice_spec\<close>)
  and, in the locale \<open>fbas\<close>, the greatest quorum inside a set.
\<close>

section \<open>Definitions\<close>

definition buildSingletonQSet :: "NodeID \<Rightarrow> SCPQuorumSet" where
  "buildSingletonQSet n = SCPQuorumSet 1 [n] []"

subsection \<open>Sanity\<close>

text \<open>The set of nodes met so far is threaded through the recursion; \<open>None\<close> is the
  result \<open>false\<close>. The subtraction is only reached when the threshold is at most the number
  of entries, so it does not wrap.\<close>

fun insertNodes :: "NodeID list \<Rightarrow> NodeID list \<Rightarrow> NodeID list option" where
  "insertNodes [] known = Some known"
| "insertNodes (n # ns) known =
     (if n \<in> set known then None else insertNodes ns (insort_insert n known))"

definition thresholdOk :: "uint32 \<Rightarrow> nat \<Rightarrow> bool \<Rightarrow> bool" where
  "thresholdOk t totEntries extraChecks \<longleftrightarrow>
     1 \<le> unat t \<and> unat t \<le> totEntries \<and>
     (\<not> extraChecks \<or> totEntries - unat t + 1 \<le> unat t)"

fun isQuorumSetSaneInternal :: "SCPQuorumSet \<Rightarrow> NodeID list \<Rightarrow> bool \<Rightarrow> NodeID list option"
  and saneInnerSets :: "SCPQuorumSet list \<Rightarrow> NodeID list \<Rightarrow> bool \<Rightarrow> NodeID list option" where
  "isQuorumSetSaneInternal (SCPQuorumSet t v i) known extraChecks =
     (if thresholdOk t (length v + length i) extraChecks
      then case insertNodes v known of
             None \<Rightarrow> None
           | Some known' \<Rightarrow> saneInnerSets i known' extraChecks
      else None)"
| "saneInnerSets [] known extraChecks = Some known"
| "saneInnerSets (q # qs) known extraChecks =
     (case isQuorumSetSaneInternal q known extraChecks of
        None \<Rightarrow> None
      | Some known' \<Rightarrow> saneInnerSets qs known' extraChecks)"

definition isQuorumSetSane :: "SCPQuorumSet \<Rightarrow> bool \<Rightarrow> bool" where
  "isQuorumSetSane q extraChecks = (isQuorumSetSaneInternal q [] extraChecks \<noteq> None)"

subsection \<open>Normalisation\<close>

definition isSingletonSet :: "SCPQuorumSet \<Rightarrow> bool" where
  "isSingletonSet q \<longleftrightarrow> threshold q = 1 \<and> length (validators q) = 1 \<and> length (innerSets q) = 0"

fun normalizeQSet :: "SCPQuorumSet \<Rightarrow> SCPQuorumSet"
  and normalizeInner :: "NodeID list \<Rightarrow> SCPQuorumSet list \<Rightarrow> NodeID list \<times> SCPQuorumSet list" where
  "normalizeQSet (SCPQuorumSet t v i) =
     (case normalizeInner v i of (v', i') \<Rightarrow>
        if t = 1 \<and> length v' = 0 \<and> length i' = 1 then last i'
        else SCPQuorumSet t v' i')"
| "normalizeInner v [] = (v, [])"
| "normalizeInner v (q # qs) =
     (let q' = normalizeQSet q in
      if isSingletonSet q' then normalizeInner (v @ [hd (validators q')]) qs
      else case normalizeInner v qs of (v', i') \<Rightarrow> (v', q' # i'))"

subsection \<open>Enumeration and weight\<close>

fun allNodesInternal :: "SCPQuorumSet \<Rightarrow> NodeID list" where
  "allNodesInternal (SCPQuorumSet t v i) = v @ concat (map allNodesInternal i)"

fun keepFirst :: "NodeID list \<Rightarrow> NodeID list \<Rightarrow> NodeID list" where
  "keepFirst done [] = []"
| "keepFirst done (n # ns) =
     (if n \<in> set done then keepFirst done ns else n # keepFirst (n # done) ns)"

definition forAllNodes :: "SCPQuorumSet \<Rightarrow> NodeID list" where
  "forAllNodes q = keepFirst [] (allNodesInternal q)"

text \<open>The flag \<open>bigDivide\<close> returns is ignored by the code, so it is here.\<close>

fun getNodeWeight :: "NodeID \<Rightarrow> SCPQuorumSet \<Rightarrow> uint64 result"
  and innerWeight :: "NodeID \<Rightarrow> uint64 \<Rightarrow> uint64 \<Rightarrow> SCPQuorumSet list \<Rightarrow> uint64 result" where
  "getNodeWeight nid (SCPQuorumSet t v i) =
     (let n = (ucast t :: uint64); d = (of_nat (length i + length v) :: uint64) in
      if nid \<in> set v
      then bindE (bigDivide_u64 UINT64_MAX n d ROUND_DOWN) (\<lambda>(ok, res). Inr res)
      else innerWeight nid n d i)"
| "innerWeight nid n d [] = Inr 0"
| "innerWeight nid n d (q # qs) =
     bindE (getNodeWeight nid q) (\<lambda>leafW.
     if leafW \<noteq> 0
     then bindE (bigDivide_u64 leafW n d ROUND_DOWN) (\<lambda>(ok, res). Inr res)
     else innerWeight nid n d qs)"

subsection \<open>Quorum slices and v-blocking sets\<close>

text \<open>The counters are the code's: a \<open>uint32\<close> that wraps for slices, and for v-blocking
  an \<open>int\<close> obtained by truncating a \<open>size_t\<close> difference. A loop that has returned
  \<open>true\<close> is \<open>None\<close>.\<close>

fun sliceValidators :: "uint32 \<Rightarrow> NodeID list \<Rightarrow> NodeID list \<Rightarrow> uint32 option" where
  "sliceValidators thresholdLeft [] nodeSet = Some thresholdLeft"
| "sliceValidators thresholdLeft (v # vs) nodeSet =
     (if v \<in> set nodeSet
      then if thresholdLeft - 1 = 0 then None else sliceValidators (thresholdLeft - 1) vs nodeSet
      else sliceValidators thresholdLeft vs nodeSet)"

fun isQuorumSliceInternal :: "SCPQuorumSet \<Rightarrow> NodeID list \<Rightarrow> bool"
  and sliceInner :: "uint32 \<Rightarrow> SCPQuorumSet list \<Rightarrow> NodeID list \<Rightarrow> bool" where
  "isQuorumSliceInternal (SCPQuorumSet t v i) nodeSet =
     (case sliceValidators t v nodeSet of
        None \<Rightarrow> True
      | Some thresholdLeft \<Rightarrow> sliceInner thresholdLeft i nodeSet)"
| "sliceInner thresholdLeft [] nodeSet = False"
| "sliceInner thresholdLeft (q # qs) nodeSet =
     (if isQuorumSliceInternal q nodeSet
      then if thresholdLeft - 1 = 0 then True else sliceInner (thresholdLeft - 1) qs nodeSet
      else sliceInner thresholdLeft qs nodeSet)"

definition isQuorumSlice :: "SCPQuorumSet \<Rightarrow> NodeID list \<Rightarrow> bool" where
  "isQuorumSlice qSet nodeSet = isQuorumSliceInternal qSet nodeSet"

fun blockValidators :: "int \<Rightarrow> NodeID list \<Rightarrow> NodeID list \<Rightarrow> int option" where
  "blockValidators leftTillBlock [] nodeSet = Some leftTillBlock"
| "blockValidators leftTillBlock (v # vs) nodeSet =
     (if v \<in> set nodeSet
      then if leftTillBlock - 1 \<le> 0 then None else blockValidators (leftTillBlock - 1) vs nodeSet
      else blockValidators leftTillBlock vs nodeSet)"

definition leftTillBlock_int :: "uint32 \<Rightarrow> nat \<Rightarrow> int" where
  "leftTillBlock_int t entries = sint (word_of_int (1 + int entries - uint t) :: 32 word)"

fun isVBlockingInternal :: "SCPQuorumSet \<Rightarrow> NodeID list \<Rightarrow> bool"
  and blockInner :: "int \<Rightarrow> SCPQuorumSet list \<Rightarrow> NodeID list \<Rightarrow> bool" where
  "isVBlockingInternal (SCPQuorumSet t v i) nodeSet =
     (if t = 0 then False
      else case blockValidators (leftTillBlock_int t (length v + length i)) v nodeSet of
             None \<Rightarrow> True
           | Some leftTillBlock \<Rightarrow> blockInner leftTillBlock i nodeSet)"
| "blockInner leftTillBlock [] nodeSet = False"
| "blockInner leftTillBlock (q # qs) nodeSet =
     (if isVBlockingInternal q nodeSet
      then if leftTillBlock - 1 \<le> 0 then True else blockInner (leftTillBlock - 1) qs nodeSet
      else blockInner leftTillBlock qs nodeSet)"

definition filterNodes :: "(SCPStatement \<Rightarrow> bool) \<Rightarrow> envelopes \<Rightarrow> NodeID list" where
  "filterNodes filt m = map fst (filter (\<lambda>it. filt (statement (snd it))) m)"

definition isVBlocking :: "SCPQuorumSet \<Rightarrow> envelopes \<Rightarrow> (SCPStatement \<Rightarrow> bool) \<Rightarrow> bool" where
  "isVBlocking qSet m filt = isVBlockingInternal qSet (filterNodes filt m)"

subsection \<open>Quorums of statements\<close>

definition quorumFilter ::
  "envelopes \<Rightarrow> (SCPStatement \<Rightarrow> SCPQuorumSet option) \<Rightarrow> NodeID list \<Rightarrow> NodeID \<Rightarrow> bool result" where
  "quorumFilter m qfun pNodes n =
     bindE (deref (map_of m n)) (\<lambda>env.
     bindE (deref (qfun (statement env))) (\<lambda>q. Inr (isQuorumSlice q pNodes)))"

function quorumLoop ::
  "envelopes \<Rightarrow> (SCPStatement \<Rightarrow> SCPQuorumSet option) \<Rightarrow> NodeID list \<Rightarrow> NodeID list result" where
  "quorumLoop m qfun pNodes =
     bindE (filterE (quorumFilter m qfun pNodes) pNodes) (\<lambda>fNodes.
     if length pNodes \<noteq> length fNodes then quorumLoop m qfun fNodes else Inr fNodes)"
  by pat_completeness auto
termination
  by (relation "measure (\<lambda>(m, qfun, pNodes). length pNodes)")
     (auto dest!: length_filterE)

declare quorumLoop.simps [simp del]

definition isQuorum ::
  "SCPQuorumSet \<Rightarrow> envelopes \<Rightarrow> (SCPStatement \<Rightarrow> SCPQuorumSet option) \<Rightarrow>
   (SCPStatement \<Rightarrow> bool) \<Rightarrow> bool result" where
  "isQuorum qSet m qfun filt =
     bindE (quorumLoop m qfun (filterNodes filt m)) (\<lambda>pNodes. Inr (isQuorumSlice qSet pNodes))"

subsection \<open>The smallest set of failures that blocks\<close>

text \<open>\<open>leftTillBlock\<close> is a \<open>size_t\<close> here and the loops stop when it reaches zero. The
  \<open>std::multiset\<close> ordered by size keeps equal sizes in insertion order, as a stable sort
  does.\<close>

fun closestValidators ::
  "NodeID list \<Rightarrow> NodeID option \<Rightarrow> uint64 \<Rightarrow> NodeID list \<Rightarrow> NodeID list \<Rightarrow>
   (uint64 \<times> NodeID list) option" where
  "closestValidators nodes excluded leftTillBlock res [] = Some (leftTillBlock, res)"
| "closestValidators nodes excluded leftTillBlock res (v # vs) =
     (if excluded = Some v then closestValidators nodes excluded leftTillBlock res vs
      else if v \<notin> set nodes
      then if leftTillBlock - 1 = 0 then None
           else closestValidators nodes excluded (leftTillBlock - 1) res vs
      else closestValidators nodes excluded leftTillBlock (res @ [v]) vs)"

fun closestSubsets :: "uint64 \<Rightarrow> NodeID list \<Rightarrow> NodeID list list \<Rightarrow> NodeID list" where
  "closestSubsets leftTillBlock res [] = res"
| "closestSubsets leftTillBlock res (s # ss) =
     (if leftTillBlock = 0 then res else closestSubsets (leftTillBlock - 1) (res @ s) ss)"

definition closestResult :: "uint64 \<Rightarrow> NodeID list \<Rightarrow> NodeID list list \<Rightarrow> NodeID list" where
  "closestResult leftTillBlock res resInternals =
     (let res' = (if unat leftTillBlock < length res then take (unat leftTillBlock) res else res)
      in closestSubsets (leftTillBlock - of_nat (length res')) res' (sort_key length resInternals))"

fun findClosestVBlocking :: "SCPQuorumSet \<Rightarrow> NodeID list \<Rightarrow> NodeID option \<Rightarrow> NodeID list"
  and closestInner ::
    "NodeID list \<Rightarrow> NodeID option \<Rightarrow> uint64 \<Rightarrow> NodeID list list \<Rightarrow> SCPQuorumSet list \<Rightarrow>
     (uint64 \<times> NodeID list list) option" where
  "findClosestVBlocking (SCPQuorumSet t v i) nodes excluded =
     (case closestValidators nodes excluded (of_nat (1 + length v + length i) - ucast t) [] v of
        None \<Rightarrow> []
      | Some (leftTillBlock, res) \<Rightarrow>
          (case closestInner nodes excluded leftTillBlock [] i of
             None \<Rightarrow> []
           | Some (leftTillBlock', resInternals) \<Rightarrow> closestResult leftTillBlock' res resInternals))"
| "closestInner nodes excluded leftTillBlock resInternals [] = Some (leftTillBlock, resInternals)"
| "closestInner nodes excluded leftTillBlock resInternals (q # qs) =
     (let v = findClosestVBlocking q nodes excluded in
      if length v = 0
      then if leftTillBlock - 1 = 0 then None
           else closestInner nodes excluded (leftTillBlock - 1) resInternals qs
      else closestInner nodes excluded leftTillBlock (resInternals @ [v]) qs)"

definition findClosestVBlocking_map ::
  "SCPQuorumSet \<Rightarrow> envelopes \<Rightarrow> (SCPStatement \<Rightarrow> bool) \<Rightarrow> NodeID option \<Rightarrow> NodeID list" where
  "findClosestVBlocking_map qset m filt excluded =
     findClosestVBlocking qset (filterNodes filt m) excluded"

subsection \<open>Transitive quorum membership\<close>

text \<open>The two \<open>std::unordered_set\<close>s are lists without repetition. The order in which the
  library enumerates them is not specified; here the backlog is first in, first out.\<close>

datatype TriBool = TB_TRUE | TB_FALSE | TB_MAYBE

fun exploreStatements ::
  "(SCPStatement \<Rightarrow> SCPQuorumSet option) \<Rightarrow> NodeID list \<Rightarrow> SCPStatement list \<Rightarrow>
   NodeID list \<Rightarrow> TriBool \<Rightarrow> NodeID list \<times> TriBool" where
  "exploreStatements qfun visited [] backlog res = (backlog, res)"
| "exploreStatements qfun visited (st # sts) backlog res =
     (case qfun st of
        None \<Rightarrow> exploreStatements qfun visited sts backlog TB_MAYBE
      | Some qset \<Rightarrow> exploreStatements qfun visited sts
          (foldl (\<lambda>b n. if n \<in> set visited \<or> n \<in> set b then b else b @ [n]) backlog
             (forAllNodes qset)) res)"

partial_function (option) quorumSearch ::
  "NodeID \<Rightarrow> (SCPStatement \<Rightarrow> SCPQuorumSet option) \<Rightarrow> (NodeID, SCPStatement list) omap \<Rightarrow>
   NodeID list \<Rightarrow> NodeID list \<Rightarrow> TriBool \<Rightarrow> TriBool option" where
  "quorumSearch node qfun m backlog visited res =
     (case backlog of
        [] \<Rightarrow> Some res
      | c # backlog' \<Rightarrow>
          if c = node then Some TB_TRUE
          else case map_of m c of
                 None \<Rightarrow> quorumSearch node qfun m backlog' (c # visited) TB_MAYBE
               | Some sts \<Rightarrow>
                   quorumSearch node qfun m (fst (exploreStatements qfun (c # visited) sts backlog' res))
                     (c # visited) (snd (exploreStatements qfun (c # visited) sts backlog' res)))"

definition isNodeInQuorum ::
  "NodeID \<Rightarrow> NodeID \<Rightarrow> (SCPStatement \<Rightarrow> SCPQuorumSet option) \<Rightarrow>
   (NodeID, SCPStatement list) omap \<Rightarrow> TriBool option" where
  "isNodeInQuorum mNodeID node qfun m = quorumSearch node qfun m [mNodeID] [] TB_FALSE"

section \<open>Slices as counts\<close>

definition needed :: "uint32 \<Rightarrow> nat" where
  "needed t = (if t = 0 then 2 ^ 32 else unat t)"

fun slice_spec :: "SCPQuorumSet \<Rightarrow> NodeID set \<Rightarrow> bool" where
  "slice_spec (SCPQuorumSet t v i) S \<longleftrightarrow>
     needed t \<le> length (filter (\<lambda>n. n \<in> S) v) + length (filter (\<lambda>q. slice_spec q S) i)"

lemma needed_pos [simp]: "0 < needed t"
  by (simp add: needed_def unat_gt_0)

lemma needed_eq_1: "t - 1 = 0 \<longleftrightarrow> needed t = 1"
  using word_unat_eq_iff[of t 1] by (auto simp: needed_def)

lemma needed_minus_1:
  assumes "t - 1 \<noteq> 0"
  shows "needed (t - 1) = needed t - 1"
proof (cases "t = 0")
  case True
  then show ?thesis by (simp add: needed_def unsigned_minus_1_eq_mask mask_eq_exp_minus_1)
next
  case False
  then show ?thesis using assms by (simp add: needed_def unat_minus_one)
qed

lemma sliceValidators_count:
  "sliceValidators t vs S =
     (let c = length (filter (\<lambda>v. v \<in> set S) vs) in
      if needed t \<le> c then None else Some (t - of_nat c))"
proof (induction t vs S rule: sliceValidators.induct)
  case (1 t S)
  show ?case by simp
next
  case (2 t v vs S)
  then show ?case
    using needed_eq_1[of t] needed_minus_1[of t] needed_pos[of t]
    by (auto simp: Let_def diff_diff_eq split: if_splits)
qed

lemma needed_minus: "c < needed t \<Longrightarrow> needed (t - of_nat c) = needed t - c"
proof (induction c)
  case 0
  then show ?case by simp
next
  case (Suc c)
  then have IH: "needed (t - of_nat c) = needed t - c" by simp
  with Suc.prems have "t - of_nat c - 1 \<noteq> 0"
    using needed_eq_1[of "t - of_nat c"] by auto
  then have "needed (t - of_nat c - 1) = needed t - c - 1"
    using needed_minus_1[of "t - of_nat c"] IH by simp
  then show ?case by (simp add: diff_diff_eq add.commute)
qed

lemma isQuorumSliceInternal_spec:
  "isQuorumSliceInternal q S \<longleftrightarrow> slice_spec q (set S)"
  "sliceInner t i S \<longleftrightarrow> needed t \<le> length (filter (\<lambda>q. slice_spec q (set S)) i)"
proof (induction q S and t i S rule: isQuorumSliceInternal_sliceInner.induct)
  case (1 t v i S)
  let ?c = "length (filter (\<lambda>v. v \<in> set S) v)"
  show ?case
  proof (cases "needed t \<le> ?c")
    case True
    then show ?thesis by (simp add: sliceValidators_count)
  next
    case False
    then have c: "sliceValidators t v S = Some (t - of_nat ?c)"
      by (simp add: sliceValidators_count)
    with 1 False show ?thesis by (auto simp: needed_minus)
  qed
next
  case (2 t S)
  then show ?case by (simp add: not_le)
next
  case (3 t q qs S)
  then show ?case
    using needed_eq_1[of t] needed_minus_1[of t] needed_pos[of t] by (auto split: if_splits)
qed

lemma isQuorumSlice_spec: "isQuorumSlice q S \<longleftrightarrow> slice_spec q (set S)"
  by (simp add: isQuorumSlice_def isQuorumSliceInternal_spec)

lemma length_filter_mono:
  "(\<And>x. x \<in> set xs \<Longrightarrow> P x \<Longrightarrow> Q x) \<Longrightarrow> length (filter P xs) \<le> length (filter Q xs)"
  by (induction xs) (auto intro: le_SucI)

lemma slice_spec_mono: "slice_spec q A \<Longrightarrow> A \<subseteq> B \<Longrightarrow> slice_spec q B"
proof (induction q A rule: slice_spec.induct)
  case (1 t v i S)
  have "length (filter (\<lambda>n. n \<in> S) v) \<le> length (filter (\<lambda>n. n \<in> B) v)"
    using 1(3) by (intro length_filter_mono) auto
  moreover have "length (filter (\<lambda>q. slice_spec q S) i) \<le> length (filter (\<lambda>q. slice_spec q B) i)"
    using 1 by (intro length_filter_mono) auto
  ultimately show ?case using 1(2) by simp
qed

lemma slice_spec_restrict: "slice_spec q (A \<inter> set (allNodesInternal q)) \<longleftrightarrow> slice_spec q A"
proof -
  have "slice_spec q (A \<inter> X) \<longleftrightarrow> slice_spec q A" if "set (allNodesInternal q) \<subseteq> X" for X
    using that
  proof (induction q A rule: slice_spec.induct)
    case (1 t v i S)
    have "filter (\<lambda>n. n \<in> S \<inter> X) v = filter (\<lambda>n. n \<in> S) v"
      using 1(2) by (intro filter_cong) auto
    moreover have "filter (\<lambda>q. slice_spec q (S \<inter> X)) i = filter (\<lambda>q. slice_spec q S) i"
      using 1 by (intro filter_cong) auto
    ultimately show ?case by (simp only: slice_spec.simps)
  qed
  then show ?thesis by simp
qed

section \<open>Well-formed quorum sets\<close>

text \<open>\<open>qset_fits\<close>: no vector has \<open>2 ^ 31\<close> entries, so the \<open>int\<close> counter of the
  v-blocking test holds the count. \<open>wf_qset\<close> is what sanity and size give together.\<close>

fun qset_fits :: "SCPQuorumSet \<Rightarrow> bool" where
  "qset_fits (SCPQuorumSet t v i) \<longleftrightarrow> length v + length i < 2 ^ 31 \<and> (\<forall>q\<in>set i. qset_fits q)"

fun wf_qset :: "SCPQuorumSet \<Rightarrow> bool" where
  "wf_qset (SCPQuorumSet t v i) \<longleftrightarrow>
     1 \<le> unat t \<and> unat t \<le> length v + length i \<and> length v + length i < 2 ^ 31 \<and>
     (\<forall>q\<in>set i. wf_qset q)"

fun all_thresholds :: "bool \<Rightarrow> SCPQuorumSet \<Rightarrow> bool" where
  "all_thresholds ec (SCPQuorumSet t v i) \<longleftrightarrow>
     thresholdOk t (length v + length i) ec \<and> (\<forall>q\<in>set i. all_thresholds ec q)"

lemma insertNodes_iff:
  "insertNodes ns known \<noteq> None \<longleftrightarrow> distinct ns \<and> set ns \<inter> set known = {}"
  by (induction ns known rule: insertNodes.induct) (auto simp: set_insort_insert)

lemma insertNodes_set:
  "insertNodes ns known = Some k \<Longrightarrow> set k = set ns \<union> set known"
  by (induction ns known arbitrary: k rule: insertNodes.induct)
     (auto simp: set_insort_insert split: if_splits)

lemma isQuorumSetSaneInternal_set:
  "isQuorumSetSaneInternal q known ec = Some k \<Longrightarrow> set k = set (allNodesInternal q) \<union> set known"
  "saneInnerSets qs known ec = Some k \<Longrightarrow>
     set k = set (concat (map allNodesInternal qs)) \<union> set known"
  by (induction q known ec and qs known ec arbitrary: k and k
      rule: isQuorumSetSaneInternal_saneInnerSets.induct)
     (auto split: if_splits option.splits dest!: insertNodes_set)

lemma isQuorumSetSaneInternal_iff:
  "isQuorumSetSaneInternal q known ec \<noteq> None \<longleftrightarrow>
     all_thresholds ec q \<and> distinct (allNodesInternal q) \<and>
     set (allNodesInternal q) \<inter> set known = {}"
  "saneInnerSets qs known ec \<noteq> None \<longleftrightarrow>
     (\<forall>q\<in>set qs. all_thresholds ec q) \<and> distinct (concat (map allNodesInternal qs)) \<and>
     set (concat (map allNodesInternal qs)) \<inter> set known = {}"
proof (induction q known ec and qs known ec rule: isQuorumSetSaneInternal_saneInnerSets.induct)
  case (1 t v i known ec)
  show ?case
  proof (cases "thresholdOk t (length v + length i) ec")
    case T: True
    show ?thesis
    proof (cases "insertNodes v known")
      case None
      then show ?thesis using T insertNodes_iff[of v known] by auto
    next
      case (Some k)
      have "set k = set v \<union> set known" using insertNodes_set[OF Some] .
      then show ?thesis
        using T Some 1[OF T Some] insertNodes_iff[of v known] by auto
    qed
  next
    case False
    then show ?thesis by simp
  qed
next
  case (2 known ec)
  show ?case by simp
next
  case (3 q qs known ec)
  show ?case
  proof (cases "isQuorumSetSaneInternal q known ec")
    case None
    then show ?thesis using 3(1) by auto
  next
    case (Some k)
    have "set k = set (allNodesInternal q) \<union> set known"
      using isQuorumSetSaneInternal_set(1)[OF Some] .
    then show ?thesis using Some 3(1) 3(2)[OF Some] by auto
  qed
qed

lemma isQuorumSetSane_iff:
  "isQuorumSetSane q ec \<longleftrightarrow> all_thresholds ec q \<and> distinct (allNodesInternal q)"
  using isQuorumSetSaneInternal_iff(1)[of q "[]" ec] by (simp add: isQuorumSetSane_def)

lemma wf_qset_iff: "wf_qset q \<longleftrightarrow> all_thresholds False q \<and> qset_fits q"
  by (induction q rule: wf_qset.induct) (auto simp: thresholdOk_def)

lemma all_thresholds_weaken: "all_thresholds ec q \<Longrightarrow> all_thresholds False q"
  by (induction q rule: wf_qset.induct) (auto simp: thresholdOk_def)

lemma sane_wf: "isQuorumSetSane q ec \<Longrightarrow> qset_fits q \<Longrightarrow> wf_qset q"
  by (auto simp: isQuorumSetSane_iff wf_qset_iff intro: all_thresholds_weaken)

section \<open>V-blocking sets\<close>

lemma blockValidators_count:
  "1 \<le> l \<Longrightarrow> blockValidators l vs S =
     (let c = int (length (filter (\<lambda>v. v \<in> set S) vs)) in if l \<le> c then None else Some (l - c))"
  by (induction l vs S rule: blockValidators.induct) (auto simp: Let_def)

lemma blockInner_count:
  "1 \<le> l \<Longrightarrow> blockInner l i S \<longleftrightarrow> l \<le> int (length (filter (\<lambda>q. isVBlockingInternal q S) i))"
  by (induction i arbitrary: l) auto

lemma leftTillBlock_exact:
  assumes "1 \<le> k" "k \<le> n" "n < 2 ^ 31" "unat t = k"
  shows "leftTillBlock_int t n = 1 + int n - int k"
proof -
  have k: "uint t = int k" using assms(4) uint_nat[of t] by simp
  have "signed_take_bit 31 (1 + int n - int k) = 1 + int n - int k"
    using assms(1-3) by (intro signed_take_bit_int_eq_self) auto
  then show ?thesis
    unfolding leftTillBlock_int_def k sint_sbintrunc' by simp
qed

lemma length_filter_not: "length (filter P xs) + length (filter (\<lambda>x. \<not> P x) xs) = length xs"
  by (simp add: sum_length_filter_compl)

text \<open>The duality: a set blocks exactly when the remaining nodes contain no slice.\<close>

lemma isVBlockingInternal_dual:
  "wf_qset q \<Longrightarrow> isVBlockingInternal q S \<longleftrightarrow> \<not> slice_spec q (- set S)"
proof (induction q rule: wf_qset.induct)
  case (1 t v i)
  let ?b = "length (filter (\<lambda>n. n \<in> set S) v)" and ?b' = "length (filter (\<lambda>n. n \<notin> set S) v)"
  let ?k = "length (filter (\<lambda>q. isVBlockingInternal q S) i)"
  let ?k' = "length (filter (\<lambda>q. slice_spec q (- set S)) i)"
  obtain k where k: "unat t = k" by blast
  have t: "1 \<le> k" "k \<le> length v + length i" "length v + length i < 2 ^ 31"
    using 1(2) k by auto
  have left: "leftTillBlock_int t (length v + length i) = 1 + int (length v + length i) - int k"
    using t k by (rule leftTillBlock_exact)
  have inner: "filter (\<lambda>q. isVBlockingInternal q S) i = filter (\<lambda>q. \<not> slice_spec q (- set S)) i"
    using 1 by (intro filter_cong) auto
  have split: "?b + ?b' = length v" "?k' + ?k = length i"
    unfolding inner by (rule length_filter_not)+
  have t0: "t \<noteq> 0" using t(1) k by auto
  have "isVBlockingInternal (SCPQuorumSet t v i) S \<longleftrightarrow> 1 + (length v + length i) \<le> k + (?b + ?k)"
  proof (cases "1 + int (length v + length i) - int k \<le> int ?b")
    case True
    then show ?thesis using t t0 left by (auto simp: blockValidators_count Let_def)
  next
    case False
    then show ?thesis using t t0 left by (auto simp: blockValidators_count blockInner_count Let_def)
  qed
  moreover have "slice_spec (SCPQuorumSet t v i) (- set S) \<longleftrightarrow> k \<le> ?b' + ?k'"
    using t0 k by (simp add: needed_def)
  ultimately show ?case using split by linarith
qed

section \<open>Normalisation keeps the meaning\<close>

lemma slice_spec_singleton:
  "isSingletonSet q \<Longrightarrow> slice_spec q S \<longleftrightarrow> hd (validators q) \<in> S"
  by (cases q) (auto simp: isSingletonSet_def needed_def length_Suc_conv split: if_splits)

lemma normalizeQSet_slice:
  "slice_spec (normalizeQSet q) S \<longleftrightarrow> slice_spec q S"
  "normalizeInner v i = (v', i') \<Longrightarrow>
     length (filter (\<lambda>n. n \<in> S) v') + length (filter (\<lambda>q. slice_spec q S) i') =
     length (filter (\<lambda>n. n \<in> S) v) + length (filter (\<lambda>q. slice_spec q S) i)"
proof (induction q and v i arbitrary: and v' i' rule: normalizeQSet_normalizeInner.induct)
  case (1 t v i)
  obtain v' i' where n: "normalizeInner v i = (v', i')" by force
  note eq = 1[OF n]
  show ?case
  proof (cases "t = 1 \<and> length v' = 0 \<and> length i' = 1")
    case True
    then obtain x where "i' = [x]" by (auto simp: length_Suc_conv)
    with True n eq show ?thesis by (auto simp: needed_def split: if_splits)
  next
    case False
    then show ?thesis using n eq by auto
  qed
next
  case (2 v)
  then show ?case by simp
next
  case (3 v q qs)
  show ?case
  proof (cases "isSingletonSet (normalizeQSet q)")
    case True
    with 3(4) have n: "normalizeInner (v @ [hd (validators (normalizeQSet q))]) qs = (v', i')"
      by (simp add: Let_def)
    from 3(2)[OF refl True n] True 3(1)[of] show ?thesis
      using slice_spec_singleton[OF True, of S] by simp
  next
    case False
    with 3(4) obtain i'' where n: "normalizeInner v qs = (v', i'')" and i': "i' = normalizeQSet q # i''"
      by (auto simp: Let_def split: prod.splits)
    from 3(3)[OF refl False n] i' 3(1) show ?thesis by simp
  qed
qed

lemma mset_normalizeQSet:
  "mset (allNodesInternal (normalizeQSet q)) = mset (allNodesInternal q)"
  "normalizeInner v i = (v', i') \<Longrightarrow>
     mset v' + mset (concat (map allNodesInternal i')) = mset v + mset (concat (map allNodesInternal i))"
proof (induction q and v i arbitrary: and v' i' rule: normalizeQSet_normalizeInner.induct)
  case (1 t v i)
  obtain v' i' where n: "normalizeInner v i = (v', i')" by force
  from 1[OF n] show ?case by (auto simp: n length_Suc_conv)
next
  case (2 v)
  then show ?case by simp
next
  case (3 v q qs)
  let ?q = "normalizeQSet q"
  show ?case
  proof (cases "isSingletonSet ?q")
    case True
    with 3(4) have n: "normalizeInner (v @ [hd (validators ?q)]) qs = (v', i')"
      by (simp add: Let_def)
    obtain x where "?q = SCPQuorumSet 1 [x] []"
      using True by (cases ?q) (auto simp: isSingletonSet_def length_Suc_conv)
    then have "mset (allNodesInternal q) = {#hd (validators ?q)#}"
      using 3(1) by simp
    then show ?thesis using 3(2)[OF refl True n] by simp
  next
    case False
    with 3(4) obtain i'' where n: "normalizeInner v qs = (v', i'')" and i': "i' = ?q # i''"
      by (auto simp: Let_def split: prod.splits)
    then have "mset v' + mset (concat (map allNodesInternal i')) =
        mset (allNodesInternal q) + (mset v' + mset (concat (map allNodesInternal i'')))"
      using 3(1) by simp
    then show ?thesis using 3(3)[OF refl False n] by simp
  qed
qed

lemma all_thresholds_singleton: "isSingletonSet q \<Longrightarrow> all_thresholds ec q"
  by (cases q) (auto simp: isSingletonSet_def thresholdOk_def)

lemma all_thresholds_normalizeQSet:
  "all_thresholds ec (normalizeQSet q) \<longleftrightarrow> all_thresholds ec q"
  "normalizeInner v i = (v', i') \<Longrightarrow> length v' + length i' = length v + length i \<and>
     ((\<forall>q\<in>set i'. all_thresholds ec q) \<longleftrightarrow> (\<forall>q\<in>set i. all_thresholds ec q))"
proof (induction q and v i arbitrary: and v' i' rule: normalizeQSet_normalizeInner.induct)
  case (1 t v i)
  obtain v' i' where n: "normalizeInner v i = (v', i')" by force
  from 1(1)[OF n] show ?case by (auto simp: n length_Suc_conv thresholdOk_def)
next
  case (2 v)
  then show ?case by simp
next
  case (3 v q qs)
  show ?case
  proof (cases "isSingletonSet (normalizeQSet q)")
    case True
    with 3(4) have n: "normalizeInner (v @ [hd (validators (normalizeQSet q))]) qs = (v', i')"
      by (simp add: Let_def)
    from 3(2)[OF refl True n] 3(1) all_thresholds_singleton[OF True] show ?thesis by simp
  next
    case False
    with 3(4) obtain i'' where n: "normalizeInner v qs = (v', i'')" and i': "i' = normalizeQSet q # i''"
      by (auto simp: Let_def split: prod.splits)
    from 3(3)[OF refl False n] i' 3(1) show ?thesis by simp
  qed
qed

section \<open>Greatest quorums\<close>

text \<open>
  The interface the voting code relies on: whether a node's quorum set is satisfied by a set of
  nodes is monotone in that set. From it follows that the quorums inside a set have a greatest
  one, and that throwing out the unsatisfied nodes does not change it.
\<close>

locale fbas =
  fixes sat :: "'n \<Rightarrow> 'n set \<Rightarrow> bool"
  assumes sat_mono: "sat n A \<Longrightarrow> A \<subseteq> B \<Longrightarrow> sat n B"
begin

definition quorum :: "'n set \<Rightarrow> bool" where
  "quorum U \<longleftrightarrow> (\<forall>n\<in>U. sat n U)"

definition kernel :: "'n set \<Rightarrow> 'n set" where
  "kernel P = \<Union> {U. U \<subseteq> P \<and> quorum U}"

lemma kernel_subset: "kernel P \<subseteq> P"
  by (auto simp: kernel_def)

lemma kernel_quorum: "quorum (kernel P)"
  unfolding quorum_def
proof
  fix n assume "n \<in> kernel P"
  then obtain U where U: "n \<in> U" "U \<subseteq> P" "quorum U" by (auto simp: kernel_def)
  then have "sat n U" by (auto simp: quorum_def)
  then show "sat n (kernel P)" using U by (rule_tac sat_mono) (auto simp: kernel_def)
qed

lemma kernel_greatest: "U \<subseteq> P \<Longrightarrow> quorum U \<Longrightarrow> U \<subseteq> kernel P"
  by (auto simp: kernel_def)

lemma kernel_fixed: "\<forall>n\<in>P. sat n P \<Longrightarrow> kernel P = P"
  by (auto simp: kernel_def quorum_def)

lemma kernel_step: "kernel {n \<in> P. sat n P} = kernel P"
proof
  show "kernel {n \<in> P. sat n P} \<subseteq> kernel P"
    by (auto simp: kernel_def)
  have "kernel P \<subseteq> {n \<in> P. sat n P}"
    using kernel_subset[of P] kernel_quorum[of P] by (auto simp: quorum_def intro: sat_mono)
  then show "kernel P \<subseteq> kernel {n \<in> P. sat n P}"
    by (rule kernel_greatest) (rule kernel_quorum)
qed

lemma kernel_sat_iff:
  "sat n (kernel P) \<longleftrightarrow> (\<exists>U. U \<subseteq> P \<and> quorum U \<and> sat n U)"
proof
  assume "sat n (kernel P)"
  then show "\<exists>U. U \<subseteq> P \<and> quorum U \<and> sat n U"
    using kernel_subset[of P] kernel_quorum[of P] by auto
next
  assume "\<exists>U. U \<subseteq> P \<and> quorum U \<and> sat n U"
  then obtain U where "U \<subseteq> P" "quorum U" "sat n U" by auto
  then show "sat n (kernel P)" by (auto intro: sat_mono[OF _ kernel_greatest])
qed

end

definition node_sat :: "(NodeID \<Rightarrow> SCPQuorumSet) \<Rightarrow> NodeID \<Rightarrow> NodeID set \<Rightarrow> bool" where
  "node_sat Q n S = slice_spec (Q n) S"

interpretation nodes: fbas "node_sat Q" for Q
  by unfold_locales (auto simp: node_sat_def intro: slice_spec_mono)


lemma quorumFilter_sat:
  assumes "\<And>n. n \<in> set ns \<Longrightarrow> \<exists>env. map_of m n = Some env \<and> qfun (statement env) = Some (Q n)"
    and "n \<in> set ns"
  shows "quorumFilter m qfun ns n = Inr (node_sat Q n (set ns))"
  using assms(1)[OF assms(2)]
  by (auto simp: quorumFilter_def node_sat_def isQuorumSlice_spec)

text \<open>The do-while loop of \<open>isQuorum\<close> ends at the greatest quorum among the nodes it starts
  from, whatever their order.\<close>

lemma quorumLoop_kernel:
  assumes "\<And>n. n \<in> set ns \<Longrightarrow> \<exists>env. map_of m n = Some env \<and> qfun (statement env) = Some (Q n)"
  shows "\<exists>r. quorumLoop m qfun ns = Inr r \<and> set r = nodes.kernel Q (set ns)"
  using assms
proof (induction "length ns" arbitrary: ns rule: less_induct)
  case less
  let ?f = "filter (\<lambda>n. node_sat Q n (set ns)) ns"
  have f: "filterE (quorumFilter m qfun ns) ns = Inr ?f"
    by (rule filterE_Inr) (rule quorumFilter_sat[OF less.prems])
  show ?case
  proof (cases "length ns = length ?f")
    case True
    then have all: "?f = ns" by (metis length_filter_less nat_neq_iff filter_True)
    then have "\<forall>n\<in>set ns. node_sat Q n (set ns)" by (metis (lifting) filter_id_conv)
    then show ?thesis
      using f True all by (subst quorumLoop.simps) (simp add: nodes.kernel_fixed)
  next
    case False
    then have lt: "length ?f < length ns"
      using length_filter_le[of "\<lambda>n. node_sat Q n (set ns)" ns] by linarith
    from less.hyps[OF lt] less.prems obtain r
      where r: "quorumLoop m qfun ?f = Inr r" "set r = nodes.kernel Q (set ?f)" by auto
    then have "set r = nodes.kernel Q (set ns)"
      using nodes.kernel_step[of Q "set ns"] by simp
    then show ?thesis using f False r by (subst quorumLoop.simps) auto
  qed
qed

lemma isQuorum_kernel:
  assumes "\<And>n. n \<in> set (filterNodes filt m) \<Longrightarrow>
      \<exists>env. map_of m n = Some env \<and> qfun (statement env) = Some (Q n)"
  shows "isQuorum q m qfun filt = Inr (slice_spec q (nodes.kernel Q (set (filterNodes filt m))))"
proof -
  obtain r where "quorumLoop m qfun (filterNodes filt m) = Inr r"
    "set r = nodes.kernel Q (set (filterNodes filt m))"
    using quorumLoop_kernel[OF assms] by blast
  then show ?thesis by (simp add: isQuorum_def isQuorumSlice_spec)
qed

section \<open>Transitive membership\<close>

definition quorum_edges ::
  "(SCPStatement \<Rightarrow> SCPQuorumSet option) \<Rightarrow> (NodeID, SCPStatement list) omap \<Rightarrow> (NodeID \<times> NodeID) set"
  where
  "quorum_edges qfun m = {(a, b). \<exists>sts st q. map_of m a = Some sts \<and> st \<in> set sts \<and>
     qfun st = Some q \<and> b \<in> set (allNodesInternal q)}"

definition quorum_unknown ::
  "(SCPStatement \<Rightarrow> SCPQuorumSet option) \<Rightarrow> (NodeID, SCPStatement list) omap \<Rightarrow> NodeID \<Rightarrow> bool" where
  "quorum_unknown qfun m c \<longleftrightarrow>
     (case map_of m c of None \<Rightarrow> True | Some sts \<Rightarrow> \<exists>st\<in>set sts. qfun st = None)"

lemma set_keepFirst: "set (keepFirst done ns) = set ns - set done"
  by (induction "done" ns rule: keepFirst.induct) auto

lemma distinct_keepFirst: "distinct (keepFirst done ns)"
  by (induction "done" ns rule: keepFirst.induct) (auto simp: set_keepFirst)

lemma set_forAllNodes: "set (forAllNodes q) = set (allNodesInternal q)"
  by (simp add: forAllNodes_def set_keepFirst)

lemma backlog_insert:
  "set (foldl (\<lambda>b n. if n \<in> set visited \<or> n \<in> set b then b else b @ [n]) backlog ns) =
     set backlog \<union> (set ns - set visited)"
  "distinct backlog \<Longrightarrow>
     distinct (foldl (\<lambda>b n. if n \<in> set visited \<or> n \<in> set b then b else b @ [n]) backlog ns)"
  by (induction ns arbitrary: backlog) auto

lemma exploreStatements_backlog:
  "set (fst (exploreStatements qfun visited sts backlog res)) =
     set backlog \<union>
     ({b. \<exists>st\<in>set sts. \<exists>q. qfun st = Some q \<and> b \<in> set (allNodesInternal q)} - set visited)"
  by (induction qfun visited sts backlog res rule: exploreStatements.induct)
     (auto simp: backlog_insert set_forAllNodes split: option.splits)

lemma exploreStatements_distinct:
  "distinct backlog \<Longrightarrow> distinct (fst (exploreStatements qfun visited sts backlog res))"
  by (induction qfun visited sts backlog res rule: exploreStatements.induct)
     (auto simp: backlog_insert split: option.splits)

lemma exploreStatements_res:
  "snd (exploreStatements qfun visited sts backlog res) =
     (if \<exists>st\<in>set sts. qfun st = None then TB_MAYBE else res)"
  by (induction qfun visited sts backlog res rule: exploreStatements.induct)
     (auto split: option.splits)

lemma finite_quorum_edges: "finite (Range (quorum_edges qfun m))"
proof -
  have "Range (quorum_edges qfun m) \<subseteq>
      (\<Union>p\<in>set m. \<Union>st\<in>set (snd p). set (allNodesInternal (the (qfun st))))"
    by (force simp: quorum_edges_def dest: map_of_SomeD)
  then show ?thesis by (rule finite_subset) auto
qed

lemma finite_reachable:
  assumes "finite A" "finite (Range E)"
  shows "finite (E\<^sup>* `` A)"
proof (rule finite_subset)
  show "E\<^sup>* `` A \<subseteq> A \<union> Range E" by (auto elim: rtranclE)
qed (use assms in auto)

lemma reachable_step:
  assumes "V' \<subseteq> E\<^sup>* `` V" "V \<subseteq> V'"
  shows "E\<^sup>* `` V' = E\<^sup>* `` V"
proof
  have "E\<^sup>* `` V' \<subseteq> E\<^sup>* `` (E\<^sup>* `` V)" using assms(1) by (intro Image_mono) auto
  also have "\<dots> = E\<^sup>* `` V" by (simp flip: relcomp_Image)
  finally show "E\<^sup>* `` V' \<subseteq> E\<^sup>* `` V" .
qed (use assms(2) in auto)

text \<open>The outcome of the search for a set of nodes it starts from.\<close>

definition search_result ::
  "NodeID \<Rightarrow> (SCPStatement \<Rightarrow> SCPQuorumSet option) \<Rightarrow> (NodeID, SCPStatement list) omap \<Rightarrow>
   NodeID set \<Rightarrow> TriBool" where
  "search_result node qfun m V =
     (let R = (quorum_edges qfun m)\<^sup>* `` V in
      if node \<in> R then TB_TRUE
      else if \<exists>c\<in>R. quorum_unknown qfun m c then TB_MAYBE else TB_FALSE)"

definition search_inv ::
  "NodeID \<Rightarrow> (SCPStatement \<Rightarrow> SCPQuorumSet option) \<Rightarrow> (NodeID, SCPStatement list) omap \<Rightarrow>
   NodeID list \<Rightarrow> NodeID list \<Rightarrow> TriBool \<Rightarrow> bool" where
  "search_inv node qfun m backlog visited res \<longleftrightarrow>
     distinct backlog \<and> set backlog \<inter> set visited = {} \<and> node \<notin> set visited \<and>
     quorum_edges qfun m `` set visited \<subseteq> set visited \<union> set backlog \<and>
     res = (if \<exists>c\<in>set visited. quorum_unknown qfun m c then TB_MAYBE else TB_FALSE)"

definition search_next ::
  "(SCPStatement \<Rightarrow> SCPQuorumSet option) \<Rightarrow> (NodeID, SCPStatement list) omap \<Rightarrow>
   NodeID \<Rightarrow> NodeID list \<Rightarrow> NodeID list \<Rightarrow> TriBool \<Rightarrow> NodeID list \<times> TriBool" where
  "search_next qfun m c backlog visited res =
     (case map_of m c of
        None \<Rightarrow> (backlog, TB_MAYBE)
      | Some sts \<Rightarrow> exploreStatements qfun (c # visited) sts backlog res)"

lemma quorumSearch_Cons:
  "c \<noteq> node \<Longrightarrow> quorumSearch node qfun m (c # backlog) visited res =
     quorumSearch node qfun m (fst (search_next qfun m c backlog visited res)) (c # visited)
       (snd (search_next qfun m c backlog visited res))"
  by (subst quorumSearch.simps) (simp add: search_next_def split: option.splits)

lemma search_next_backlog:
  "set (fst (search_next qfun m c backlog visited res)) =
     set backlog \<union> (quorum_edges qfun m `` {c} - set (c # visited))"
  by (auto simp: search_next_def quorum_edges_def exploreStatements_backlog split: option.splits)

lemma search_inv_next:
  assumes inv: "search_inv node qfun m (c # backlog) visited res" and "c \<noteq> node"
  shows "search_inv node qfun m (fst (search_next qfun m c backlog visited res)) (c # visited)
    (snd (search_next qfun m c backlog visited res))"
proof -
  have d: "distinct (fst (search_next qfun m c backlog visited res))"
    using inv by (auto simp: search_inv_def search_next_def split: option.splits
        intro: exploreStatements_distinct)
  have r: "snd (search_next qfun m c backlog visited res) =
      (if \<exists>c\<in>set (c # visited). quorum_unknown qfun m c then TB_MAYBE else TB_FALSE)"
    using inv by (auto simp: search_inv_def search_next_def exploreStatements_res
        quorum_unknown_def split: option.splits)
  show ?thesis
    using inv assms(2) d r unfolding search_inv_def search_next_backlog by auto
qed

lemma search_result_next:
  "search_result node qfun m
     (set (c # visited) \<union> set (fst (search_next qfun m c backlog visited res))) =
   search_result node qfun m (set visited \<union> set (c # backlog))"
proof -
  have "(quorum_edges qfun m)\<^sup>* ``
      (set (c # visited) \<union> set (fst (search_next qfun m c backlog visited res))) =
    (quorum_edges qfun m)\<^sup>* `` (set visited \<union> set (c # backlog))"
    by (rule reachable_step) (auto simp: search_next_backlog)
  then show ?thesis by (simp only: search_result_def)
qed

lemma quorumSearch_result:
  assumes "search_inv node qfun m backlog visited res"
    and "finite R" "(quorum_edges qfun m)\<^sup>* `` (set visited \<union> set backlog) \<subseteq> R"
  shows "quorumSearch node qfun m backlog visited res =
    Some (search_result node qfun m (set visited \<union> set backlog))"
  using assms
proof (induction "card (R - set visited)" arbitrary: backlog visited res rule: less_induct)
  case less
  let ?E = "quorum_edges qfun m"
  note inv = less.prems(1)[unfolded search_inv_def]
  show ?case
  proof (cases backlog)
    case Nil
    have "?E\<^sup>* `` set visited = set visited"
      using inv Nil by (intro Image_closed_trancl) auto
    then show ?thesis
      using inv Nil by (subst quorumSearch.simps) (auto simp: search_result_def Let_def)
  next
    case (Cons c backlog')
    show ?thesis
    proof (cases "c = node")
      case True
      then show ?thesis using Cons
        by (subst quorumSearch.simps) (auto simp: search_result_def Let_def)
    next
      case False
      let ?b = "fst (search_next qfun m c backlog' visited res)"
      have c: "c \<in> R" "c \<notin> set visited" using less.prems(3) inv Cons by auto
      then have lt: "card (R - set (c # visited)) < card (R - set visited)"
        using less.prems(2) by (intro psubset_card_mono) auto
      have "?E\<^sup>* `` (set (c # visited) \<union> set ?b) \<subseteq> R"
        using less.prems(3) reachable_step[of "set (c # visited) \<union> set ?b" ?E "set visited \<union> set backlog"]
        by (auto simp: Cons search_next_backlog)
      with less.hyps[OF lt search_inv_next less.prems(2)] less.prems(1) False Cons
      show ?thesis
        using search_result_next[of node qfun m c visited backlog' res]
        by (simp add: quorumSearch_Cons)
    qed
  qed
qed

lemma isNodeInQuorum_result:
  "isNodeInQuorum me node qfun m = Some (search_result node qfun m {me})"
proof -
  have "finite ((quorum_edges qfun m)\<^sup>* `` {me})"
    by (rule finite_reachable) (auto simp: finite_quorum_edges)
  then show ?thesis
    using quorumSearch_result[of node qfun m "[me]" "[]" TB_FALSE]
    by (simp add: isNodeInQuorum_def search_inv_def)
qed

section \<open>Weights\<close>

text \<open>The weight of a node on unbounded naturals: the product of threshold over size along the path
  to its first occurrence of non-zero weight, rounded down at each level.\<close>

fun weight_ref :: "NodeID \<Rightarrow> SCPQuorumSet \<Rightarrow> nat" and weight_inner :: "NodeID \<Rightarrow> SCPQuorumSet list \<Rightarrow> nat" where
  "weight_ref nid (SCPQuorumSet t v i) =
     (if nid \<in> set v then (2 ^ 64 - 1) * unat t div (length v + length i)
      else weight_inner nid i * unat t div (length v + length i))"
| "weight_inner nid [] = 0"
| "weight_inner nid (q # qs) = (let w = weight_ref nid q in if w \<noteq> 0 then w else weight_inner nid qs)"

lemma scaled_down: "w < 2 ^ 64 \<Longrightarrow> t \<le> d \<Longrightarrow> w * t div d < (2 :: nat) ^ 64"
  by (cases "d = 0") (auto intro: le_less_trans[OF div_le_mono[OF mult_le_mono2[of t d w]]])

lemma bigDivide_weight:
  assumes "unat t \<le> d" "0 < d" "d < 2 ^ 31"
  shows "bigDivide_u64 w (ucast (t :: uint32)) (of_nat d) ROUND_DOWN = Inr (True, of_nat (unat w * unat t div d))"
proof -
  have d: "unat (of_nat d :: uint64) = d" "(of_nat d :: uint64) \<noteq> 0"
    using assms by (simp_all add: unat_of_nat_u64 of_nat_u64_eq_0)
  have "unat t < 2 ^ LENGTH(32)" by (rule unsigned_less)
  then have t: "unat (ucast t :: uint64) = unat t" by (simp add: unsigned_ucast_eq take_bit_nat_eq_self_iff)
  have "unat w * unat t div d < 2 ^ 64" using scaled_down[OF _ assms(1)] by (simp add: unat_u64_less)
  then show ?thesis by (simp add: bigDivide_u64_exact[OF d(2)] d t exact_quotient_def)
qed

lemma innerWeight_ref:
  assumes d: "unat (t :: uint32) \<le> d" "0 < d" "d < 2 ^ 31"
    and inner: "\<And>q. q \<in> set qs \<Longrightarrow>
      getNodeWeight n q = Inr (of_nat (weight_ref n q)) \<and> weight_ref n q < 2 ^ 64"
  shows "innerWeight n (ucast t) (of_nat d) qs = Inr (of_nat (weight_inner n qs * unat t div d)) \<and>
    weight_inner n qs < 2 ^ 64"
  using inner
proof (induction qs)
  case (Cons q qs)
  have q: "getNodeWeight n q = Inr (of_nat (weight_ref n q))" "weight_ref n q < 2 ^ 64"
    using Cons.prems by auto
  show ?case
    using Cons.IH Cons.prems q bigDivide_weight[OF d, of "of_nat (weight_ref n q)"]
    by (simp add: of_nat_u64_eq_0 unat_of_nat_u64 Let_def)
qed simp

lemma getNodeWeight_ref:
  "wf_qset q \<Longrightarrow> getNodeWeight n q = Inr (of_nat (weight_ref n q)) \<and> weight_ref n q < 2 ^ 64"
proof (induction q rule: wf_qset.induct)
  case (1 t v i)
  have d: "unat t \<le> length v + length i" "0 < length v + length i" "length v + length i < 2 ^ 31"
    using 1(2) by auto
  have inner: "innerWeight n (ucast t) (of_nat (length v + length i)) i =
      Inr (of_nat (weight_inner n i * unat t div (length v + length i))) \<and> weight_inner n i < 2 ^ 64"
    by (rule innerWeight_ref[OF d]) (use 1 in auto)
  have lt: "weight_ref n (SCPQuorumSet t v i) < 2 ^ 64"
    using scaled_down[of _ "unat t" "length v + length i"] inner d by simp
  have max: "unat UINT64_MAX = 2 ^ 64 - 1" by simp
  show ?case
    using inner lt bigDivide_weight[OF d, of UINT64_MAX] unfolding max
    by (simp add: Let_def add.commute[of "length i"])
qed

lemma weight_absent:
  "n \<notin> set (allNodesInternal q) \<Longrightarrow> weight_ref n q = 0"
  "n \<notin> set (concat (map allNodesInternal qs)) \<Longrightarrow> weight_inner n qs = 0"
  by (induction n q and n qs rule: weight_ref_weight_inner.induct) (auto simp: Let_def)

section \<open>Properties\<close>

text \<open>C25. On a sane quorum set a set of nodes is v-blocking exactly when it meets every quorum
  slice.\<close>

theorem vblocking_meets_slices:
  assumes "isQuorumSetSane q extraChecks" "qset_fits q"
  shows "isVBlockingInternal q S \<longleftrightarrow> (\<forall>U. isQuorumSlice q U \<longrightarrow> set U \<inter> set S \<noteq> {})"
proof -
  have wf: "wf_qset q" by (rule sane_wf[OF assms])
  have restrict: "slice_spec q (- set S) \<longleftrightarrow> (\<exists>U. slice_spec q (set U) \<and> set U \<inter> set S = {})"
  proof
    assume "slice_spec q (- set S)"
    then have "slice_spec q (- set S \<inter> set (allNodesInternal q))" using slice_spec_restrict by blast
    moreover obtain U where "set U = - set S \<inter> set (allNodesInternal q)"
      using finite_list[of "- set S \<inter> set (allNodesInternal q)"] by auto
    ultimately show "\<exists>U. slice_spec q (set U) \<and> set U \<inter> set S = {}" by (intro exI[of _ U]) auto
  next
    assume "\<exists>U. slice_spec q (set U) \<and> set U \<inter> set S = {}"
    then obtain U where "slice_spec q (set U)" "set U \<subseteq> - set S" by auto
    then show "slice_spec q (- set S)" by (rule slice_spec_mono)
  qed
  show ?thesis by (simp only: isVBlockingInternal_dual[OF wf] isQuorumSlice_spec restrict) blast
qed

theorem vblocking_meets_slices_witness:
  "isVBlockingInternal (SCPQuorumSet 2 [1, 2, 3] []) [1, 2] \<and> isQuorumSlice (SCPQuorumSet 2 [1, 2, 3] []) [2, 3] \<and>
   set [2, 3] \<inter> set [1, 2 :: NodeID] \<noteq> {}"
proof -
  let ?q = "SCPQuorumSet 2 [1, 2, 3] []"
  have "isQuorumSetSane ?q False" "qset_fits ?q" "isVBlockingInternal ?q [1, 2]" "isQuorumSlice ?q [2, 3]"
    by (simp_all add: isQuorumSetSane_def thresholdOk_def insort_insert_key_def isQuorumSlice_def leftTillBlock_int_def)
  then show ?thesis using vblocking_meets_slices[of ?q False "[1, 2]"] by blast
qed

text \<open>C26. The quorum test finds the greatest quorum: when the quorum set of every node that passes
  the filter is known, it answers whether some set of those nodes contains a slice of each of its
  members and a slice of the local quorum set.\<close>

theorem isQuorum_exists:
  assumes "\<And>n. n \<in> set (filterNodes filt m) \<Longrightarrow>
      \<exists>env. map_of m n = Some env \<and> qfun (statement env) = Some (Q n)"
  shows "isQuorum q m qfun filt = Inr (\<exists>U. U \<subseteq> set (filterNodes filt m) \<and>
    (\<forall>n\<in>U. slice_spec (Q n) U) \<and> slice_spec q U)"
proof -
  have greatest: "slice_spec q (nodes.kernel Q (set (filterNodes filt m))) \<longleftrightarrow>
      (\<exists>U. U \<subseteq> set (filterNodes filt m) \<and> nodes.quorum Q U \<and> slice_spec q U)" (is "?l = ?r")
  proof
    assume ?l
    then show ?r
      by (intro exI[of _ "nodes.kernel Q (set (filterNodes filt m))"] conjI
          nodes.kernel_subset nodes.kernel_quorum)
  next
    assume ?r
    then obtain U where U: "U \<subseteq> set (filterNodes filt m)" "nodes.quorum Q U" "slice_spec q U" by auto
    then show ?l by (intro slice_spec_mono[OF U(3) nodes.kernel_greatest])
  qed
  show ?thesis by (simp only: isQuorum_kernel[OF assms] greatest nodes.quorum_def node_sat_def)
qed

theorem isQuorum_exists_witness:
  "isQuorum (SCPQuorumSet 1 [4] []) [(4, \<lparr>statement = \<lparr>nodeID = 4, slotIndex = 1,
       pledges = NOMINATE \<lparr>n_quorumSetHash = [], n_votes = [], n_accepted = []\<rparr>\<rparr>, signature = []\<rparr>)]
     (\<lambda>_. Some (SCPQuorumSet 1 [4] [])) (\<lambda>_. True) = Inr True" (is "isQuorum ?q ?m ?qfun ?filt = _")
proof -
  have nodes: "set (filterNodes ?filt ?m) = {4}" by (simp add: filterNodes_def)
  then have "\<exists>env. map_of ?m n = Some env \<and> ?qfun (statement env) = Some ?q"
    if "n \<in> set (filterNodes ?filt ?m)" for n
    using that by simp
  then have "isQuorum ?q ?m ?qfun ?filt = Inr (\<exists>U. U \<subseteq> set (filterNodes ?filt ?m) \<and>
      (\<forall>n\<in>U. slice_spec ?q U) \<and> slice_spec ?q U)"
    by (rule isQuorum_exists[where Q = "\<lambda>_. ?q"])
  then have "isQuorum ?q ?m ?qfun ?filt =
      Inr (\<exists>U. U \<subseteq> {4} \<and> (\<forall>n\<in>U. slice_spec ?q U) \<and> slice_spec ?q U)"
    by (simp only: nodes)
  moreover have "slice_spec ?q {4}" by (simp add: needed_def)
  ultimately show ?thesis by auto
qed

text \<open>C28. Normalising a quorum set keeps its slices, the nodes it mentions with their
  multiplicities, and whether it is sane.\<close>

theorem normalizeQSet_equivalent:
  "isQuorumSlice (normalizeQSet q) S = isQuorumSlice q S \<and>
   mset (allNodesInternal (normalizeQSet q)) = mset (allNodesInternal q) \<and>
   isQuorumSetSane (normalizeQSet q) extraChecks = isQuorumSetSane q extraChecks"
  using all_thresholds_normalizeQSet(1) mset_eq_imp_distinct_iff[OF mset_normalizeQSet(1)[of q]]
  by (auto simp: isQuorumSlice_spec normalizeQSet_slice(1) mset_normalizeQSet(1) isQuorumSetSane_iff)

text \<open>A quorum set is sane exactly when, at every level, the threshold is between one and the
  number of entries (and, with the extra checks, a v-blocking number of entries does not exceed the threshold),
  and no node occurs twice in it.\<close>

theorem isQuorumSetSane_exact:
  "isQuorumSetSane q extraChecks \<longleftrightarrow> all_thresholds extraChecks q \<and> distinct (allNodesInternal q)"
  by (rule isQuorumSetSane_iff)

text \<open>C29. Asking whether a node is in the transitive quorum always gets an answer, and the answer is
  reachability: yes when the node can be reached over the quorum sets of the statements, no when it
  cannot and every reached node is known, and maybe otherwise.\<close>

theorem isNodeInQuorum_reachability:
  "isNodeInQuorum me node qfun m =
     Some (if node \<in> (quorum_edges qfun m)\<^sup>* `` {me} then TB_TRUE
           else if \<exists>c\<in>(quorum_edges qfun m)\<^sup>* `` {me}. quorum_unknown qfun m c then TB_MAYBE else TB_FALSE)"
  by (simp add: isNodeInQuorum_result search_result_def Let_def)

text \<open>The weight of a node never overflows: the machine arithmetic computes the weight on
  unbounded naturals, which is zero for a node outside the set.\<close>

theorem getNodeWeight_exact:
  assumes "isQuorumSetSane q extraChecks" "qset_fits q"
  shows "getNodeWeight n q = Inr (of_nat (weight_ref n q)) \<and> weight_ref n q < 2 ^ 64 \<and>
    (n \<notin> set (allNodesInternal q) \<longrightarrow> getNodeWeight n q = Inr 0)"
  using getNodeWeight_ref[OF sane_wf[OF assms], of n] weight_absent(1)[of n q] by auto

theorem getNodeWeight_exact_witness:
  "getNodeWeight 1 (SCPQuorumSet 2 [1, 2, 3, 4] []) = Inr (of_nat ((2 ^ 64 - 1) * 2 div 4))"
proof -
  have "isQuorumSetSane (SCPQuorumSet 2 [1, 2, 3, 4] []) False" "qset_fits (SCPQuorumSet 2 [1, 2, 3, 4] [])"
    by (simp_all add: isQuorumSetSane_def thresholdOk_def insort_insert_key_def)
  from getNodeWeight_exact[OF this, of 1] show ?thesis by simp
qed

end
