(* ===== verification/FederatedVoting.thy ===== *)
theory FederatedVoting
  imports QuorumSet
begin

text \<open>
  What the two protocols of a slot share: the local node and the driver they are given, the quorum
  set a statement stands for, and the two tests of federated voting, \<open>federatedAccept\<close> and
  \<open>federatedRatify\<close> of \<^verbatim>\<open>scp/Slot.cpp\<close>. The driver is an abstract class, so its methods
  are functions of the context; those the class itself implements (\<^verbatim>\<open>scp/SCPDriver.cpp\<close>)
  are defined here.
\<close>

section \<open>Definitions\<close>

datatype ValidationLevel = kInvalidValue | kFullyValidatedValue | kMaybeValidValue

datatype EnvelopeState = INVALID | VALID

text \<open>\<open>LocalNode\<close> (\<open>mNodeID\<close>, \<open>mIsValidator\<close>, \<open>mQSet\<close>, \<open>mQSetHash\<close>) and the virtual
  methods of \<open>SCPDriver\<close> that return something. \<open>signEnvelope\<close> gives the signature it writes
  into the envelope.\<close>

record SCPContext =
  mNodeID :: NodeID
  mIsValidator :: bool
  mQSet :: SCPQuorumSet
  mQSetHash :: Hash
  getQSet :: "Hash \<Rightarrow> SCPQuorumSet option"
  validateValue :: "uint64 \<Rightarrow> Value \<Rightarrow> ValidationLevel"
  extractValidValue :: "uint64 \<Rightarrow> Value \<Rightarrow> Value"
  signEnvelope :: "SCPStatement \<Rightarrow> bytes"
  verifyEnvelope :: "SCPEnvelope \<Rightarrow> bool"
  computeHashNode :: "uint64 \<Rightarrow> Value \<Rightarrow> bool \<Rightarrow> uint32 \<Rightarrow> NodeID \<Rightarrow> uint64"
  computeValueHash :: "uint64 \<Rightarrow> Value \<Rightarrow> uint32 \<Rightarrow> Value \<Rightarrow> uint64"
  combineCandidates :: "uint64 \<Rightarrow> Value list \<Rightarrow> Value"

text \<open>The timeout of a round, in milliseconds.\<close>

definition MAX_TIMEOUT_SECONDS :: uint32 where
  "MAX_TIMEOUT_SECONDS = 30 * 60"

definition computeTimeout :: "uint32 \<Rightarrow> nat" where
  "computeTimeout roundNumber =
     1000 * unat (if MAX_TIMEOUT_SECONDS < roundNumber then MAX_TIMEOUT_SECONDS else roundNumber)"

definition getCompanionQuorumSetHashFromStatement :: "SCPStatement \<Rightarrow> Hash" where
  "getCompanionQuorumSetHashFromStatement st =
     (case pledges st of
        PREPARE p \<Rightarrow> p_quorumSetHash p
      | CONFIRM c \<Rightarrow> c_quorumSetHash c
      | EXTERNALIZE e \<Rightarrow> e_commitQuorumSetHash e
      | NOMINATE n \<Rightarrow> n_quorumSetHash n)"

definition getQuorumSetFromStatement :: "SCPContext \<Rightarrow> SCPStatement \<Rightarrow> SCPQuorumSet option" where
  "getQuorumSetFromStatement c st =
     (case pledges st of
        EXTERNALIZE e \<Rightarrow> Some (buildSingletonQSet (nodeID st))
      | PREPARE p \<Rightarrow> getQSet c (p_quorumSetHash p)
      | CONFIRM cf \<Rightarrow> getQSet c (c_quorumSetHash cf)
      | NOMINATE n \<Rightarrow> getQSet c (n_quorumSetHash n))"

definition federatedAccept ::
  "SCPContext \<Rightarrow> (SCPStatement \<Rightarrow> bool) \<Rightarrow> (SCPStatement \<Rightarrow> bool) \<Rightarrow> envelopes \<Rightarrow> bool result" where
  "federatedAccept c voted accepted envs =
     (if isVBlocking (mQSet c) envs accepted then Inr True
      else isQuorum (mQSet c) envs (getQuorumSetFromStatement c) (\<lambda>st. accepted st \<or> voted st))"

definition federatedRatify ::
  "SCPContext \<Rightarrow> (SCPStatement \<Rightarrow> bool) \<Rightarrow> envelopes \<Rightarrow> bool result" where
  "federatedRatify c voted envs = isQuorum (mQSet c) envs (getQuorumSetFromStatement c) voted"

section \<open>The tests never fail when quorum sets are known\<close>

text \<open>\<open>known_qsets\<close>: the quorum set of every recorded statement can be looked up, which the
  caller ensures by fetching it before it hands an envelope over, and the map is one.\<close>

definition known_qsets :: "SCPContext \<Rightarrow> envelopes \<Rightarrow> bool" where
  "known_qsets c envs \<longleftrightarrow> omap_wf envs \<and>
     (\<forall>(n, env) \<in> set envs. getQuorumSetFromStatement c (statement env) \<noteq> None)"

text \<open>The quorum set a node has announced.\<close>

definition announced :: "SCPContext \<Rightarrow> envelopes \<Rightarrow> NodeID \<Rightarrow> SCPQuorumSet" where
  "announced c envs n =
     (case map_of envs n of
        None \<Rightarrow> buildSingletonQSet n
      | Some env \<Rightarrow> (case getQuorumSetFromStatement c (statement env) of
                      None \<Rightarrow> buildSingletonQSet n | Some q \<Rightarrow> q))"

definition agreeing :: "envelopes \<Rightarrow> (SCPStatement \<Rightarrow> bool) \<Rightarrow> NodeID set" where
  "agreeing envs P = {n. \<exists>env. map_of envs n = Some env \<and> P (statement env)}"

lemma set_filterNodes: "omap_wf envs \<Longrightarrow> set (filterNodes P envs) = agreeing envs P"
  by (force simp: filterNodes_def agreeing_def omap_wf_map_of[symmetric])

lemma agreeing_mono: "(\<And>st. P st \<Longrightarrow> Q st) \<Longrightarrow> agreeing envs P \<subseteq> agreeing envs Q"
  by (auto simp: agreeing_def)

lemma isQuorum_announced:
  assumes "known_qsets c envs"
  shows "isQuorum q envs (getQuorumSetFromStatement c) P =
    Inr (slice_spec q (nodes.kernel (announced c envs) (agreeing envs P)))"
proof -
  have wf: "omap_wf envs" using assms by (simp add: known_qsets_def)
  have "\<exists>env. map_of envs n = Some env \<and>
      getQuorumSetFromStatement c (statement env) = Some (announced c envs n)"
    if n: "n \<in> set (filterNodes P envs)" for n
  proof -
    obtain env where env: "map_of envs n = Some env"
      using n by (auto simp: set_filterNodes[OF wf] agreeing_def)
    then have "(n, env) \<in> set envs" by (simp add: omap_wf_map_of[OF wf])
    then have "getQuorumSetFromStatement c (statement env) \<noteq> None"
      using assms by (force simp: known_qsets_def)
    then show ?thesis using env by (auto simp: announced_def)
  qed
  then have "isQuorum q envs (getQuorumSetFromStatement c) P =
      Inr (slice_spec q (nodes.kernel (announced c envs) (set (filterNodes P envs))))"
    by (rule isQuorum_kernel)
  then show ?thesis by (simp only: set_filterNodes[OF wf])
qed

lemma isVBlocking_agreeing:
  "wf_qset q \<Longrightarrow> omap_wf envs \<Longrightarrow> isVBlocking q envs P \<longleftrightarrow> \<not> slice_spec q (- agreeing envs P)"
  by (simp add: isVBlocking_def isVBlockingInternal_dual set_filterNodes)

lemma federatedRatify_iff:
  "known_qsets c envs \<Longrightarrow> federatedRatify c voted envs =
     Inr (\<exists>U. U \<subseteq> agreeing envs voted \<and> nodes.quorum (announced c envs) U \<and> slice_spec (mQSet c) U)"
  unfolding federatedRatify_def isQuorum_announced
  using nodes.kernel_sat_iff[of "\<lambda>_. mQSet c"] nodes.kernel_subset nodes.kernel_quorum
    nodes.kernel_greatest slice_spec_mono
  by simp (metis (no_types, lifting))

section \<open>Properties\<close>

text \<open>C27. A statement is accepted exactly when the nodes that accept it meet every slice of the
  local node, or the nodes that vote for it or accept it contain a quorum with a slice of the local
  node; both tests return as long as the announced quorum sets are known.\<close>

theorem federatedAccept_exact:
  assumes "isQuorumSetSane (mQSet c) extraChecks" "qset_fits (mQSet c)" "known_qsets c envs"
  shows "federatedAccept c voted accepted envs = Inr
    ((\<forall>U. slice_spec (mQSet c) U \<longrightarrow> U \<inter> agreeing envs accepted \<noteq> {}) \<or>
     (\<exists>U. U \<subseteq> agreeing envs (\<lambda>st. accepted st \<or> voted st) \<and>
        (\<forall>n\<in>U. slice_spec (announced c envs n) U) \<and> slice_spec (mQSet c) U))"
proof -
  have wf: "wf_qset (mQSet c)" by (rule sane_wf[OF assms(1,2)])
  have block: "isVBlocking (mQSet c) envs accepted \<longleftrightarrow>
      (\<forall>U. slice_spec (mQSet c) U \<longrightarrow> U \<inter> agreeing envs accepted \<noteq> {})" (is "_ = ?r")
  proof -
    have "slice_spec (mQSet c) (- agreeing envs accepted)"
      if "slice_spec (mQSet c) U" "U \<inter> agreeing envs accepted = {}" for U
      by (rule slice_spec_mono[OF that(1)]) (use that(2) in blast)
    then have "\<not> slice_spec (mQSet c) (- agreeing envs accepted) \<longleftrightarrow> ?r" by blast
    moreover have "omap_wf envs" using assms(3) by (simp add: known_qsets_def)
    ultimately show ?thesis using isVBlocking_agreeing[OF wf] by simp
  qed
  have quorum: "isQuorum (mQSet c) envs (getQuorumSetFromStatement c) P =
      Inr (\<exists>U. U \<subseteq> agreeing envs P \<and> (\<forall>n\<in>U. slice_spec (announced c envs n) U) \<and> slice_spec (mQSet c) U)" for P
    using federatedRatify_iff[OF assms(3), of P]
    by (simp only: federatedRatify_def nodes.quorum_def node_sat_def)
  show ?thesis
    by (simp only: federatedAccept_def block quorum if_distrib[of Inr] split: if_split) blast
qed

theorem federatedAccept_exact_witness:
  "federatedAccept \<lparr>mNodeID = 1, mIsValidator = True, mQSet = SCPQuorumSet 1 [1] [], mQSetHash = [],
     getQSet = (\<lambda>h. None), validateValue = (\<lambda>i v. kInvalidValue), extractValidValue = (\<lambda>i v. []),
     signEnvelope = (\<lambda>st. []), verifyEnvelope = (\<lambda>e. True), computeHashNode = (\<lambda>i p b r n. 0),
     computeValueHash = (\<lambda>i p r v. 0), combineCandidates = (\<lambda>i vs. [])\<rparr> (\<lambda>_. True) (\<lambda>_. True) [] = Inr False"
  (is "federatedAccept ?c _ _ _ = _")
proof -
  have "isQuorumSetSane (mQSet ?c) False" "qset_fits (mQSet ?c)" "known_qsets ?c []"
    by (simp_all add: isQuorumSetSane_def thresholdOk_def known_qsets_def)
  from federatedAccept_exact[OF this, of "\<lambda>_. True" "\<lambda>_. True"]
  show ?thesis by (auto simp: agreeing_def needed_def dest: spec[of _ "{1}"])
qed

end
