(* ===== verification/BallotProtocol.thy ===== *)
theory BallotProtocol
  imports FederatedVoting
begin

text \<open>
  The ballot protocol, \<^verbatim>\<open>scp/BallotProtocol.cpp\<close>, operation by operation and in the order of
  the source, together with the state of a slot (\<^verbatim>\<open>scp/Slot.h\<close>) it works on.

  A \<open>Slot\<close> owns one \<open>NominationProtocol\<close> and one \<open>BallotProtocol\<close> by value, so the three
  classes are one record built by extension. Calls of the driver that return nothing are appended
  to \<open>mTrace\<close>. Operations that can throw or assert return \<open>failure + 'a\<close>, where the value is
  the new slot together with what the C++ method returns. Assertions are active: the build files
  of the repository do not define \<open>NDEBUG\<close>.

  \<open>advanceSlot\<close> is reached again from inside the operations it calls, through
  \<open>emitCurrentStateStatement\<close> and \<open>processEnvelope\<close>. Those operations therefore take the
  recursive call as an argument \<open>adv\<close>.
\<close>

section \<open>State\<close>

datatype SCPPhase = SCP_PHASE_PREPARE | SCP_PHASE_CONFIRM | SCP_PHASE_EXTERNALIZE

datatype TimerCallback = BallotProtocolTimerExpired | NominateAgain Value Value

datatype DriverEvent =
    EmitEnvelope SCPEnvelope
  | ValueExternalized uint64 Value
  | NominatingValue uint64 Value
  | UpdatedCandidateValue uint64 Value
  | StartedBallotProtocol uint64 SCPBallot
  | AcceptedBallotPrepared uint64 SCPBallot
  | ConfirmedBallotPrepared uint64 SCPBallot
  | AcceptedCommit uint64 SCPBallot
  | BallotDidHearFromQuorum uint64 SCPBallot
  | SetupTimer uint64 nat TimerCallback

text \<open>A \<open>shared_ptr<SCPEnvelope>\<close> is compared by identity: the number is that of the
  allocation.\<close>

type_synonym envelope_ptr = "(nat \<times> SCPEnvelope) option"

record NominationProtocol =
  mRoundNumber :: uint32
  mVotes :: "Value list"
  mAccepted :: "Value list"
  mCandidates :: "Value list"
  mLatestNominations :: envelopes
  mNomLastEnvelope :: "SCPEnvelope option"
  mRoundLeaders :: "NodeID list"
  mNominationStarted :: bool
  mLatestCompositeCandidate :: Value
  mPreviousValue :: Value

record BallotProtocol = NominationProtocol +
  mHeardFromQuorum :: bool
  mPhase :: SCPPhase
  mCurrentBallot :: "SCPBallot option"
  mPrepared :: "SCPBallot option"
  mPreparedPrime :: "SCPBallot option"
  mHighBallot :: "SCPBallot option"
  mCommit :: "SCPBallot option"
  mLatestEnvelopes :: envelopes
  mCurrentMessageLevel :: nat
  mLastEnvelope :: envelope_ptr
  mLastEnvelopeEmit :: envelope_ptr

record Slot = BallotProtocol +
  mSlotIndex :: uint64
  mStatementsHistory :: "(SCPStatement \<times> bool) list"
  mFullyValidated :: bool
  mTrace :: "DriverEvent list"

type_synonym advance = "SCPStatement \<Rightarrow> Slot \<Rightarrow> Slot result"

definition MAX_ADVANCE_SLOT_RECURSION :: nat where
  "MAX_ADVANCE_SLOT_RECURSION = 50"

definition notify :: "DriverEvent \<Rightarrow> Slot \<Rightarrow> Slot" where
  "notify e s = s\<lparr>mTrace := mTrace s @ [e]\<rparr>"

definition recordStatement :: "SCPStatement \<Rightarrow> Slot \<Rightarrow> Slot" where
  "recordStatement st s = s\<lparr>mStatementsHistory := mStatementsHistory s @ [(st, mFullyValidated s)]\<rparr>"

definition stopNomination :: "Slot \<Rightarrow> Slot" where
  "stopNomination s = s\<lparr>mNominationStarted := False\<rparr>"

definition createEnvelope :: "SCPContext \<Rightarrow> Slot \<Rightarrow> SCPStatement \<Rightarrow> SCPEnvelope" where
  "createEnvelope c s st =
     (let mySt = st\<lparr>nodeID := mNodeID c, slotIndex := mSlotIndex s\<rparr>
      in \<lparr>statement = mySt, signature = signEnvelope c mySt\<rparr>)"

section \<open>Ballots\<close>

definition nullBallot :: SCPBallot where
  "nullBallot = SCPBallot 0 []"

definition compareBallots :: "SCPBallot \<Rightarrow> SCPBallot \<Rightarrow> int" where
  "compareBallots b1 b2 =
     (if counter b1 < counter b2 then -1
      else if counter b2 < counter b1 then 1
      else if bvalue b1 < bvalue b2 then -1
      else if bvalue b2 < bvalue b1 then 1
      else 0)"

definition compareBallots_ptr :: "SCPBallot option \<Rightarrow> SCPBallot option \<Rightarrow> int" where
  "compareBallots_ptr b1 b2 =
     (case (b1, b2) of
        (Some x, Some y) \<Rightarrow> compareBallots x y
      | (Some _, None) \<Rightarrow> 1
      | (None, Some _) \<Rightarrow> -1
      | (None, None) \<Rightarrow> 0)"

definition areBallotsCompatible :: "SCPBallot \<Rightarrow> SCPBallot \<Rightarrow> bool" where
  "areBallotsCompatible b1 b2 \<longleftrightarrow> bvalue b1 = bvalue b2"

definition areBallotsLessAndIncompatible :: "SCPBallot \<Rightarrow> SCPBallot \<Rightarrow> bool" where
  "areBallotsLessAndIncompatible b1 b2 \<longleftrightarrow> compareBallots b1 b2 \<le> 0 \<and> \<not> areBallotsCompatible b1 b2"

definition areBallotsLessAndCompatible :: "SCPBallot \<Rightarrow> SCPBallot \<Rightarrow> bool" where
  "areBallotsLessAndCompatible b1 b2 \<longleftrightarrow> compareBallots b1 b2 \<le> 0 \<and> areBallotsCompatible b1 b2"

section \<open>Statements\<close>

text \<open>The numeric value of \<open>pledges.type()\<close>.\<close>

fun pledgeType :: "SCPPledges \<Rightarrow> nat" where
  "pledgeType (PREPARE _) = 0"
| "pledgeType (CONFIRM _) = 1"
| "pledgeType (EXTERNALIZE _) = 2"
| "pledgeType (NOMINATE _) = 3"

definition isBallotStatement :: "SCPStatement \<Rightarrow> bool" where
  "isBallotStatement st \<longleftrightarrow> pledgeType (pledges st) < 3"

text \<open>Two \<open>NOMINATE\<close> statements are never compared here: the slot hands them to the other
  protocol.\<close>

definition isNewerStatement :: "SCPStatement \<Rightarrow> SCPStatement \<Rightarrow> bool" where
  "isNewerStatement oldst st =
     (case (pledges oldst, pledges st) of
        (EXTERNALIZE _, EXTERNALIZE _) \<Rightarrow> False
      | (CONFIRM oldC, CONFIRM cf) \<Rightarrow>
          (let compBallot = compareBallots (c_ballot oldC) (c_ballot cf) in
           if compBallot < 0 then True
           else if compBallot = 0
           then if c_nPrepared oldC = c_nPrepared cf then c_nH oldC < c_nH cf
                else c_nPrepared oldC < c_nPrepared cf
           else False)
      | (PREPARE oldPrep, PREPARE prep) \<Rightarrow>
          (let compBallot = compareBallots (p_ballot oldPrep) (p_ballot prep) in
           if compBallot < 0 then True
           else if compBallot = 0
           then (let compP = compareBallots_ptr (p_prepared oldPrep) (p_prepared prep) in
                 if compP < 0 then True
                 else if compP = 0
                 then (let compP' = compareBallots_ptr (p_preparedPrime oldPrep) (p_preparedPrime prep) in
                       if compP' < 0 then True
                       else if compP' = 0 then p_nH oldPrep < p_nH prep
                       else False)
                 else False)
           else False)
      | (o_pl, pl) \<Rightarrow> pledgeType o_pl < pledgeType pl)"

definition isNewerStatement_node :: "Slot \<Rightarrow> NodeID \<Rightarrow> SCPStatement \<Rightarrow> bool" where
  "isNewerStatement_node s n st =
     (case map_of (mLatestEnvelopes s) n of
        None \<Rightarrow> True
      | Some old \<Rightarrow> isNewerStatement (statement old) st)"

definition recordEnvelope :: "SCPEnvelope \<Rightarrow> Slot \<Rightarrow> Slot" where
  "recordEnvelope env s =
     recordStatement (statement env)
       (s\<lparr>mLatestEnvelopes := map_put (nodeID (statement env)) env (mLatestEnvelopes s)\<rparr>)"

definition isStatementSane :: "SCPContext \<Rightarrow> SCPStatement \<Rightarrow> bool \<Rightarrow> bool result" where
  "isStatementSane c st self =
     bindE (deref (getQuorumSetFromStatement c st)) (\<lambda>q.
     if \<not> isQuorumSetSane q False then Inr False
     else case pledges st of
       PREPARE p \<Rightarrow>
         Inr ((self \<or> 0 < counter (p_ballot p)) \<and>
              (case (p_preparedPrime p, p_prepared p) of
                 (Some pp, Some pr) \<Rightarrow> areBallotsLessAndIncompatible pp pr
               | _ \<Rightarrow> True) \<and>
              (p_nH p = 0 \<or> (case p_prepared p of None \<Rightarrow> False | Some pr \<Rightarrow> p_nH p \<le> counter pr)) \<and>
              (p_nC p = 0 \<or> p_nH p \<noteq> 0 \<and> p_nH p \<le> counter (p_ballot p) \<and> p_nC p \<le> p_nH p))
     | CONFIRM cf \<Rightarrow>
         Inr (0 < counter (c_ballot cf) \<and> c_nH cf \<le> counter (c_ballot cf) \<and> c_nCommit cf \<le> c_nH cf)
     | EXTERNALIZE e \<Rightarrow> Inr (0 < counter (e_commit e) \<and> counter (e_commit e) \<le> e_nH e)
     | NOMINATE _ \<Rightarrow> Inl AssertFailed)"

definition hasPreparedBallot :: "SCPBallot \<Rightarrow> SCPStatement \<Rightarrow> bool" where
  "hasPreparedBallot ballot st =
     (case pledges st of
        PREPARE p \<Rightarrow>
          (case p_prepared p of None \<Rightarrow> False | Some pr \<Rightarrow> areBallotsLessAndCompatible ballot pr) \<or>
          (case p_preparedPrime p of None \<Rightarrow> False | Some pp \<Rightarrow> areBallotsLessAndCompatible ballot pp)
      | CONFIRM cf \<Rightarrow>
          areBallotsLessAndCompatible ballot (SCPBallot (c_nPrepared cf) (bvalue (c_ballot cf)))
      | EXTERNALIZE e \<Rightarrow> areBallotsCompatible ballot (e_commit e)
      | NOMINATE _ \<Rightarrow> False)"

definition getWorkingBallot :: "SCPStatement \<Rightarrow> SCPBallot" where
  "getWorkingBallot st =
     (case pledges st of
        PREPARE p \<Rightarrow> p_ballot p
      | CONFIRM cf \<Rightarrow> SCPBallot (c_nCommit cf) (bvalue (c_ballot cf))
      | EXTERNALIZE e \<Rightarrow> e_commit e
      | NOMINATE _ \<Rightarrow> nullBallot)"

text \<open>The last value that is not fully validated decides, in the order of the values.\<close>

fun validateLoop :: "SCPContext \<Rightarrow> uint64 \<Rightarrow> Value list \<Rightarrow> ValidationLevel \<Rightarrow> ValidationLevel" where
  "validateLoop c i [] res = res"
| "validateLoop c i (v # vs) res =
     (let tr = validateValue c i v in
      validateLoop c i vs
        (if tr \<noteq> kFullyValidatedValue
         then if tr = kInvalidValue then kInvalidValue else kMaybeValidValue
         else res))"

definition validateValues :: "SCPContext \<Rightarrow> Slot \<Rightarrow> SCPStatement \<Rightarrow> ValidationLevel" where
  "validateValues c s st =
     (case pledges st of
        PREPARE p \<Rightarrow>
          (let vs = (if counter (p_ballot p) \<noteq> 0 then [bvalue (p_ballot p)] else []);
               vs' = (case p_prepared p of None \<Rightarrow> vs | Some pr \<Rightarrow> insort_insert (bvalue pr) vs)
           in validateLoop c (mSlotIndex s) vs' kFullyValidatedValue)
      | CONFIRM cf \<Rightarrow> validateLoop c (mSlotIndex s) [bvalue (c_ballot cf)] kFullyValidatedValue
      | EXTERNALIZE e \<Rightarrow> validateLoop c (mSlotIndex s) [bvalue (e_commit e)] kFullyValidatedValue
      | NOMINATE _ \<Rightarrow> kInvalidValue)"

section \<open>Moving the current ballot\<close>

definition startBallotProtocolTimer :: "Slot \<Rightarrow> Slot result" where
  "startBallotProtocolTimer s =
     bindE (deref (mCurrentBallot s)) (\<lambda>b.
     Inr (notify (SetupTimer (mSlotIndex s) (computeTimeout (counter b)) BallotProtocolTimerExpired) s))"

definition bumpToBallot :: "SCPBallot \<Rightarrow> bool \<Rightarrow> Slot \<Rightarrow> Slot result" where
  "bumpToBallot ballot check s =
     bindE (assertE (mPhase s \<noteq> SCP_PHASE_EXTERNALIZE)) (\<lambda>_.
     bindE (assertE (\<not> check \<or>
       (case mCurrentBallot s of None \<Rightarrow> True | Some b \<Rightarrow> compareBallots ballot b \<ge> 0))) (\<lambda>_.
     let gotBumped = (mCurrentBallot s \<noteq> Some ballot);
         s' = s\<lparr>mCurrentBallot := Some ballot, mHeardFromQuorum := False\<rparr>
     in if gotBumped then startBallotProtocolTimer s' else Inr s'))"

definition updateCurrentIfNeeded :: "Slot \<Rightarrow> Slot result" where
  "updateCurrentIfNeeded s =
     (case mCurrentBallot s of
        None \<Rightarrow> bindE (deref (mHighBallot s)) (\<lambda>h. bumpToBallot h True s)
      | Some b \<Rightarrow> bindE (deref (mHighBallot s)) (\<lambda>h.
          if compareBallots b h < 0 then bumpToBallot h True s else Inr s))"

definition checkInvariants :: "Slot \<Rightarrow> unit result" where
  "checkInvariants s =
     bindE (assertE (case mCurrentBallot s of None \<Rightarrow> True | Some b \<Rightarrow> counter b \<noteq> 0)) (\<lambda>_.
     bindE (assertE (case (mPrepared s, mPreparedPrime s) of
                       (Some p, Some p') \<Rightarrow> areBallotsLessAndIncompatible p' p
                     | _ \<Rightarrow> True)) (\<lambda>_.
     bindE (case mCommit s of
              None \<Rightarrow> Inr ()
            | Some cm \<Rightarrow>
                (case mCurrentBallot s of
                   None \<Rightarrow> Inl AssertFailed
                 | Some b \<Rightarrow>
                     bindE (deref (mHighBallot s)) (\<lambda>h.
                     bindE (assertE (areBallotsLessAndCompatible cm h)) (\<lambda>_.
                     assertE (areBallotsLessAndCompatible h b))))) (\<lambda>_.
     case mPhase s of
       SCP_PHASE_PREPARE \<Rightarrow> Inr ()
     | SCP_PHASE_CONFIRM \<Rightarrow> assertE (mCommit s \<noteq> None)
     | SCP_PHASE_EXTERNALIZE \<Rightarrow> assertE (mCommit s \<noteq> None \<and> mHighBallot s \<noteq> None))))"

definition updateCurrentValue :: "SCPBallot \<Rightarrow> Slot \<Rightarrow> (bool \<times> Slot) result" where
  "updateCurrentValue ballot s =
     (if mPhase s \<noteq> SCP_PHASE_PREPARE \<and> mPhase s \<noteq> SCP_PHASE_CONFIRM then Inr (False, s)
      else case mCurrentBallot s of
        None \<Rightarrow>
          bindE (bumpToBallot ballot True s) (\<lambda>s'.
          bindE (checkInvariants s') (\<lambda>_. Inr (True, s')))
      | Some b \<Rightarrow>
          bindE (assertE (compareBallots b ballot \<le> 0)) (\<lambda>_.
          if (case mCommit s of None \<Rightarrow> False | Some cm \<Rightarrow> \<not> areBallotsCompatible cm ballot)
          then Inr (False, s)
          else let comp = compareBallots b ballot in
            if comp < 0
            then bindE (bumpToBallot ballot True s) (\<lambda>s'.
                 bindE (checkInvariants s') (\<lambda>_. Inr (True, s')))
            else if comp > 0 then Inr (False, s)
            else bindE (checkInvariants s) (\<lambda>_. Inr (False, s))))"

section \<open>Statements of the local node\<close>

definition createStatement :: "SCPContext \<Rightarrow> Slot \<Rightarrow> SCPStatement result" where
  "createStatement c s =
     bindE (checkInvariants s) (\<lambda>_.
     bindE (case mPhase s of
       SCP_PHASE_PREPARE \<Rightarrow>
         Inr (PREPARE \<lparr>p_quorumSetHash = mQSetHash c,
           p_ballot = (case mCurrentBallot s of None \<Rightarrow> nullBallot | Some b \<Rightarrow> b),
           p_prepared = mPrepared s, p_preparedPrime = mPreparedPrime s,
           p_nC = (case mCommit s of None \<Rightarrow> 0 | Some cm \<Rightarrow> counter cm),
           p_nH = (case mHighBallot s of None \<Rightarrow> 0 | Some h \<Rightarrow> counter h)\<rparr>)
     | SCP_PHASE_CONFIRM \<Rightarrow>
         bindE (deref (mCommit s)) (\<lambda>cm.
         bindE (deref (mHighBallot s)) (\<lambda>h.
         bindE (assertE (areBallotsLessAndCompatible cm h)) (\<lambda>_.
         bindE (deref (mCurrentBallot s)) (\<lambda>b.
         bindE (deref (mPrepared s)) (\<lambda>p.
         Inr (CONFIRM \<lparr>c_ballot = b, c_nPrepared = counter p, c_nCommit = counter cm,
           c_nH = counter h, c_quorumSetHash = mQSetHash c\<rparr>))))))
     | SCP_PHASE_EXTERNALIZE \<Rightarrow>
         bindE (deref (mCommit s)) (\<lambda>cm.
         bindE (deref (mHighBallot s)) (\<lambda>h.
         bindE (assertE (areBallotsLessAndCompatible cm h)) (\<lambda>_.
         Inr (EXTERNALIZE \<lparr>e_commit = cm, e_nH = counter h, e_commitQuorumSetHash = mQSetHash c\<rparr>)))))
     (\<lambda>pl. Inr \<lparr>nodeID = 0, slotIndex = 0, pledges = pl\<rparr>))"

definition sendLatestEnvelope :: "Slot \<Rightarrow> Slot" where
  "sendLatestEnvelope s =
     (case mLastEnvelope s of
        None \<Rightarrow> s
      | Some (k, e) \<Rightarrow>
          if mCurrentMessageLevel s = 0 \<and> mFullyValidated s \<and>
             (case mLastEnvelopeEmit s of None \<Rightarrow> True | Some (k', e') \<Rightarrow> k \<noteq> k')
          then notify (EmitEnvelope e) (s\<lparr>mLastEnvelopeEmit := mLastEnvelope s\<rparr>)
          else s)"

definition freshPtr :: "envelope_ptr \<Rightarrow> SCPEnvelope \<Rightarrow> envelope_ptr" where
  "freshPtr old e = Some (case old of None \<Rightarrow> 0 | Some (k, _) \<Rightarrow> Suc k, e)"

text \<open>\<open>Slot::processEnvelope\<close> with a statement of the ballot protocol.\<close>

definition processEnvelope :: "SCPContext \<Rightarrow> advance \<Rightarrow> SCPEnvelope \<Rightarrow> bool \<Rightarrow> Slot \<Rightarrow>
    (EnvelopeState \<times> Slot) result" where
  "processEnvelope c adv env self s =
     (let st = statement env in
      bindE (assertE (slotIndex st = mSlotIndex s)) (\<lambda>_.
      bindE (isStatementSane c st self) (\<lambda>sane.
      if \<not> sane then Inr (INVALID, s)
      else if \<not> isNewerStatement_node s (nodeID st) st then Inr (INVALID, s)
      else let validationRes = validateValues c s st in
        if validationRes \<noteq> kInvalidValue
        then if mPhase s \<noteq> SCP_PHASE_EXTERNALIZE
          then let s1 = (if validationRes = kMaybeValidValue then s\<lparr>mFullyValidated := False\<rparr> else s)
               in bindE (adv st (recordEnvelope env s1)) (\<lambda>s2. Inr (VALID, s2))
          else bindE (deref (mCommit s)) (\<lambda>cm.
               if bvalue cm = bvalue (getWorkingBallot st) then Inr (VALID, recordEnvelope env s)
               else Inr (INVALID, s))
        else Inr (INVALID, s))))"

definition emitCurrentStateStatement :: "SCPContext \<Rightarrow> advance \<Rightarrow> Slot \<Rightarrow> Slot result" where
  "emitCurrentStateStatement c adv s =
     bindE (createStatement c s) (\<lambda>st.
     let envelope = createEnvelope c s st; canEmit = (mCurrentBallot s \<noteq> None) in
     if map_of (mLatestEnvelopes s) (mNodeID c) = Some envelope then Inr s
     else bindE (processEnvelope c adv envelope True s) (\<lambda>(r, s').
       if r = VALID
       then if canEmit \<and> (case mLastEnvelope s' of
                             None \<Rightarrow> True
                           | Some (k, e) \<Rightarrow> isNewerStatement (statement e) (statement envelope))
            then Inr (sendLatestEnvelope (s'\<lparr>mLastEnvelope := freshPtr (mLastEnvelope s') envelope\<rparr>))
            else Inr s'
       else Inl (RuntimeError ''moved to a bad state (ballot protocol)'')))"

text \<open>The end of every operation that has changed the state: tell the driver, then emit.\<close>

definition notifyAndEmit ::
  "SCPContext \<Rightarrow> advance \<Rightarrow> DriverEvent \<Rightarrow> bool \<times> Slot \<Rightarrow> (bool \<times> Slot) result" where
  "notifyAndEmit c adv event r =
     (case r of (didWork, s) \<Rightarrow>
      if didWork
      then bindE (emitCurrentStateStatement c adv (notify event s)) (\<lambda>s'. Inr (True, s'))
      else Inr (False, s))"

definition bumpState_counter ::
  "SCPContext \<Rightarrow> advance \<Rightarrow> Value \<Rightarrow> uint32 \<Rightarrow> Slot \<Rightarrow> (bool \<times> Slot) result" where
  "bumpState_counter c adv value n s =
     (if mPhase s \<noteq> SCP_PHASE_PREPARE \<and> mPhase s \<noteq> SCP_PHASE_CONFIRM then Inr (False, s)
      else let newb = SCPBallot n (case mHighBallot s of None \<Rightarrow> value | Some h \<Rightarrow> bvalue h) in
        bindE (updateCurrentValue newb s)
          (notifyAndEmit c adv (StartedBallotProtocol (mSlotIndex s) newb)))"

definition bumpState :: "SCPContext \<Rightarrow> advance \<Rightarrow> Value \<Rightarrow> bool \<Rightarrow> Slot \<Rightarrow> (bool \<times> Slot) result" where
  "bumpState c adv value force s =
     (if \<not> force \<and> mCurrentBallot s \<noteq> None then Inr (False, s)
      else bumpState_counter c adv value
             (case mCurrentBallot s of None \<Rightarrow> 1 | Some b \<Rightarrow> counter b + 1) s)"

definition abandonBallot :: "SCPContext \<Rightarrow> advance \<Rightarrow> uint32 \<Rightarrow> Slot \<Rightarrow> (bool \<times> Slot) result" where
  "abandonBallot c adv n s =
     (let v = (if mLatestCompositeCandidate s = []
               then (case mCurrentBallot s of None \<Rightarrow> [] | Some b \<Rightarrow> bvalue b)
               else mLatestCompositeCandidate s) in
      if v \<noteq> []
      then if n = 0 then bumpState c adv v True s else bumpState_counter c adv v n s
      else Inr (False, s))"

section \<open>Preparing\<close>

text \<open>A \<open>std::set<SCPBallot>\<close> is a list in order; the \<open>default\<close> branches that call
  \<open>abort\<close> are assertions.\<close>

definition hintBallots :: "SCPStatement \<Rightarrow> SCPBallot list result" where
  "hintBallots hint =
     (case pledges hint of
        PREPARE prep \<Rightarrow>
          Inr (let bs = [p_ballot prep];
                   bs' = (case p_prepared prep of None \<Rightarrow> bs | Some p \<Rightarrow> insort_insert p bs)
               in case p_preparedPrime prep of None \<Rightarrow> bs' | Some p \<Rightarrow> insort_insert p bs')
      | CONFIRM con \<Rightarrow>
          Inr (insort_insert (SCPBallot UINT32_MAX (bvalue (c_ballot con)))
                 [SCPBallot (c_nPrepared con) (bvalue (c_ballot con))])
      | EXTERNALIZE ext \<Rightarrow> Inr [SCPBallot UINT32_MAX (bvalue (e_commit ext))]
      | NOMINATE _ \<Rightarrow> Inl AssertFailed)"

definition candidatesFrom :: "SCPBallot \<Rightarrow> SCPStatement \<Rightarrow> SCPBallot list" where
  "candidatesFrom topVote st =
     (case pledges st of
        PREPARE prep \<Rightarrow>
          (if areBallotsLessAndCompatible (p_ballot prep) topVote then [p_ballot prep] else []) @
          (case p_prepared prep of None \<Rightarrow> []
           | Some p \<Rightarrow> if areBallotsLessAndCompatible p topVote then [p] else []) @
          (case p_preparedPrime prep of None \<Rightarrow> []
           | Some p \<Rightarrow> if areBallotsLessAndCompatible p topVote then [p] else [])
      | CONFIRM con \<Rightarrow>
          (if areBallotsCompatible topVote (c_ballot con)
           then topVote # (if c_nPrepared con < counter topVote
                           then [SCPBallot (c_nPrepared con) (bvalue topVote)] else [])
           else [])
      | EXTERNALIZE ext \<Rightarrow> (if areBallotsCompatible topVote (e_commit ext) then [topVote] else [])
      | NOMINATE _ \<Rightarrow> [])"

definition insertAll :: "'a::linorder list \<Rightarrow> 'a list \<Rightarrow> 'a list" where
  "insertAll xs acc = foldl (\<lambda>a x. insort_insert x a) acc xs"

definition getPrepareCandidates :: "SCPStatement \<Rightarrow> Slot \<Rightarrow> SCPBallot list result" where
  "getPrepareCandidates hint s =
     bindE (hintBallots hint) (\<lambda>hints.
     bindE (assertE (list_all (\<lambda>e. isBallotStatement (statement (snd e))) (mLatestEnvelopes s))) (\<lambda>_.
     Inr (foldl (\<lambda>cands topVote.
            foldl (\<lambda>cands e. insertAll (candidatesFrom topVote (statement (snd e))) cands)
              cands (mLatestEnvelopes s))
          [] (rev hints))))"

definition votesPrepared :: "SCPBallot \<Rightarrow> SCPStatement \<Rightarrow> bool" where
  "votesPrepared ballot st =
     (case pledges st of
        PREPARE p \<Rightarrow> areBallotsLessAndCompatible ballot (p_ballot p)
      | CONFIRM cf \<Rightarrow> areBallotsCompatible ballot (c_ballot cf)
      | EXTERNALIZE e \<Rightarrow> areBallotsCompatible ballot (e_commit e)
      | NOMINATE _ \<Rightarrow> False)"

definition setPrepared :: "SCPBallot \<Rightarrow> Slot \<Rightarrow> bool \<times> Slot" where
  "setPrepared ballot s =
     (case mPrepared s of
        Some p \<Rightarrow>
          (let comp = compareBallots p ballot in
           if comp < 0
           then (True, (if \<not> areBallotsCompatible p ballot then s\<lparr>mPreparedPrime := Some p\<rparr> else s)
                         \<lparr>mPrepared := Some ballot\<rparr>)
           else if comp > 0 \<and>
             (case mPreparedPrime s of None \<Rightarrow> True | Some p' \<Rightarrow> compareBallots p' ballot < 0)
           then (True, s\<lparr>mPreparedPrime := Some ballot\<rparr>)
           else (False, s))
      | None \<Rightarrow> (True, s\<lparr>mPrepared := Some ballot\<rparr>))"

definition mustClearCommit :: "Slot \<Rightarrow> bool" where
  "mustClearCommit s =
     (case (mCommit s, mHighBallot s) of
        (Some _, Some h) \<Rightarrow>
          (case mPrepared s of None \<Rightarrow> False | Some p \<Rightarrow> areBallotsLessAndIncompatible h p) \<or>
          (case mPreparedPrime s of None \<Rightarrow> False | Some p' \<Rightarrow> areBallotsLessAndIncompatible h p')
      | _ \<Rightarrow> False)"

text \<open>Each \<open>set*\<close> operation is an update of the state, with a flag that says whether it did
  something, followed by the notification of the driver and the emission of a statement.\<close>

definition setPreparedAccept_state :: "SCPBallot \<Rightarrow> Slot \<Rightarrow> (bool \<times> Slot) result" where
  "setPreparedAccept_state ballot s =
     (case setPrepared ballot s of (didWork, s1) \<Rightarrow>
      if mustClearCommit s1
      then bindE (assertE (mPhase s1 = SCP_PHASE_PREPARE)) (\<lambda>_. Inr (True, s1\<lparr>mCommit := None\<rparr>))
      else Inr (didWork, s1))"

definition setPreparedAccept ::
  "SCPContext \<Rightarrow> advance \<Rightarrow> SCPBallot \<Rightarrow> Slot \<Rightarrow> (bool \<times> Slot) result" where
  "setPreparedAccept c adv ballot s =
     bindE (setPreparedAccept_state ballot s)
       (notifyAndEmit c adv (AcceptedBallotPrepared (mSlotIndex s) ballot))"

text \<open>The reasons for which \<open>attemptPreparedAccept\<close> passes over a candidate.\<close>

definition skipCandidate :: "SCPBallot \<Rightarrow> Slot \<Rightarrow> bool result" where
  "skipCandidate ballot s =
     bindE (if mPhase s = SCP_PHASE_CONFIRM
            then bindE (deref (mPrepared s)) (\<lambda>p.
                 if \<not> areBallotsLessAndCompatible p ballot then Inr True
                 else bindE (deref (mCommit s)) (\<lambda>cm.
                      bindE (assertE (areBallotsCompatible cm ballot)) (\<lambda>_. Inr False)))
            else Inr False) (\<lambda>skip.
     Inr (skip \<or>
       (case mPreparedPrime s of None \<Rightarrow> False | Some p' \<Rightarrow> compareBallots ballot p' \<le> 0) \<or>
       (case mPrepared s of None \<Rightarrow> False | Some p \<Rightarrow> areBallotsLessAndCompatible ballot p)))"

fun acceptLoop ::
  "SCPContext \<Rightarrow> advance \<Rightarrow> SCPBallot list \<Rightarrow> Slot \<Rightarrow> (bool \<times> Slot) result" where
  "acceptLoop c adv [] s = Inr (False, s)"
| "acceptLoop c adv (ballot # rest) s =
     bindE (skipCandidate ballot s) (\<lambda>skip.
     if skip then acceptLoop c adv rest s
     else bindE (federatedAccept c (votesPrepared ballot) (hasPreparedBallot ballot) (mLatestEnvelopes s))
       (\<lambda>accepted.
       if accepted then setPreparedAccept c adv ballot s else acceptLoop c adv rest s))"

definition attemptPreparedAccept ::
  "SCPContext \<Rightarrow> advance \<Rightarrow> SCPStatement \<Rightarrow> Slot \<Rightarrow> (bool \<times> Slot) result" where
  "attemptPreparedAccept c adv hint s =
     (if mPhase s \<noteq> SCP_PHASE_PREPARE \<and> mPhase s \<noteq> SCP_PHASE_CONFIRM then Inr (False, s)
      else bindE (getPrepareCandidates hint s) (\<lambda>candidates. acceptLoop c adv (rev candidates) s))"

definition setPreparedConfirmed_state ::
  "SCPBallot \<Rightarrow> SCPBallot \<Rightarrow> Slot \<Rightarrow> (bool \<times> Slot) result" where
  "setPreparedConfirmed_state newC newH s =
     (let raise = (case mHighBallot s of None \<Rightarrow> True | Some h \<Rightarrow> compareBallots newH h > 0);
          s1 = (if raise then s\<lparr>mHighBallot := Some newH\<rparr> else s) in
      bindE (if counter newC \<noteq> 0
             then bindE (assertE (mCommit s1 = None)) (\<lambda>_. Inr (True, s1\<lparr>mCommit := Some newC\<rparr>))
             else Inr (raise, s1)) (\<lambda>(didWork, s2).
      if didWork then bindE (updateCurrentIfNeeded s2) (\<lambda>s3. Inr (True, s3)) else Inr (False, s2)))"

definition setPreparedConfirmed ::
  "SCPContext \<Rightarrow> advance \<Rightarrow> SCPBallot \<Rightarrow> SCPBallot \<Rightarrow> Slot \<Rightarrow> (bool \<times> Slot) result" where
  "setPreparedConfirmed c adv newC newH s =
     bindE (setPreparedConfirmed_state newC newH s)
       (notifyAndEmit c adv (ConfirmedBallotPrepared (mSlotIndex s) newH))"

text \<open>The first loop finds \<open>newH\<close> and leaves the iterator on it; the second one goes on from
  there for \<open>newC\<close>.\<close>

fun findNewH :: "SCPContext \<Rightarrow> SCPBallot list \<Rightarrow> Slot \<Rightarrow> SCPBallot list result" where
  "findNewH c [] s = Inr []"
| "findNewH c (ballot # rest) s =
     (if (case mHighBallot s of None \<Rightarrow> False | Some h \<Rightarrow> compareBallots h ballot \<ge> 0) then Inr []
      else bindE (federatedRatify c (hasPreparedBallot ballot) (mLatestEnvelopes s)) (\<lambda>ratified.
           if ratified then Inr (ballot # rest) else findNewH c rest s))"

fun findNewC :: "SCPContext \<Rightarrow> SCPBallot \<Rightarrow> SCPBallot list \<Rightarrow> SCPBallot \<Rightarrow> Slot \<Rightarrow> SCPBallot result" where
  "findNewC c b [] newC s = Inr newC"
| "findNewC c b (ballot # rest) newC s =
     (if compareBallots ballot b < 0 then Inr newC
      else bindE (federatedRatify c (hasPreparedBallot ballot) (mLatestEnvelopes s)) (\<lambda>ratified.
           if ratified then findNewC c b rest ballot s else Inr newC))"

definition mayVoteCommit :: "SCPBallot \<Rightarrow> Slot \<Rightarrow> bool" where
  "mayVoteCommit newH s \<longleftrightarrow>
     mCommit s = None \<and>
     (case mPrepared s of None \<Rightarrow> True | Some p \<Rightarrow> \<not> areBallotsLessAndIncompatible newH p) \<and>
     (case mPreparedPrime s of None \<Rightarrow> True | Some p' \<Rightarrow> \<not> areBallotsLessAndIncompatible newH p')"

definition attemptPreparedConfirmed ::
  "SCPContext \<Rightarrow> advance \<Rightarrow> SCPStatement \<Rightarrow> Slot \<Rightarrow> (bool \<times> Slot) result" where
  "attemptPreparedConfirmed c adv hint s =
     (if mPhase s \<noteq> SCP_PHASE_PREPARE then Inr (False, s)
      else if mPrepared s = None then Inr (False, s)
      else bindE (getPrepareCandidates hint s) (\<lambda>candidates.
        bindE (findNewH c (rev candidates) s) (\<lambda>cur.
        case cur of
          [] \<Rightarrow> Inr (False, s)
        | newH # _ \<Rightarrow>
            (let b = (case mCurrentBallot s of None \<Rightarrow> nullBallot | Some b \<Rightarrow> b) in
             bindE (if mayVoteCommit newH s then findNewC c b cur nullBallot s else Inr nullBallot)
               (\<lambda>newC. setPreparedConfirmed c adv newC newH s)))))"

section \<open>Committing\<close>

type_synonym Interval = "uint32 \<times> uint32"

definition commitPredicate :: "SCPBallot \<Rightarrow> Interval \<Rightarrow> SCPStatement \<Rightarrow> bool" where
  "commitPredicate ballot check st =
     (case pledges st of
        PREPARE _ \<Rightarrow> False
      | CONFIRM cf \<Rightarrow>
          areBallotsCompatible ballot (c_ballot cf) \<and> c_nCommit cf \<le> fst check \<and> snd check \<le> c_nH cf
      | EXTERNALIZE e \<Rightarrow> areBallotsCompatible ballot (e_commit e) \<and> counter (e_commit e) \<le> fst check
      | NOMINATE _ \<Rightarrow> False)"

definition votesCommit :: "SCPBallot \<Rightarrow> Interval \<Rightarrow> SCPStatement \<Rightarrow> bool" where
  "votesCommit ballot cur st =
     (case pledges st of
        PREPARE p \<Rightarrow>
          areBallotsCompatible ballot (p_ballot p) \<and> p_nC p \<noteq> 0 \<and> p_nC p \<le> fst cur \<and> snd cur \<le> p_nH p
      | CONFIRM cf \<Rightarrow> areBallotsCompatible ballot (c_ballot cf) \<and> c_nCommit cf \<le> fst cur
      | EXTERNALIZE e \<Rightarrow> areBallotsCompatible ballot (e_commit e) \<and> counter (e_commit e) \<le> fst cur
      | NOMINATE _ \<Rightarrow> False)"

text \<open>The argument list holds the boundaries from the top; the interval \<open>(0, 0)\<close> means that
  none was found.\<close>

fun findExtendedInterval :: "(Interval \<Rightarrow> bool result) \<Rightarrow> uint32 list \<Rightarrow> Interval \<Rightarrow> Interval result" where
  "findExtendedInterval pred [] candidate = Inr candidate"
| "findExtendedInterval pred (b # bs) candidate =
     (if fst candidate \<noteq> 0 \<and> snd candidate < b then findExtendedInterval pred bs candidate
      else let cur = (if fst candidate = 0 then (b, b) else (b, snd candidate)) in
        bindE (pred cur) (\<lambda>ok.
        if ok then findExtendedInterval pred bs cur
        else if fst candidate \<noteq> 0 then Inr candidate
        else findExtendedInterval pred bs candidate))"

definition commitBoundaries :: "SCPBallot \<Rightarrow> SCPStatement \<Rightarrow> uint32 list" where
  "commitBoundaries ballot st =
     (case pledges st of
        PREPARE p \<Rightarrow>
          (if areBallotsCompatible ballot (p_ballot p) \<and> p_nC p \<noteq> 0 then [p_nC p, p_nH p] else [])
      | CONFIRM cf \<Rightarrow> (if areBallotsCompatible ballot (c_ballot cf) then [c_nCommit cf, c_nH cf] else [])
      | EXTERNALIZE e \<Rightarrow>
          (if areBallotsCompatible ballot (e_commit e) then [counter (e_commit e), e_nH e, UINT32_MAX] else [])
      | NOMINATE _ \<Rightarrow> [])"

definition getCommitBoundariesFromStatements :: "SCPBallot \<Rightarrow> Slot \<Rightarrow> uint32 list result" where
  "getCommitBoundariesFromStatements ballot s =
     bindE (assertE (list_all (\<lambda>e. isBallotStatement (statement (snd e))) (mLatestEnvelopes s))) (\<lambda>_.
     Inr (foldl (\<lambda>res e. insertAll (commitBoundaries ballot (statement (snd e))) res)
            [] (mLatestEnvelopes s)))"

definition setAcceptCommit_state :: "SCPBallot \<Rightarrow> SCPBallot \<Rightarrow> Slot \<Rightarrow> (bool \<times> Slot) result" where
  "setAcceptCommit_state cm h s =
     (let change = (case (mHighBallot s, mCommit s) of
                      (Some h0, Some cm0) \<Rightarrow> compareBallots h0 h \<noteq> 0 \<or> compareBallots cm0 cm \<noteq> 0
                    | _ \<Rightarrow> True);
          s1 = (if change then s\<lparr>mCommit := Some cm, mHighBallot := Some h\<rparr> else s) in
      bindE (if mPhase s1 = SCP_PHASE_PREPARE
             then let s2 = s1\<lparr>mPhase := SCP_PHASE_CONFIRM\<rparr> in
               bindE (case mCurrentBallot s2 of
                        None \<Rightarrow> Inr s2
                      | Some b \<Rightarrow> if \<not> areBallotsLessAndCompatible h b then bumpToBallot h False s2 else Inr s2)
                 (\<lambda>s3. Inr (True, s3\<lparr>mPreparedPrime := None\<rparr>))
             else Inr (change, s1)) (\<lambda>(didWork, s4).
      if didWork then bindE (updateCurrentIfNeeded s4) (\<lambda>s5. Inr (True, s5)) else Inr (False, s4)))"

definition setAcceptCommit ::
  "SCPContext \<Rightarrow> advance \<Rightarrow> SCPBallot \<Rightarrow> SCPBallot \<Rightarrow> Slot \<Rightarrow> (bool \<times> Slot) result" where
  "setAcceptCommit c adv cm h s =
     bindE (setAcceptCommit_state cm h s) (notifyAndEmit c adv (AcceptedCommit (mSlotIndex s) h))"

definition acceptCommitHint :: "SCPStatement \<Rightarrow> SCPBallot option result" where
  "acceptCommitHint hint =
     (case pledges hint of
        PREPARE prep \<Rightarrow>
          Inr (if p_nC prep \<noteq> 0 then Some (SCPBallot (p_nH prep) (bvalue (p_ballot prep))) else None)
      | CONFIRM con \<Rightarrow> Inr (Some (SCPBallot (c_nH con) (bvalue (c_ballot con))))
      | EXTERNALIZE ext \<Rightarrow> Inr (Some (SCPBallot (e_nH ext) (bvalue (e_commit ext))))
      | NOMINATE _ \<Rightarrow> Inl AssertFailed)"

definition attemptAcceptCommit ::
  "SCPContext \<Rightarrow> advance \<Rightarrow> SCPStatement \<Rightarrow> Slot \<Rightarrow> (bool \<times> Slot) result" where
  "attemptAcceptCommit c adv hint s =
     (if mPhase s \<noteq> SCP_PHASE_PREPARE \<and> mPhase s \<noteq> SCP_PHASE_CONFIRM then Inr (False, s)
      else bindE (acceptCommitHint hint) (\<lambda>hb.
      case hb of
        None \<Rightarrow> Inr (False, s)
      | Some ballot \<Rightarrow>
        bindE (if mPhase s = SCP_PHASE_CONFIRM
               then bindE (deref (mHighBallot s)) (\<lambda>h. Inr (areBallotsCompatible ballot h))
               else Inr True) (\<lambda>go.
        if \<not> go then Inr (False, s)
        else bindE (getCommitBoundariesFromStatements ballot s) (\<lambda>boundaries.
          if boundaries = [] then Inr (False, s)
          else bindE (findExtendedInterval (\<lambda>cur. federatedAccept c (votesCommit ballot cur)
                        (commitPredicate ballot cur) (mLatestEnvelopes s)) (rev boundaries) (0, 0))
            (\<lambda>candidate.
            if fst candidate \<noteq> 0
            then bindE (if mPhase s \<noteq> SCP_PHASE_CONFIRM then Inr True
                        else bindE (deref (mHighBallot s)) (\<lambda>h. Inr (counter h < snd candidate)))
                   (\<lambda>raise.
                   if raise
                   then setAcceptCommit c adv (SCPBallot (fst candidate) (bvalue ballot))
                          (SCPBallot (snd candidate) (bvalue ballot)) s
                   else Inr (False, s))
            else Inr (False, s))))))"

definition setConfirmCommit_state :: "SCPBallot \<Rightarrow> SCPBallot \<Rightarrow> Slot \<Rightarrow> Slot result" where
  "setConfirmCommit_state cm h s =
     bindE (updateCurrentIfNeeded (s\<lparr>mCommit := Some cm, mHighBallot := Some h\<rparr>)) (\<lambda>s1.
     Inr (s1\<lparr>mPhase := SCP_PHASE_EXTERNALIZE\<rparr>))"

definition setConfirmCommit ::
  "SCPContext \<Rightarrow> advance \<Rightarrow> SCPBallot \<Rightarrow> SCPBallot \<Rightarrow> Slot \<Rightarrow> (bool \<times> Slot) result" where
  "setConfirmCommit c adv cm h s =
     bindE (setConfirmCommit_state cm h s) (\<lambda>s1.
     bindE (emitCurrentStateStatement c adv s1) (\<lambda>s2.
     let s3 = stopNomination s2 in
     bindE (deref (mCommit s3)) (\<lambda>cm'.
     Inr (True, notify (ValueExternalized (mSlotIndex s3) (bvalue cm')) s3))))"

definition confirmCommitHint :: "SCPStatement \<Rightarrow> SCPBallot option result" where
  "confirmCommitHint hint =
     (case pledges hint of
        PREPARE _ \<Rightarrow> Inr None
      | CONFIRM con \<Rightarrow> Inr (Some (SCPBallot (c_nH con) (bvalue (c_ballot con))))
      | EXTERNALIZE ext \<Rightarrow> Inr (Some (SCPBallot (e_nH ext) (bvalue (e_commit ext))))
      | NOMINATE _ \<Rightarrow> Inl AssertFailed)"

definition attemptConfirmCommit ::
  "SCPContext \<Rightarrow> advance \<Rightarrow> SCPStatement \<Rightarrow> Slot \<Rightarrow> (bool \<times> Slot) result" where
  "attemptConfirmCommit c adv hint s =
     (if mPhase s \<noteq> SCP_PHASE_CONFIRM then Inr (False, s)
      else case (mHighBallot s, mCommit s) of
        (Some _, Some cm) \<Rightarrow>
          bindE (confirmCommitHint hint) (\<lambda>hb.
          case hb of
            None \<Rightarrow> Inr (False, s)
          | Some ballot \<Rightarrow>
            if \<not> areBallotsCompatible ballot cm then Inr (False, s)
            else bindE (getCommitBoundariesFromStatements ballot s) (\<lambda>boundaries.
              bindE (findExtendedInterval (\<lambda>cur. federatedRatify c (commitPredicate ballot cur)
                       (mLatestEnvelopes s)) (rev boundaries) (0, 0)) (\<lambda>candidate.
              if fst candidate \<noteq> 0
              then setConfirmCommit c adv (SCPBallot (fst candidate) (bvalue ballot))
                     (SCPBallot (snd candidate) (bvalue ballot)) s
              else Inr (False, s))))
      | _ \<Rightarrow> Inr (False, s))"

section \<open>Catching up with the counters of others\<close>

definition statementCounter :: "SCPStatement \<Rightarrow> uint32" where
  "statementCounter st =
     (case pledges st of
        PREPARE p \<Rightarrow> counter (p_ballot p)
      | CONFIRM cf \<Rightarrow> counter (c_ballot cf)
      | EXTERNALIZE _ \<Rightarrow> UINT32_MAX
      | NOMINATE _ \<Rightarrow> 0)"

definition isAheadOf :: "uint32 \<Rightarrow> SCPStatement \<Rightarrow> bool" where
  "isAheadOf n st =
     (case pledges st of
        PREPARE p \<Rightarrow> n < counter (p_ballot p)
      | CONFIRM cf \<Rightarrow> n < counter (c_ballot cf)
      | _ \<Rightarrow> n \<noteq> UINT32_MAX)"

text \<open>The counter to move to, if any: the loop over \<open>allCounters\<close>.\<close>

fun bumpTarget :: "SCPContext \<Rightarrow> uint32 \<Rightarrow> uint32 list \<Rightarrow> Slot \<Rightarrow> uint32 option" where
  "bumpTarget c targetCounter [] s = None"
| "bumpTarget c targetCounter (n # ns) s =
     (if n < targetCounter then None
      else let vBlocking = isVBlocking (mQSet c) (mLatestEnvelopes s) (isAheadOf n) in
        if n = targetCounter
        then if \<not> vBlocking then None else bumpTarget c targetCounter ns s
        else if \<not> vBlocking then Some n else bumpTarget c targetCounter ns s)"

definition attemptBump :: "SCPContext \<Rightarrow> advance \<Rightarrow> Slot \<Rightarrow> (bool \<times> Slot) result" where
  "attemptBump c adv s =
     (if mPhase s = SCP_PHASE_PREPARE \<or> mPhase s = SCP_PHASE_CONFIRM
      then bindE (assertE (list_all (\<lambda>e. isBallotStatement (statement (snd e))) (mLatestEnvelopes s))) (\<lambda>_.
        let targetCounter = (case mCurrentBallot s of None \<Rightarrow> 0 | Some b \<Rightarrow> counter b);
            allCounters = insort_insert targetCounter
              (insertAll (map (\<lambda>e. statementCounter (statement (snd e))) (mLatestEnvelopes s)) [])
        in case bumpTarget c targetCounter allCounters s of
             None \<Rightarrow> Inr (False, s)
           | Some n \<Rightarrow> abandonBallot c adv n s)
      else Inr (False, s))"

section \<open>Advancing the slot\<close>

definition checkHeardFromQuorum :: "SCPContext \<Rightarrow> Slot \<Rightarrow> Slot result" where
  "checkHeardFromQuorum c s =
     (case mCurrentBallot s of
        Some b \<Rightarrow>
          if \<not> mHeardFromQuorum s
          then bindE (isQuorum (mQSet c) (mLatestEnvelopes s) (getQuorumSetFromStatement c)
                 (\<lambda>st. case pledges st of
                         PREPARE p \<Rightarrow> counter b \<le> counter (p_ballot p)
                       | _ \<Rightarrow> True)) (\<lambda>heard.
               Inr (if heard
                    then notify (BallotDidHearFromQuorum (mSlotIndex s) b) (s\<lparr>mHeardFromQuorum := True\<rparr>)
                    else s))
          else Inr s
      | None \<Rightarrow> Inr s)"

text \<open>The \<open>do ... while (didBump)\<close> loop. \<open>while_option\<close> is \<open>None\<close> when it does not end.\<close>

definition bumpLoop :: "SCPContext \<Rightarrow> advance \<Rightarrow> bool \<Rightarrow> Slot \<Rightarrow> (bool \<times> Slot) result" where
  "bumpLoop c adv didWork s =
     (case while_option
        (\<lambda>x. case x of Inr (didBump, dw, s') \<Rightarrow> didBump | Inl _ \<Rightarrow> False)
        (\<lambda>x. bindE x (\<lambda>(didBump, dw, s').
               bindE (attemptBump c adv s') (\<lambda>(b, s''). Inr (b, b \<or> dw, s''))))
        (Inr (True, didWork, s)) of
      None \<Rightarrow> Inl Diverges
    | Some x \<Rightarrow> bindE x (\<lambda>(didBump, dw, s'). Inr (dw, s')))"

definition attemptAll ::
  "SCPContext \<Rightarrow> advance \<Rightarrow> SCPStatement \<Rightarrow> Slot \<Rightarrow> (bool \<times> Slot) result" where
  "attemptAll c adv hint s =
     bindE (attemptPreparedAccept c adv hint s) (\<lambda>(w1, s1).
     bindE (attemptPreparedConfirmed c adv hint s1) (\<lambda>(w2, s2).
     bindE (attemptAcceptCommit c adv hint s2) (\<lambda>(w3, s3).
     bindE (attemptConfirmCommit c adv hint s3) (\<lambda>(w4, s4).
     Inr (w4 \<or> w3 \<or> w2 \<or> w1, s4)))))"

definition advanceBody :: "SCPContext \<Rightarrow> advance \<Rightarrow> advance" where
  "advanceBody c adv hint s =
     (let s0 = s\<lparr>mCurrentMessageLevel := mCurrentMessageLevel s + 1\<rparr> in
      if MAX_ADVANCE_SLOT_RECURSION \<le> mCurrentMessageLevel s0
      then Inl (RuntimeError ''maximum number of transitions reached in advanceSlot'')
      else bindE (checkHeardFromQuorum c s0) (\<lambda>s1.
        bindE (attemptAll c adv hint s1) (\<lambda>(didWork, s2).
        bindE (if mCurrentMessageLevel s2 = 1 then bumpLoop c adv didWork s2 else Inr (didWork, s2))
          (\<lambda>(didWork', s3).
          let s4 = s3\<lparr>mCurrentMessageLevel := mCurrentMessageLevel s3 - 1\<rparr>
          in Inr (if didWork' then sendLatestEnvelope s4 else s4)))))"

text \<open>The recursion is as deep as \<open>mCurrentMessageLevel\<close> gets, and \<open>advanceBody\<close> throws
  at level 50: a fuel of 50 is never used up by a slot at level 0.\<close>

primrec advanceSlot_fuel :: "nat \<Rightarrow> SCPContext \<Rightarrow> advance" where
  "advanceSlot_fuel 0 c = (\<lambda>hint s. Inl Diverges)"
| "advanceSlot_fuel (Suc n) c = advanceBody c (advanceSlot_fuel n c)"

definition advanceSlot :: "SCPContext \<Rightarrow> advance" where
  "advanceSlot c = advanceSlot_fuel MAX_ADVANCE_SLOT_RECURSION c"

section \<open>Timers, state transfer and queries\<close>

definition ballotProtocolTimerExpired :: "SCPContext \<Rightarrow> Slot \<Rightarrow> Slot result" where
  "ballotProtocolTimerExpired c s =
     (if mHeardFromQuorum s
      then bindE (abandonBallot c (advanceSlot c) 0 s) (\<lambda>(b, s'). Inr s')
      else startBallotProtocolTimer s)"

definition setBallotStateFromEnvelope :: "SCPEnvelope \<Rightarrow> Slot \<Rightarrow> Slot result" where
  "setBallotStateFromEnvelope e s =
     (if mCurrentBallot s \<noteq> None
      then Inl (RuntimeError ''Cannot set state after starting ballot protocol'')
      else let s0 = recordEnvelope e s;
               ptr = freshPtr (mLastEnvelope s0) e;
               s1 = s0\<lparr>mLastEnvelope := ptr, mLastEnvelopeEmit := ptr\<rparr>
        in case pledges (statement e) of
             PREPARE prep \<Rightarrow>
               bindE (bumpToBallot (p_ballot prep) True s1) (\<lambda>s2.
               let v = bvalue (p_ballot prep);
                   s3 = (if p_prepared prep \<noteq> None then s2\<lparr>mPrepared := p_prepared prep\<rparr> else s2);
                   s4 = (if p_preparedPrime prep \<noteq> None
                         then s3\<lparr>mPreparedPrime := p_preparedPrime prep\<rparr> else s3);
                   s5 = (if p_nH prep \<noteq> 0 then s4\<lparr>mHighBallot := Some (SCPBallot (p_nH prep) v)\<rparr> else s4);
                   s6 = (if p_nC prep \<noteq> 0 then s5\<lparr>mCommit := Some (SCPBallot (p_nC prep) v)\<rparr> else s5)
               in Inr (s6\<lparr>mPhase := SCP_PHASE_PREPARE\<rparr>))
           | CONFIRM cf \<Rightarrow>
               bindE (bumpToBallot (c_ballot cf) True s1) (\<lambda>s2.
               let v = bvalue (c_ballot cf) in
               Inr (s2\<lparr>mPrepared := Some (SCPBallot (c_nPrepared cf) v),
                       mHighBallot := Some (SCPBallot (c_nH cf) v),
                       mCommit := Some (SCPBallot (c_nCommit cf) v),
                       mPhase := SCP_PHASE_CONFIRM\<rparr>))
           | EXTERNALIZE ext \<Rightarrow>
               (let v = bvalue (e_commit ext) in
               bindE (bumpToBallot (SCPBallot UINT32_MAX v) True s1) (\<lambda>s2.
               Inr (s2\<lparr>mPrepared := Some (SCPBallot UINT32_MAX v),
                       mHighBallot := Some (SCPBallot (e_nH ext) v),
                       mCommit := Some (e_commit ext),
                       mPhase := SCP_PHASE_EXTERNALIZE\<rparr>)))
           | NOMINATE _ \<Rightarrow> Inl AssertFailed)"

definition getBallotCurrentState :: "SCPContext \<Rightarrow> Slot \<Rightarrow> SCPEnvelope list" where
  "getBallotCurrentState c s =
     map snd (filter (\<lambda>n. fst n \<noteq> mNodeID c \<or> mFullyValidated s) (mLatestEnvelopes s))"

definition getExternalizingState :: "SCPContext \<Rightarrow> Slot \<Rightarrow> SCPEnvelope list result" where
  "getExternalizingState c s =
     (if mPhase s = SCP_PHASE_EXTERNALIZE
      then bindE (filterE (\<lambda>n.
             if fst n \<noteq> mNodeID c
             then bindE (deref (mCommit s)) (\<lambda>cm.
                  Inr (areBallotsCompatible (getWorkingBallot (statement (snd n))) cm))
             else Inr (mFullyValidated s)) (mLatestEnvelopes s)) (\<lambda>ns. Inr (map snd ns))
      else Inr [])"

text \<open>The numbers \<open>dumpQuorumInfo\<close> reports; \<open>None\<close> is the phase \<open>expired\<close>.\<close>

record QuorumInfo =
  qi_agree :: nat
  qi_missing :: "NodeID list"
  qi_disagree :: "NodeID list"
  qi_fail_with :: "NodeID list"

definition dumpQuorumInfo :: "SCPContext \<Rightarrow> NodeID \<Rightarrow> Slot \<Rightarrow> QuorumInfo option" where
  "dumpQuorumInfo c nid s =
     (let envs = mLatestEnvelopes s;
          b = (case map_of envs nid of
                 None \<Rightarrow> nullBallot
               | Some e \<Rightarrow> (case pledges (statement e) of
                    PREPARE p \<Rightarrow> p_ballot p
                  | CONFIRM cf \<Rightarrow> c_ballot cf
                  | EXTERNALIZE ex \<Rightarrow> e_commit ex
                  | NOMINATE _ \<Rightarrow> nullBallot));
          qSetHash = (case map_of envs nid of
                 None \<Rightarrow> (if nid = mNodeID c then mQSetHash c else replicate 32 (CHR 0x00))
               | Some e \<Rightarrow> getCompanionQuorumSetHashFromStatement (statement e));
          agrees = (\<lambda>st. areBallotsCompatible (getWorkingBallot st) b)
      in case getQSet c qSetHash of
           None \<Rightarrow> None
         | Some qSet \<Rightarrow>
             (let ns = forAllNodes qSet;
                  known = (\<lambda>n. map_of envs n \<noteq> None);
                  ok = (\<lambda>n. case map_of envs n of None \<Rightarrow> False | Some e \<Rightarrow> agrees (statement e))
              in Some \<lparr>qi_agree = length (filter ok ns),
                       qi_missing = filter (\<lambda>n. \<not> known n) ns,
                       qi_disagree = filter (\<lambda>n. known n \<and> \<not> ok n) ns,
                       qi_fail_with = findClosestVBlocking_map qSet envs agrees (Some nid)\<rparr>))"

end
