(* ===== verification/SlotContract.thy ===== *)
theory SlotContract
  imports BallotProtocol
begin

text \<open>
  The interface between the ballot protocol and what is proved about it. A relation between slot
  states that is reflexive, transitive and closed under the elementary updates of the protocol
  (record an envelope, accept a ballot as prepared, confirm it, accept a commit, externalize, move
  the current ballot, notify, send) holds across every operation of the protocol, however deep
  \<open>advanceSlot\<close> calls itself. Each update comes with the guard the code has established when
  it performs it.
\<close>

section \<open>What the operations establish before they update\<close>

lemma notify_simps [simp]:
  "mPhase (notify e s) = mPhase s" "mCurrentBallot (notify e s) = mCurrentBallot s"
  "mPrepared (notify e s) = mPrepared s" "mPreparedPrime (notify e s) = mPreparedPrime s"
  "mHighBallot (notify e s) = mHighBallot s" "mCommit (notify e s) = mCommit s"
  "mLatestEnvelopes (notify e s) = mLatestEnvelopes s" "mSlotIndex (notify e s) = mSlotIndex s"
  "mHeardFromQuorum (notify e s) = mHeardFromQuorum s" "mTrace (notify e s) = mTrace s @ [e]"
  "mCurrentMessageLevel (notify e s) = mCurrentMessageLevel s"
  "mLastEnvelope (notify e s) = mLastEnvelope s" "mLastEnvelopeEmit (notify e s) = mLastEnvelopeEmit s"
  "mStatementsHistory (notify e s) = mStatementsHistory s"
  "mFullyValidated (notify e s) = mFullyValidated s"
  by (simp_all add: notify_def)

lemma notify_invariants [simp]: "checkInvariants (notify e s) = checkInvariants s"
  unfolding checkInvariants_def notify_simps ..

lemma createEnvelope_simps [simp]:
  "pledges (statement (createEnvelope c s st)) = pledges st"
  "nodeID (statement (createEnvelope c s st)) = mNodeID c"
  "slotIndex (statement (createEnvelope c s st)) = mSlotIndex s"
  by (simp_all add: createEnvelope_def Let_def)

lemma findExtendedInterval_holds:
  "findExtendedInterval pred bs cand = Inr r \<Longrightarrow> r = cand \<or> pred r = Inr True"
  by (induction pred bs cand rule: findExtendedInterval.induct)
     (auto simp: bindE_Inr_iff Let_def split: if_splits)

lemma findNewH_ratified:
  "findNewH c bs s = Inr (newH # rest) \<Longrightarrow>
     federatedRatify c (hasPreparedBallot newH) (mLatestEnvelopes s) = Inr True"
  by (induction c bs s rule: findNewH.induct) (auto simp: bindE_Inr_iff split: if_splits)

lemma findNewC_ratified:
  "findNewC c b bs newC0 s = Inr newC \<Longrightarrow> newC \<noteq> newC0 \<Longrightarrow>
     federatedRatify c (hasPreparedBallot newC) (mLatestEnvelopes s) = Inr True"
  by (induction c b bs newC0 s rule: findNewC.induct) (auto simp: bindE_Inr_iff split: if_splits)

lemma setPreparedAccept_state_False: "setPreparedAccept_state b s = Inr (False, s') \<Longrightarrow> s' = s"
  by (auto simp: setPreparedAccept_state_def setPrepared_def Let_def bindE_Inr_iff
      split: option.splits if_splits)

lemma setPreparedConfirmed_state_False:
  "setPreparedConfirmed_state newC newH s = Inr (False, s') \<Longrightarrow> s' = s"
  by (auto simp: setPreparedConfirmed_state_def Let_def bindE_Inr_iff split: option.splits if_splits)

lemma setAcceptCommit_state_False: "setAcceptCommit_state cm h s = Inr (False, s') \<Longrightarrow> s' = s"
  by (auto simp: setAcceptCommit_state_def Let_def bindE_Inr_iff split: option.splits if_splits)

lemma updateCurrentValue_False: "updateCurrentValue b s = Inr (False, s') \<Longrightarrow> s' = s"
  by (auto simp: updateCurrentValue_def Let_def bindE_Inr_iff split: option.splits if_splits)

lemma createStatement_invariants: "createStatement c s = Inr st \<Longrightarrow> checkInvariants s = Inr ()"
  by (auto simp: createStatement_def bindE_Inr_iff)

lemma createStatement_ballot: "createStatement c s = Inr st \<Longrightarrow> isBallotStatement st"
  by (auto simp: createStatement_def bindE_Inr_iff isBallotStatement_def split: SCPPhase.splits)

definition monitoring :: "DriverEvent \<Rightarrow> bool" where
  "monitoring e = (case e of EmitEnvelope _ \<Rightarrow> False | ValueExternalized _ _ \<Rightarrow> False | _ \<Rightarrow> True)"

definition lastIsOlder :: "Slot \<Rightarrow> SCPEnvelope \<Rightarrow> bool" where
  "lastIsOlder s env =
     (case mLastEnvelope s of None \<Rightarrow> True
      | Some (k, e) \<Rightarrow> isNewerStatement (statement e) (statement env))"

text \<open>The envelope the local node makes of its state.\<close>

definition ownEnvelope :: "SCPContext \<Rightarrow> Slot \<Rightarrow> SCPEnvelope \<Rightarrow> bool" where
  "ownEnvelope c s env \<longleftrightarrow> (\<exists>st. createStatement c s = Inr st \<and> env = createEnvelope c s st)"

definition active :: "Slot \<Rightarrow> bool" where
  "active s \<longleftrightarrow> mPhase s = SCP_PHASE_PREPARE \<or> mPhase s = SCP_PHASE_CONFIRM"

lemma not_active: "\<not> active s \<longleftrightarrow> mPhase s = SCP_PHASE_EXTERNALIZE"
  by (cases "mPhase s") (auto simp: active_def)

lemma processEnvelope_cases:
  assumes "processEnvelope c adv env self s = Inr (r, s')"
  shows "s' = s \<or>
    isStatementSane c (statement env) self = Inr True \<and> slotIndex (statement env) = mSlotIndex s \<and>
    isNewerStatement_node s (nodeID (statement env)) (statement env) \<and>
    (\<exists>t. (t = s \<or> active s \<and> t = s\<lparr>mFullyValidated := False\<rparr>) \<and>
      (mPhase s = SCP_PHASE_EXTERNALIZE \<longrightarrow>
        (\<exists>cm. mCommit s = Some cm \<and> bvalue cm = bvalue (getWorkingBallot (statement env)))) \<and>
      (s' = recordEnvelope env t \<or> adv (statement env) (recordEnvelope env t) = Inr s'))"
  using assms unfolding processEnvelope_def Let_def bindE_Inr_iff
  by (auto simp: not_active[symmetric] bindE_Inr_iff split: if_splits)

lemma processEnvelope_VALID:
  assumes "processEnvelope c adv env self s = Inr (VALID, s')"
  obtains t where "statement env \<in> fst ` set (mStatementsHistory t)"
    "s' = t \<or> adv (statement env) t = Inr s'"
proof -
  have "(\<exists>t. s' = recordEnvelope env t) \<or> (\<exists>t. adv (statement env) (recordEnvelope env t) = Inr s')"
    using assms unfolding processEnvelope_def Let_def
    by (auto elim!: bindE_InrE split: if_splits) (rule exI, rule refl)
  moreover have "statement env \<in> fst ` set (mStatementsHistory (recordEnvelope env t))" for t
    by (simp add: recordEnvelope_def recordStatement_def)
  ultimately show thesis using that by blast
qed

section \<open>The contract\<close>

locale slot_contract =
  fixes c :: SCPContext and G :: "SCPEnvelope \<Rightarrow> bool" and R :: "Slot \<Rightarrow> Slot \<Rightarrow> bool"
  assumes R_refl: "R s s"
    and R_trans: "R s t \<Longrightarrow> R t u \<Longrightarrow> R s u"
    and R_level: "R (s\<lparr>mCurrentMessageLevel := mCurrentMessageLevel s + 1\<rparr>) t \<Longrightarrow>
      R s (t\<lparr>mCurrentMessageLevel := mCurrentMessageLevel t - 1\<rparr>)"
    and R_heard: "R s (s\<lparr>mHeardFromQuorum := True\<rparr>)"
    and R_notify: "monitoring e \<Longrightarrow> R s (notify e s)"
    and R_send: "R s (sendLatestEnvelope s)"
    and R_record: "isStatementSane c (statement env) self = Inr True \<Longrightarrow>
      slotIndex (statement env) = mSlotIndex s \<Longrightarrow>
      isNewerStatement_node s (nodeID (statement env)) (statement env) \<Longrightarrow>
      (if self then ownEnvelope c s env else G env) \<Longrightarrow>
      (mPhase s = SCP_PHASE_EXTERNALIZE \<Longrightarrow>
        \<exists>cm. mCommit s = Some cm \<and> bvalue cm = bvalue (getWorkingBallot (statement env))) \<Longrightarrow>
      t = s \<or> active s \<and> t = s\<lparr>mFullyValidated := False\<rparr> \<Longrightarrow> R s (recordEnvelope env t)"
    and R_last: "isBallotStatement (statement env) \<Longrightarrow> nodeID (statement env) = mNodeID c \<Longrightarrow>
      lastIsOlder s env \<Longrightarrow> R s0 s \<Longrightarrow> statement env \<in> fst ` set (mStatementsHistory s0) \<Longrightarrow>
      R s (s\<lparr>mLastEnvelope := freshPtr (mLastEnvelope s) env\<rparr>)"
    and R_bump: "active s \<Longrightarrow> b = SCPBallot n (case mHighBallot s of None \<Rightarrow> v | Some h \<Rightarrow> bvalue h) \<Longrightarrow>
      updateCurrentValue b s = Inr (True, s') \<Longrightarrow> R s s'"
    and R_accept: "active s \<Longrightarrow> skipCandidate b s = Inr False \<Longrightarrow>
      federatedAccept c (votesPrepared b) (hasPreparedBallot b) (mLatestEnvelopes s) = Inr True \<Longrightarrow>
      setPreparedAccept_state b s = Inr (True, s') \<Longrightarrow> checkInvariants s' = Inr () \<Longrightarrow> R s s'"
    and R_confirm: "mPhase s = SCP_PHASE_PREPARE \<Longrightarrow> mPrepared s \<noteq> None \<Longrightarrow>
      federatedRatify c (hasPreparedBallot newH) (mLatestEnvelopes s) = Inr True \<Longrightarrow>
      (newC \<noteq> nullBallot \<Longrightarrow> mayVoteCommit newH s \<and>
        federatedRatify c (hasPreparedBallot newC) (mLatestEnvelopes s) = Inr True) \<Longrightarrow>
      setPreparedConfirmed_state newC newH s = Inr (True, s') \<Longrightarrow> checkInvariants s' = Inr () \<Longrightarrow>
      R s s'"
    and R_commit: "active s \<Longrightarrow> lo \<noteq> 0 \<Longrightarrow>
      (mPhase s = SCP_PHASE_CONFIRM \<Longrightarrow> \<exists>h. mHighBallot s = Some h \<and> bvalue h = v \<and> counter h < hi) \<Longrightarrow>
      federatedAccept c (votesCommit (SCPBallot n v) (lo, hi)) (commitPredicate (SCPBallot n v) (lo, hi))
        (mLatestEnvelopes s) = Inr True \<Longrightarrow>
      setAcceptCommit_state (SCPBallot lo v) (SCPBallot hi v) s = Inr (True, s') \<Longrightarrow>
      checkInvariants s' = Inr () \<Longrightarrow> R s s'"
    and R_externalize: "mPhase s = SCP_PHASE_CONFIRM \<Longrightarrow> mCommit s = Some cm0 \<Longrightarrow> bvalue cm0 = v \<Longrightarrow>
      mHighBallot s \<noteq> None \<Longrightarrow> lo \<noteq> 0 \<Longrightarrow>
      federatedRatify c (commitPredicate (SCPBallot n v) (lo, hi)) (mLatestEnvelopes s) = Inr True \<Longrightarrow>
      setConfirmCommit_state (SCPBallot lo v) (SCPBallot hi v) s = Inr s1 \<Longrightarrow>
      checkInvariants s1 = Inr () \<Longrightarrow> R s1 s2 \<Longrightarrow> mCommit s2 = Some cm \<Longrightarrow>
      R s (notify (ValueExternalized (mSlotIndex s2) (bvalue cm)) (stopNomination s2))"
begin

definition keeps :: "advance \<Rightarrow> bool" where
  "keeps adv \<longleftrightarrow> (\<forall>hint s s'. adv hint s = Inr s' \<longrightarrow> R s s')"

lemma processEnvelope_R:
  assumes "keeps adv" "if self then ownEnvelope c s env else G env"
    and run: "processEnvelope c adv env self s = Inr (r, s')"
  shows "R s s'"
proof (cases "s' = s")
  case True
  then show ?thesis by (simp add: R_refl)
next
  case False
  from processEnvelope_cases[OF run] False obtain t
    where guards: "isStatementSane c (statement env) self = Inr True"
      "slotIndex (statement env) = mSlotIndex s"
      "isNewerStatement_node s (nodeID (statement env)) (statement env)"
    and t: "t = s \<or> active s \<and> t = s\<lparr>mFullyValidated := False\<rparr>"
    and ext: "mPhase s = SCP_PHASE_EXTERNALIZE \<longrightarrow>
      (\<exists>cm. mCommit s = Some cm \<and> bvalue cm = bvalue (getWorkingBallot (statement env)))"
    and rest: "s' = recordEnvelope env t \<or> adv (statement env) (recordEnvelope env t) = Inr s'"
    by (elim disjE[of "s' = s"]) (simp, blast)
  have "R s (recordEnvelope env t)"
    using R_record[OF guards assms(2) _ t] ext by blast
  moreover have "R (recordEnvelope env t) s'"
    using rest assms(1) R_refl by (auto simp: keeps_def)
  ultimately show ?thesis by (rule R_trans)
qed

lemma emit_R:
  assumes adv: "keeps adv" and run: "emitCurrentStateStatement c adv s = Inr s'"
  shows "R s s' \<and> checkInvariants s = Inr ()"
proof -
  obtain st where st: "createStatement c s = Inr st"
    using run by (auto simp: emitCurrentStateStatement_def bindE_Inr_iff)
  let ?env = "createEnvelope c s st"
  have own: "ownEnvelope c s ?env" using st by (auto simp: ownEnvelope_def)
  have ballot: "isBallotStatement (statement ?env)" "nodeID (statement ?env) = mNodeID c"
    using createStatement_ballot[OF st] by (auto simp: isBallotStatement_def)
  consider "s' = s"
    | t where "processEnvelope c adv ?env True s = Inr (VALID, t)"
        "s' = t \<or> lastIsOlder t ?env \<and>
          s' = sendLatestEnvelope (t\<lparr>mLastEnvelope := freshPtr (mLastEnvelope t) ?env\<rparr>)"
    using run st
    by (auto simp: emitCurrentStateStatement_def bindE_Inr_iff Let_def lastIsOlder_def split: if_splits)
  then have "R s s'"
  proof cases
    case 2
    have st: "R s t" using processEnvelope_R[OF adv _ 2(1)] own by simp
    moreover obtain t0 where t0: "statement ?env \<in> fst ` set (mStatementsHistory t0)"
      "t = t0 \<or> adv (statement ?env) t0 = Inr t"
      using processEnvelope_VALID[OF 2(1)] .
    moreover have "R t0 t" using t0(2) adv R_refl by (auto simp: keeps_def)
    moreover have "R t s'"
      using 2(2) R_refl R_last[OF ballot _ \<open>R t0 t\<close> t0(1)] R_send R_trans by blast
    ultimately show ?thesis using R_trans by blast
  qed (simp add: R_refl)
  then show ?thesis using createStatement_invariants[OF st] by simp
qed

lemma notifyAndEmit_R:
  assumes "keeps adv" "monitoring e" "notifyAndEmit c adv e (w, s) = Inr (w', s')"
  shows "if w then R s s' \<and> checkInvariants s = Inr () else s' = s"
proof (cases w)
  case True
  then have emit: "emitCurrentStateStatement c adv (notify e s) = Inr s'"
    using assms(3) by (auto simp: notifyAndEmit_def bindE_Inr_iff)
  from emit_R[OF assms(1) emit] R_notify[OF assms(2)] show ?thesis
    using True by (auto intro: R_trans)
next
  case False
  then show ?thesis using assms(3) by (simp add: notifyAndEmit_def)
qed

lemma acceptLoop_R:
  "keeps adv \<Longrightarrow> active s \<Longrightarrow> acceptLoop c adv bs s = Inr (w, s') \<Longrightarrow> R s s'"
proof (induction bs)
  case Nil
  then show ?case by (simp add: R_refl)
next
  case (Cons b bs)
  let ?accept = "federatedAccept c (votesPrepared b) (hasPreparedBallot b) (mLatestEnvelopes s)"
  show ?case
  proof (cases "acceptLoop c adv bs s = Inr (w, s')")
    case True
    with Cons show ?thesis by simp
  next
    case False
    with Cons.prems(3) have skip: "skipCandidate b s = Inr False" and acc: "?accept = Inr True"
      and set: "setPreparedAccept c adv b s = Inr (w, s')"
      by (auto simp: bindE_Inr_iff split: if_splits)
    then obtain w1 s1 where s1: "setPreparedAccept_state b s = Inr (w1, s1)"
      and emit: "notifyAndEmit c adv (AcceptedBallotPrepared (mSlotIndex s) b) (w1, s1) = Inr (w, s')"
      by (auto simp: setPreparedAccept_def bindE_Inr_iff)
    note e = notifyAndEmit_R[OF Cons.prems(1) _ emit, simplified monitoring_def DriverEvent.case]
    show ?thesis
    proof (cases w1)
      case True
      with e have inv: "checkInvariants s1 = Inr ()" and r: "R s1 s'" by auto
      have "setPreparedAccept_state b s = Inr (True, s1)" using s1 True by simp
      from R_accept[OF Cons.prems(2) skip acc this inv] have "R s s1" .
      then show ?thesis using r by (rule R_trans)
    next
      case False
      with e setPreparedAccept_state_False s1 have "s' = s" by auto
      then show ?thesis by (simp add: R_refl)
    qed
  qed
qed

lemma attemptPreparedAccept_R:
  "keeps adv \<Longrightarrow> attemptPreparedAccept c adv hint s = Inr (w, s') \<Longrightarrow> R s s'"
  by (auto simp: attemptPreparedAccept_def bindE_Inr_iff active_def R_refl acceptLoop_R
      split: if_splits)

lemma attemptPreparedConfirmed_R:
  assumes adv: "keeps adv" and run: "attemptPreparedConfirmed c adv hint s = Inr (w, s')"
  shows "R s s'"
proof (cases "s' = s")
  case True
  then show ?thesis by (simp add: R_refl)
next
  case False
  let ?b = "case mCurrentBallot s of None \<Rightarrow> nullBallot | Some b \<Rightarrow> b"
  from run False obtain cands cur where
    phase: "mPhase s = SCP_PHASE_PREPARE" "mPrepared s \<noteq> None"
    and cur: "findNewH c (rev cands) s = Inr cur"
    and rest: "(case cur of [] \<Rightarrow> Inr (False, s) | newH # x \<Rightarrow>
       bindE (if mayVoteCommit newH s then findNewC c ?b cur nullBallot s else Inr nullBallot)
         (\<lambda>newC. setPreparedConfirmed c adv newC newH s)) = Inr (w, s')"
    unfolding attemptPreparedConfirmed_def Let_def by (auto simp: bindE_Inr_iff split: if_splits)
  from rest False cur obtain newH rest newC where H: "findNewH c (rev cands) s = Inr (newH # rest)"
    and C: "(if mayVoteCommit newH s then findNewC c ?b (newH # rest) nullBallot s else Inr nullBallot) = Inr newC"
    and set: "setPreparedConfirmed c adv newC newH s = Inr (w, s')"
    by (cases cur) (simp, force simp: bindE_Inr_iff)
  then obtain w1 s1 where s1: "setPreparedConfirmed_state newC newH s = Inr (w1, s1)"
    and emit: "notifyAndEmit c adv (ConfirmedBallotPrepared (mSlotIndex s) newH) (w1, s1) = Inr (w, s')"
    by (auto simp: setPreparedConfirmed_def bindE_Inr_iff)
  note e = notifyAndEmit_R[OF adv _ emit, simplified monitoring_def DriverEvent.case]
  have w1: "w1" using e setPreparedConfirmed_state_False s1 False by (cases w1) auto
  with e have inv: "checkInvariants s1 = Inr ()" and r: "R s1 s'" by auto
  have "R s s1"
  proof (rule R_confirm[OF phase findNewH_ratified[OF H]])
    show "setPreparedConfirmed_state newC newH s = Inr (True, s1)" using s1 w1 by simp
    show "mayVoteCommit newH s \<and> federatedRatify c (hasPreparedBallot newC) (mLatestEnvelopes s) = Inr True"
      if "newC \<noteq> nullBallot"
      using C that findNewC_ratified[of c ?b "newH # rest" nullBallot s newC] by (auto split: if_splits)
  qed (rule inv)
  then show ?thesis using r by (rule R_trans)
qed

lemma attemptAcceptCommit_R:
  assumes adv: "keeps adv" and run: "attemptAcceptCommit c adv hint s = Inr (w, s')"
  shows "R s s'"
proof (cases "s' = s")
  case True
  then show ?thesis by (simp add: R_refl)
next
  case False
  from run False obtain ballot bs cand where
    phase: "active s" and lo: "fst cand \<noteq> 0"
    and ext: "findExtendedInterval (\<lambda>cur. federatedAccept c (votesCommit ballot cur)
        (commitPredicate ballot cur) (mLatestEnvelopes s)) bs (0, 0) = Inr cand"
    and conf: "mPhase s = SCP_PHASE_CONFIRM \<longrightarrow>
        (\<exists>h. mHighBallot s = Some h \<and> bvalue h = bvalue ballot \<and> counter h < snd cand)"
    and set: "setAcceptCommit c adv (SCPBallot (fst cand) (bvalue ballot))
        (SCPBallot (snd cand) (bvalue ballot)) s = Inr (w, s')"
    by (auto simp: attemptAcceptCommit_def bindE_Inr_iff Let_def active_def areBallotsCompatible_def
        split: if_splits option.splits)
  have acc: "federatedAccept c (votesCommit ballot cand) (commitPredicate ballot cand) (mLatestEnvelopes s) = Inr True"
    using findExtendedInterval_holds[OF ext] lo by auto
  obtain w1 s1 where s1: "setAcceptCommit_state (SCPBallot (fst cand) (bvalue ballot))
        (SCPBallot (snd cand) (bvalue ballot)) s = Inr (w1, s1)"
    and emit: "notifyAndEmit c adv (AcceptedCommit (mSlotIndex s) (SCPBallot (snd cand) (bvalue ballot)))
        (w1, s1) = Inr (w, s')"
    using set by (auto simp: setAcceptCommit_def bindE_Inr_iff)
  note e = notifyAndEmit_R[OF adv _ emit, simplified monitoring_def DriverEvent.case]
  have w1: "w1" using e setAcceptCommit_state_False s1 False by (cases w1) auto
  with e have inv: "checkInvariants s1 = Inr ()" and r: "R s1 s'" by auto
  have "R s s1"
    using R_commit[OF phase lo, of "bvalue ballot" "snd cand" "counter ballot" s1] conf acc s1 w1 inv
    by simp
  then show ?thesis using r by (rule R_trans)
qed

lemma attemptConfirmCommit_R:
  assumes adv: "keeps adv" and run: "attemptConfirmCommit c adv hint s = Inr (w, s')"
  shows "R s s'"
proof (cases "s' = s")
  case True
  then show ?thesis by (simp add: R_refl)
next
  case False
  obtain h0 cm0 where phase: "mPhase s = SCP_PHASE_CONFIRM" and hc: "mHighBallot s = Some h0" "mCommit s = Some cm0"
    using run False by (auto simp: attemptConfirmCommit_def split: if_splits option.splits)
  then have high: "mHighBallot s \<noteq> None" by simp
  from run phase hc False obtain ballot where "confirmCommitHint hint = Inr (Some ballot)"
    by (auto simp: attemptConfirmCommit_def bindE_Inr_iff split: option.splits)
  with run phase hc False obtain bs cand where
    cm0: "mCommit s = Some cm0" "bvalue cm0 = bvalue ballot" and lo: "fst cand \<noteq> 0"
    and ext: "findExtendedInterval (\<lambda>cur. federatedRatify c (commitPredicate ballot cur)
        (mLatestEnvelopes s)) bs (0, 0) = Inr cand"
    and set: "setConfirmCommit c adv (SCPBallot (fst cand) (bvalue ballot))
        (SCPBallot (snd cand) (bvalue ballot)) s = Inr (w, s')"
    by (auto simp: attemptConfirmCommit_def bindE_Inr_iff areBallotsCompatible_def split: if_splits)
  have rat: "federatedRatify c (commitPredicate (SCPBallot (counter ballot) (bvalue ballot)) (fst cand, snd cand))
      (mLatestEnvelopes s) = Inr True"
    using findExtendedInterval_holds[OF ext] lo by auto
  obtain s1 s2 cm where s1: "setConfirmCommit_state (SCPBallot (fst cand) (bvalue ballot))
        (SCPBallot (snd cand) (bvalue ballot)) s = Inr s1"
    and emit: "emitCurrentStateStatement c adv s1 = Inr s2" and cm: "mCommit s2 = Some cm"
    and s': "s' = notify (ValueExternalized (mSlotIndex s2) (bvalue cm)) (stopNomination s2)"
    using set by (auto simp: setConfirmCommit_def bindE_Inr_iff Let_def stopNomination_def)
  from emit_R[OF adv emit] have "R s1 s2" "checkInvariants s1 = Inr ()" by auto
  from R_externalize[OF phase cm0 high lo rat s1 this(2,1) cm] show ?thesis unfolding s' .
qed

lemma bumpState_counter_R:
  assumes adv: "keeps adv" and run: "bumpState_counter c adv v n s = Inr (w, s')"
  shows "R s s'"
proof (cases "s' = s")
  case True
  then show ?thesis by (simp add: R_refl)
next
  case False
  let ?b = "SCPBallot n (case mHighBallot s of None \<Rightarrow> v | Some h \<Rightarrow> bvalue h)"
  from run False obtain w1 s1 where phase: "active s" and upd: "updateCurrentValue ?b s = Inr (w1, s1)"
    and emit: "notifyAndEmit c adv (StartedBallotProtocol (mSlotIndex s) ?b) (w1, s1) = Inr (w, s')"
    by (auto simp: bumpState_counter_def bindE_Inr_iff Let_def active_def split: if_splits)
  note e = notifyAndEmit_R[OF adv _ emit, simplified monitoring_def DriverEvent.case]
  have w1: "w1" using e updateCurrentValue_False upd False by (cases w1) auto
  then have "R s s1" using upd by (auto intro: R_bump[OF phase refl])
  moreover have "R s1 s'" using e w1 by simp
  ultimately show ?thesis by (rule R_trans)
qed

lemma bumpState_R: "keeps adv \<Longrightarrow> bumpState c adv v force s = Inr (w, s') \<Longrightarrow> R s s'"
  by (auto simp: bumpState_def R_refl bumpState_counter_R split: if_splits)

lemma abandonBallot_R: "keeps adv \<Longrightarrow> abandonBallot c adv n s = Inr (w, s') \<Longrightarrow> R s s'"
  unfolding abandonBallot_def Let_def
  by (simp add: R_refl bumpState_R bumpState_counter_R split: if_splits)

lemma attemptBump_R: "keeps adv \<Longrightarrow> attemptBump c adv s = Inr (w, s') \<Longrightarrow> R s s'"
  by (auto simp: attemptBump_def Let_def bindE_Inr_iff R_refl abandonBallot_R
      split: if_splits option.splits)

lemma bumpLoop_R:
  assumes adv: "keeps adv" and run: "bumpLoop c adv w0 s = Inr (w, s')"
  shows "R s s'"
proof -
  let ?P = "\<lambda>x :: failure + bool \<times> bool \<times> Slot. case x of Inr (_, _, t) \<Rightarrow> R s t | Inl _ \<Rightarrow> True"
  let ?body = "\<lambda>x. bindE x (\<lambda>(didBump, dw, s'). bindE (attemptBump c adv s') (\<lambda>(b, s''). Inr (b, b \<or> dw, s'')))"
  from run obtain b where loop: "while_option
      (\<lambda>x. case x of Inr (didBump, dw, s') \<Rightarrow> didBump | Inl _ \<Rightarrow> False) ?body (Inr (True, w0, s)) = Some (Inr (b, w, s'))"
    by (auto simp: bumpLoop_def bindE_Inr_iff split: option.splits)
  have "?P (Inr (b, w, s'))"
  proof (rule while_option_rule[where P = ?P, OF _ loop])
    fix x :: "failure + bool \<times> bool \<times> Slot"
    assume P: "?P x"
    show "?P (?body x)"
    proof (cases "?body x")
      case (Inr y)
      then obtain d dw t b' t' where "x = Inr (d, dw, t)" "attemptBump c adv t = Inr (b', t')" "y = (b', b' \<or> dw, t')"
        by (auto simp: bindE_Inr_iff)
      then show ?thesis using P Inr R_trans[OF _ attemptBump_R[OF adv]] by simp
    qed simp
  qed (simp add: R_refl)
  then show ?thesis by simp
qed

lemma checkHeardFromQuorum_R:
  assumes "checkHeardFromQuorum c s = Inr s'"
  shows "R s s'"
proof -
  consider "s' = s" | b where "s' = notify (BallotDidHearFromQuorum (mSlotIndex s) b) (s\<lparr>mHeardFromQuorum := True\<rparr>)"
    using assms by (auto simp: checkHeardFromQuorum_def bindE_Inr_iff split: option.splits if_splits)
  then show ?thesis
  proof cases
    case 2
    have "R (s\<lparr>mHeardFromQuorum := True\<rparr>) s'" unfolding 2 by (rule R_notify) (simp add: monitoring_def)
    then show ?thesis by (rule R_trans[OF R_heard])
  qed (simp add: R_refl)
qed

lemma attemptAll_R:
  assumes adv: "keeps adv" and run: "attemptAll c adv hint s = Inr (w, s')"
  shows "R s s'"
proof -
  from run obtain w1 s1 w2 s2 w3 s3 w4 where
    steps: "attemptPreparedAccept c adv hint s = Inr (w1, s1)"
      "attemptPreparedConfirmed c adv hint s1 = Inr (w2, s2)"
      "attemptAcceptCommit c adv hint s2 = Inr (w3, s3)"
      "attemptConfirmCommit c adv hint s3 = Inr (w4, s')"
    by (clarsimp simp: attemptAll_def bindE_Inr_iff)
  have "R s s2"
    by (rule R_trans[OF attemptPreparedAccept_R[OF adv steps(1)] attemptPreparedConfirmed_R[OF adv steps(2)]])
  moreover have "R s2 s'"
    by (rule R_trans[OF attemptAcceptCommit_R[OF adv steps(3)] attemptConfirmCommit_R[OF adv steps(4)]])
  ultimately show ?thesis by (rule R_trans)
qed

lemma advanceBody_R:
  assumes adv: "keeps adv"
  shows "keeps (advanceBody c adv)"
  unfolding keeps_def
proof (intro allI impI)
  fix hint s s'
  assume run: "advanceBody c adv hint s = Inr s'"
  let ?s0 = "s\<lparr>mCurrentMessageLevel := mCurrentMessageLevel s + 1\<rparr>"
  from run obtain s1 w2 s2 w s3 where
    steps: "checkHeardFromQuorum c ?s0 = Inr s1" "attemptAll c adv hint s1 = Inr (w2, s2)"
    and loop: "(if mCurrentMessageLevel s2 = 1 then bumpLoop c adv w2 s2 else Inr (w2, s2)) = Inr (w, s3)"
    and s': "s' = (let s4 = s3\<lparr>mCurrentMessageLevel := mCurrentMessageLevel s3 - 1\<rparr>
                   in if w then sendLatestEnvelope s4 else s4)"
    unfolding advanceBody_def Let_def
    by (split if_split_asm) (auto elim!: bindE_InrE split del: if_split)
  have "R ?s0 s2"
    by (rule R_trans[OF checkHeardFromQuorum_R[OF steps(1)] attemptAll_R[OF adv steps(2)]])
  moreover have "R s2 s3" using loop bumpLoop_R[OF adv] R_refl by (auto split: if_splits)
  ultimately have "R ?s0 s3" by (rule R_trans)
  from R_level[OF this] show "R s s'" unfolding s' Let_def using R_trans[OF _ R_send] by simp
qed

lemma advanceSlot_fuel_R: "keeps (advanceSlot_fuel n c)"
  by (induction n) (simp_all add: advanceBody_R, simp add: keeps_def)

lemma advanceSlot_R: "keeps (advanceSlot c)"
  by (simp add: advanceSlot_def advanceSlot_fuel_R)

end

end
