(* ===== verification/BallotOrder.thy ===== *)
theory BallotOrder
  imports SlotContract
begin

text \<open>
  Orders of the ballot protocol: \<open>compareBallots\<close> is the order of ballots, \<open>isNewerStatement\<close>
  a strict order of statements. The elementary state updates are then described by the order.
\<close>

section \<open>Ballots\<close>

lemma compareBallots_less [simp]: "compareBallots b1 b2 < 0 \<longleftrightarrow> b1 < b2"
  by (auto simp: compareBallots_def less_SCPBallot_def)

lemma compareBallots_le [simp]: "compareBallots b1 b2 \<le> 0 \<longleftrightarrow> b1 \<le> b2"
  by (auto simp: compareBallots_def less_eq_SCPBallot_def)

lemma compareBallots_greater [simp]: "0 < compareBallots b1 b2 \<longleftrightarrow> b2 < b1"
  by (auto simp: compareBallots_def less_SCPBallot_def)

lemma compareBallots_ge [simp]: "0 \<le> compareBallots b1 b2 \<longleftrightarrow> b2 \<le> b1"
  by (auto simp: compareBallots_def less_eq_SCPBallot_def)

lemma compareBallots_eq [simp]: "compareBallots b1 b2 = 0 \<longleftrightarrow> b1 = b2"
  by (cases b1; cases b2) (auto simp: compareBallots_def)

definition ptr_less :: "SCPBallot option \<Rightarrow> SCPBallot option \<Rightarrow> bool" where
  "ptr_less p q = (case (p, q) of
     (Some a, Some b) \<Rightarrow> a < b | (None, Some _) \<Rightarrow> True | _ \<Rightarrow> False)"

lemma compareBallots_ptr_less [simp]: "compareBallots_ptr p q < 0 \<longleftrightarrow> ptr_less p q"
  by (auto simp: compareBallots_ptr_def ptr_less_def split: option.splits)

lemma compareBallots_ptr_eq [simp]: "compareBallots_ptr p q = 0 \<longleftrightarrow> p = q"
  by (auto simp: compareBallots_ptr_def split: option.splits)

lemma ptr_less_irrefl [simp]: "\<not> ptr_less p p"
  by (auto simp: ptr_less_def split: option.splits)

lemma ptr_less_trans: "ptr_less p q \<Longrightarrow> ptr_less q r \<Longrightarrow> ptr_less p r"
  by (auto simp: ptr_less_def split: option.splits)

lemma areBallotsLessAndCompatible_iff [simp]:
  "areBallotsLessAndCompatible b1 b2 \<longleftrightarrow> b1 \<le> b2 \<and> bvalue b1 = bvalue b2"
  by (simp add: areBallotsLessAndCompatible_def areBallotsCompatible_def)

lemma areBallotsLessAndIncompatible_iff [simp]:
  "areBallotsLessAndIncompatible b1 b2 \<longleftrightarrow> b1 \<le> b2 \<and> bvalue b1 \<noteq> bvalue b2"
  by (simp add: areBallotsLessAndIncompatible_def areBallotsCompatible_def)

section \<open>Statements\<close>

lemma isNewerStatement_simps:
  "isNewerStatement oldst st =
     (case (pledges oldst, pledges st) of
        (CONFIRM a, CONFIRM b) \<Rightarrow> c_ballot a < c_ballot b \<or> c_ballot a = c_ballot b \<and>
          (c_nPrepared a < c_nPrepared b \<or> c_nPrepared a = c_nPrepared b \<and> c_nH a < c_nH b)
      | (PREPARE a, PREPARE b) \<Rightarrow> p_ballot a < p_ballot b \<or> p_ballot a = p_ballot b \<and>
          (ptr_less (p_prepared a) (p_prepared b) \<or> p_prepared a = p_prepared b \<and>
           (ptr_less (p_preparedPrime a) (p_preparedPrime b) \<or> p_preparedPrime a = p_preparedPrime b \<and>
            p_nH a < p_nH b))
      | (a, b) \<Rightarrow> pledgeType a < pledgeType b)"
  by (auto simp: isNewerStatement_def Let_def split: SCPPledges.splits)

lemma isNewerStatement_irrefl: "\<not> isNewerStatement st st"
  by (auto simp: isNewerStatement_simps split: SCPPledges.splits)

lemma isNewerStatement_trans:
  "isNewerStatement a b \<Longrightarrow> isNewerStatement b c \<Longrightarrow> isNewerStatement a c"
  by (cases "pledges a"; cases "pledges b"; cases "pledges c")
     (auto simp: isNewerStatement_simps intro: ptr_less_trans)

section \<open>Updates\<close>

definition bumped :: "SCPBallot \<Rightarrow> Slot \<Rightarrow> Slot" where
  "bumped b s =
     (let s' = s\<lparr>mCurrentBallot := Some b, mHeardFromQuorum := False\<rparr> in
      if mCurrentBallot s = Some b then s'
      else notify (SetupTimer (mSlotIndex s) (computeTimeout (counter b)) BallotProtocolTimerExpired) s')"

lemma bumpToBallot_Inr:
  "bumpToBallot b check s = Inr s' \<longleftrightarrow>
     mPhase s \<noteq> SCP_PHASE_EXTERNALIZE \<and>
     (check \<longrightarrow> (case mCurrentBallot s of None \<Rightarrow> True | Some b' \<Rightarrow> b' \<le> b)) \<and> s' = bumped b s"
  by (auto simp: bumpToBallot_def bumped_def Let_def bindE_Inr_iff startBallotProtocolTimer_def
      split: option.splits)

lemma updateCurrentIfNeeded_Inr:
  "updateCurrentIfNeeded s = Inr s' \<longleftrightarrow>
     (\<exists>h. mHighBallot s = Some h \<and>
       (if (case mCurrentBallot s of None \<Rightarrow> True | Some b \<Rightarrow> b < h)
        then mPhase s \<noteq> SCP_PHASE_EXTERNALIZE \<and> s' = bumped h s else s' = s))"
  by (cases "mCurrentBallot s"; cases "mHighBallot s")
     (auto simp: updateCurrentIfNeeded_def bumpToBallot_Inr less_imp_le)

lemma updateCurrentValue_True:
  "updateCurrentValue b s = Inr (True, s') \<longleftrightarrow>
     active s \<and> s' = bumped b s \<and> checkInvariants s' = Inr () \<and>
     (case mCurrentBallot s of None \<Rightarrow> True
      | Some b0 \<Rightarrow> b0 < b \<and> (case mCommit s of None \<Rightarrow> True | Some cm \<Rightarrow> bvalue cm = bvalue b))"
  by (auto simp: updateCurrentValue_def active_def Let_def bindE_Inr_iff bumpToBallot_Inr
      areBallotsCompatible_def split: option.splits if_splits)

lemma bumped_simps [simp]:
  "mPhase (bumped b s) = mPhase s" "mCurrentBallot (bumped b s) = Some b"
  "mPrepared (bumped b s) = mPrepared s" "mPreparedPrime (bumped b s) = mPreparedPrime s"
  "mHighBallot (bumped b s) = mHighBallot s" "mCommit (bumped b s) = mCommit s"
  "mLatestEnvelopes (bumped b s) = mLatestEnvelopes s" "mSlotIndex (bumped b s) = mSlotIndex s"
  "mCurrentMessageLevel (bumped b s) = mCurrentMessageLevel s"
  "mLastEnvelope (bumped b s) = mLastEnvelope s" "mLastEnvelopeEmit (bumped b s) = mLastEnvelopeEmit s"
  "mStatementsHistory (bumped b s) = mStatementsHistory s"
  "mFullyValidated (bumped b s) = mFullyValidated s"
  by (simp_all add: bumped_def Let_def notify_def)

lemma mTrace_bumped: "\<exists>es. mTrace (bumped b s) = mTrace s @ es \<and> list_all monitoring es"
  by (auto simp: bumped_def Let_def notify_def monitoring_def)

lemma recordEnvelope_simps [simp]:
  "mPhase (recordEnvelope e s) = mPhase s" "mCurrentBallot (recordEnvelope e s) = mCurrentBallot s"
  "mPrepared (recordEnvelope e s) = mPrepared s" "mPreparedPrime (recordEnvelope e s) = mPreparedPrime s"
  "mHighBallot (recordEnvelope e s) = mHighBallot s" "mCommit (recordEnvelope e s) = mCommit s"
  "mLatestEnvelopes (recordEnvelope e s) = map_put (nodeID (statement e)) e (mLatestEnvelopes s)"
  "mSlotIndex (recordEnvelope e s) = mSlotIndex s" "mTrace (recordEnvelope e s) = mTrace s"
  "mCurrentMessageLevel (recordEnvelope e s) = mCurrentMessageLevel s"
  "mLastEnvelope (recordEnvelope e s) = mLastEnvelope s"
  "mLastEnvelopeEmit (recordEnvelope e s) = mLastEnvelopeEmit s"
  "mStatementsHistory (recordEnvelope e s) = mStatementsHistory s @ [(statement e, mFullyValidated s)]"
  "mFullyValidated (recordEnvelope e s) = mFullyValidated s"
  "mHeardFromQuorum (recordEnvelope e s) = mHeardFromQuorum s"
  by (simp_all add: recordEnvelope_def recordStatement_def)

lemma stopNomination_simps [simp]:
  "mPhase (stopNomination s) = mPhase s" "mCurrentBallot (stopNomination s) = mCurrentBallot s"
  "mPrepared (stopNomination s) = mPrepared s" "mPreparedPrime (stopNomination s) = mPreparedPrime s"
  "mHighBallot (stopNomination s) = mHighBallot s" "mCommit (stopNomination s) = mCommit s"
  "mLatestEnvelopes (stopNomination s) = mLatestEnvelopes s" "mSlotIndex (stopNomination s) = mSlotIndex s"
  "mCurrentMessageLevel (stopNomination s) = mCurrentMessageLevel s"
  "mTrace (stopNomination s) = mTrace s" "mLastEnvelope (stopNomination s) = mLastEnvelope s"
  "mLastEnvelopeEmit (stopNomination s) = mLastEnvelopeEmit s"
  "mStatementsHistory (stopNomination s) = mStatementsHistory s"
  "mFullyValidated (stopNomination s) = mFullyValidated s"
  by (simp_all add: stopNomination_def)

text \<open>What each \<open>set*\<close> operation does to the state when it does something. \<open>ballotUpdate\<close>
  says that nothing but the six ballot fields (and the heard flag) changes and that only monitoring
  events are added to the trace.\<close>

definition nominationOf :: "Slot \<Rightarrow> NominationProtocol" where
  "nominationOf s = NominationProtocol.truncate s"

definition ballotUpdate :: "Slot \<Rightarrow> Slot \<Rightarrow> bool" where
  "ballotUpdate s s' \<longleftrightarrow>
     nominationOf s' = nominationOf s \<and> mLatestEnvelopes s' = mLatestEnvelopes s \<and>
     mCurrentMessageLevel s' = mCurrentMessageLevel s \<and> mLastEnvelope s' = mLastEnvelope s \<and>
     mLastEnvelopeEmit s' = mLastEnvelopeEmit s \<and> mSlotIndex s' = mSlotIndex s \<and>
     mStatementsHistory s' = mStatementsHistory s \<and> mFullyValidated s' = mFullyValidated s \<and>
     (\<exists>es. mTrace s' = mTrace s @ es \<and> list_all monitoring es)"

lemma ballotUpdate_refl [simp]: "ballotUpdate s s"
  by (simp add: ballotUpdate_def)

lemma ballotUpdate_trans: "ballotUpdate s t \<Longrightarrow> ballotUpdate t u \<Longrightarrow> ballotUpdate s u"
  by (auto simp: ballotUpdate_def)

lemma ballotUpdate_fields [simp]:
  "ballotUpdate s (s\<lparr>mPrepared := p\<rparr>)" "ballotUpdate s (s\<lparr>mPreparedPrime := p'\<rparr>)"
  "ballotUpdate s (s\<lparr>mHighBallot := h\<rparr>)" "ballotUpdate s (s\<lparr>mCommit := cm\<rparr>)"
  "ballotUpdate s (s\<lparr>mPhase := ph\<rparr>)"
  by (simp_all add: ballotUpdate_def nominationOf_def NominationProtocol.defs)

lemma ballotUpdate_bumped [simp]: "ballotUpdate s (bumped b s)"
  by (auto simp: ballotUpdate_def nominationOf_def NominationProtocol.defs bumped_def Let_def
      notify_def monitoring_def)

definition raise :: "SCPBallot \<Rightarrow> SCPBallot option \<Rightarrow> SCPBallot option" where
  "raise h b = (case b of None \<Rightarrow> Some h | Some b' \<Rightarrow> Some (max b' h))"

lemma updateCurrentIfNeeded_update:
  assumes "updateCurrentIfNeeded s = Inr s'" "mHighBallot s = Some h"
  shows "ballotUpdate s s' \<and> mPhase s' = mPhase s \<and> mPrepared s' = mPrepared s \<and>
    mPreparedPrime s' = mPreparedPrime s \<and> mHighBallot s' = mHighBallot s \<and> mCommit s' = mCommit s \<and>
    mCurrentBallot s' = raise h (mCurrentBallot s)"
  using assms by (auto simp: updateCurrentIfNeeded_Inr raise_def max_def split: option.splits if_splits)

lemma setPreparedAccept_update:
  assumes "setPreparedAccept_state b s = Inr (w, s')"
  shows "ballotUpdate s s' \<and> mPhase s' = mPhase s \<and> mCurrentBallot s' = mCurrentBallot s \<and>
    mHighBallot s' = mHighBallot s \<and>
    (mCommit s' = mCommit s \<or> mCommit s' = None \<and> mPhase s = SCP_PHASE_PREPARE)"
  using assms
  by (auto simp: setPreparedAccept_state_def setPrepared_def Let_def bindE_Inr_iff
      intro: ballotUpdate_trans[OF ballotUpdate_fields(2) ballotUpdate_fields(1)]
        ballotUpdate_trans[OF ballotUpdate_trans[OF ballotUpdate_fields(2) ballotUpdate_fields(1)] ballotUpdate_fields(4)]
        ballotUpdate_trans[OF ballotUpdate_fields(1) ballotUpdate_fields(4)]
        ballotUpdate_trans[OF ballotUpdate_fields(2) ballotUpdate_fields(4)]
      split: option.splits if_splits)

lemma setPreparedConfirmed_update:
  assumes "setPreparedConfirmed_state newC newH s = Inr (True, s')"
  shows "\<exists>h. ballotUpdate s s' \<and> mPhase s' = mPhase s \<and> mPrepared s' = mPrepared s \<and>
    mPreparedPrime s' = mPreparedPrime s \<and> mHighBallot s' = Some h \<and>
    (mHighBallot s = None \<and> h = newH \<or> (\<exists>h0. mHighBallot s = Some h0 \<and> h = max h0 newH)) \<and>
    mCommit s' = (if counter newC \<noteq> 0 then Some newC else mCommit s) \<and>
    (counter newC \<noteq> 0 \<longrightarrow> mCommit s = None) \<and>
    mCurrentBallot s' = raise h (mCurrentBallot s)"
proof -
  let ?up = "case mHighBallot s of None \<Rightarrow> True | Some h \<Rightarrow> compareBallots newH h > 0"
  let ?s1 = "if ?up then s\<lparr>mHighBallot := Some newH\<rparr> else s"
  let ?s2 = "if counter newC \<noteq> 0 then ?s1\<lparr>mCommit := Some newC\<rparr> else ?s1"
  have upd: "updateCurrentIfNeeded ?s2 = Inr s'" and cm: "counter newC \<noteq> 0 \<longrightarrow> mCommit s = None"
    using assms unfolding setPreparedConfirmed_state_def Let_def
    by (auto elim!: bindE_InrE split: if_splits)
  let ?h = "case mHighBallot s of None \<Rightarrow> newH | Some h0 \<Rightarrow> max h0 newH"
  have h: "mHighBallot ?s2 = Some ?h" by (auto simp: max_def split: option.splits)
  have "ballotUpdate s ?s2"
    by (auto intro: ballotUpdate_trans[OF ballotUpdate_fields(3) ballotUpdate_fields(4)])
  then show ?thesis
    using updateCurrentIfNeeded_update[OF upd h] cm
    by (intro exI[of _ ?h]) (auto intro: ballotUpdate_trans split: option.splits)
qed

lemma setAcceptCommit_update:
  assumes "setAcceptCommit_state cm h s = Inr (True, s')" "active s"
  shows "ballotUpdate s s' \<and> mPhase s' = SCP_PHASE_CONFIRM \<and> mPrepared s' = mPrepared s \<and>
    mPreparedPrime s' = (if mPhase s = SCP_PHASE_PREPARE then None else mPreparedPrime s) \<and>
    mHighBallot s' = Some h \<and> mCommit s' = Some cm \<and>
    (mPhase s = SCP_PHASE_CONFIRM \<longrightarrow> mCurrentBallot s' = raise h (mCurrentBallot s)) \<and>
    mCurrentBallot s' \<noteq> None"
proof -
  define change where "change = (case (mHighBallot s, mCommit s) of
      (Some h0, Some cm0) \<Rightarrow> compareBallots h0 h \<noteq> 0 \<or> compareBallots cm0 cm \<noteq> 0 | _ \<Rightarrow> True)"
  define s1 where "s1 = (if change then s\<lparr>mCommit := Some cm, mHighBallot := Some h\<rparr> else s)"
  have s1: "ballotUpdate s s1" "mPhase s1 = mPhase s" "mPrepared s1 = mPrepared s"
    "mPreparedPrime s1 = mPreparedPrime s" "mCurrentBallot s1 = mCurrentBallot s"
    "mCommit s1 = Some cm" "mHighBallot s1 = Some h"
    by (auto simp: s1_def change_def split: option.splits if_splits
        intro: ballotUpdate_trans[OF ballotUpdate_fields(4) ballotUpdate_fields(3)])
  have run: "bindE (if mPhase s1 = SCP_PHASE_PREPARE
       then let s2 = s1\<lparr>mPhase := SCP_PHASE_CONFIRM\<rparr> in
         bindE (case mCurrentBallot s2 of None \<Rightarrow> Inr s2
                | Some b \<Rightarrow> if \<not> areBallotsLessAndCompatible h b then bumpToBallot h False s2 else Inr s2)
           (\<lambda>s3. Inr (True, s3\<lparr>mPreparedPrime := None\<rparr>))
       else Inr (change, s1)) (\<lambda>(didWork, s4).
      if didWork then bindE (updateCurrentIfNeeded s4) (\<lambda>s5. Inr (True, s5)) else Inr (False, s4)) = Inr (True, s')"
    using assms(1) unfolding setAcceptCommit_state_def Let_def change_def[symmetric] s1_def[symmetric] .
  show ?thesis
  proof (cases "mPhase s = SCP_PHASE_PREPARE")
    case True
    let ?s2 = "s1\<lparr>mPhase := SCP_PHASE_CONFIRM\<rparr>"
    obtain s3 where s3: "s3 = ?s2 \<or> s3 = bumped h ?s2"
      and upd: "updateCurrentIfNeeded (s3\<lparr>mPreparedPrime := None\<rparr>) = Inr s'"
      using run True s1(2)
      by (auto elim!: bindE_InrE simp: Let_def bumpToBallot_Inr split: option.splits if_splits) blast+
    have h: "mHighBallot (s3\<lparr>mPreparedPrime := None\<rparr>) = Some h" using s3 s1(7) by auto
    have "ballotUpdate ?s2 s3" using s3 by auto
    with ballotUpdate_trans[OF s1(1)] have "ballotUpdate s s3"
      by (blast intro: ballotUpdate_trans[OF ballotUpdate_fields(5)])
    then have "ballotUpdate s (s3\<lparr>mPreparedPrime := None\<rparr>)" by (rule ballotUpdate_trans) simp
    then show ?thesis
      using updateCurrentIfNeeded_update[OF upd h] s1 s3 True
      by (auto simp: raise_def intro: ballotUpdate_trans split: option.splits)
  next
    case False
    then have upd: "updateCurrentIfNeeded s1 = Inr s'" and "mPhase s = SCP_PHASE_CONFIRM"
      using run s1(2) assms(2) by (auto elim!: bindE_InrE simp: active_def split: if_splits)
    then show ?thesis
      using updateCurrentIfNeeded_update[OF upd s1(7)] s1
      by (auto simp: raise_def intro: ballotUpdate_trans split: option.splits)
  qed
qed

lemma setConfirmCommit_update:
  assumes "setConfirmCommit_state cm h s = Inr s'"
  shows "ballotUpdate s s' \<and> mPhase s' = SCP_PHASE_EXTERNALIZE \<and> mPrepared s' = mPrepared s \<and>
    mPreparedPrime s' = mPreparedPrime s \<and> mHighBallot s' = Some h \<and> mCommit s' = Some cm \<and>
    mCurrentBallot s' = raise h (mCurrentBallot s)"
proof -
  let ?s1 = "s\<lparr>mCommit := Some cm, mHighBallot := Some h\<rparr>"
  obtain s2 where upd: "updateCurrentIfNeeded ?s1 = Inr s2" and s': "s' = s2\<lparr>mPhase := SCP_PHASE_EXTERNALIZE\<rparr>"
    using assms by (auto simp: setConfirmCommit_state_def elim!: bindE_InrE)
  have "ballotUpdate s ?s1" by (rule ballotUpdate_trans[OF ballotUpdate_fields(4) ballotUpdate_fields(3)])
  moreover have "ballotUpdate ?s1 s2" using updateCurrentIfNeeded_update[OF upd] by simp
  ultimately have "ballotUpdate s s2" by (rule ballotUpdate_trans)
  then have "ballotUpdate s s'" unfolding s' by (rule ballotUpdate_trans) simp
  then show ?thesis using updateCurrentIfNeeded_update[OF upd] by (simp add: s')
qed

lemma sendLatestEnvelope_simps [simp]:
  "mPhase (sendLatestEnvelope s) = mPhase s" "mCurrentBallot (sendLatestEnvelope s) = mCurrentBallot s"
  "mPrepared (sendLatestEnvelope s) = mPrepared s" "mPreparedPrime (sendLatestEnvelope s) = mPreparedPrime s"
  "mHighBallot (sendLatestEnvelope s) = mHighBallot s" "mCommit (sendLatestEnvelope s) = mCommit s"
  "mLatestEnvelopes (sendLatestEnvelope s) = mLatestEnvelopes s"
  "mSlotIndex (sendLatestEnvelope s) = mSlotIndex s"
  "mCurrentMessageLevel (sendLatestEnvelope s) = mCurrentMessageLevel s"
  "mStatementsHistory (sendLatestEnvelope s) = mStatementsHistory s"
  "mFullyValidated (sendLatestEnvelope s) = mFullyValidated s"
  "mLastEnvelope (sendLatestEnvelope s) = mLastEnvelope s"
  by (auto simp: sendLatestEnvelope_def split: option.splits)

lemma mTrace_sendLatestEnvelope:
  "mTrace (sendLatestEnvelope s) = mTrace s \<and> mLastEnvelopeEmit (sendLatestEnvelope s) = mLastEnvelopeEmit s \<or>
   (\<exists>k e. mLastEnvelope s = Some (k, e) \<and> mTrace (sendLatestEnvelope s) = mTrace s @ [EmitEnvelope e] \<and>
     mLastEnvelopeEmit (sendLatestEnvelope s) = Some (k, e) \<and>
     (case mLastEnvelopeEmit s of None \<Rightarrow> True | Some (k', e') \<Rightarrow> k \<noteq> k'))"
  by (auto simp: sendLatestEnvelope_def split: option.splits)

lemmas ballot_updates = setPreparedAccept_update setPreparedConfirmed_update setAcceptCommit_update
  setConfirmCommit_update

section \<open>Properties\<close>

text \<open>"Newer" is a strict order on the statements of a node: no statement is newer than itself,
  and newer than newer is newer; a ballot statement of a later phase is newer than one of an earlier
  phase.\<close>

theorem isNewerStatement_strict_order:
  "irreflp isNewerStatement \<and> transp isNewerStatement \<and>
   isNewerStatement \<lparr>nodeID = n, slotIndex = i, pledges = PREPARE p\<rparr> \<lparr>nodeID = n, slotIndex = i, pledges = CONFIRM cf\<rparr> \<and>
   isNewerStatement \<lparr>nodeID = n, slotIndex = i, pledges = CONFIRM cf\<rparr> \<lparr>nodeID = n, slotIndex = i, pledges = EXTERNALIZE e\<rparr>"
proof (intro conjI)
  show "irreflp isNewerStatement" by (rule irreflpI) (rule isNewerStatement_irrefl)
  show "transp isNewerStatement" by (rule transpI) (rule isNewerStatement_trans)
qed (simp_all add: isNewerStatement_simps)

end
