(* ===== verification/BallotTermination.thy ===== *)
theory BallotTermination
  imports BallotOrder
begin

text \<open>
  The ballot protocol always answers. Two instances of the contract say that the phase and the
  counter only move forward and that every operation restores the message level. The bump loop then
  ends because each round raises the counter or leaves a phase, and the recursion of
  \<open>advanceSlot\<close> ends because it throws at level 50.
\<close>

section \<open>Moving forward\<close>

fun phaseRank :: "SCPPhase \<Rightarrow> nat" where
  "phaseRank SCP_PHASE_PREPARE = 0"
| "phaseRank SCP_PHASE_CONFIRM = 1"
| "phaseRank SCP_PHASE_EXTERNALIZE = 2"

definition currentRank :: "Slot \<Rightarrow> nat" where
  "currentRank s = (case mCurrentBallot s of None \<Rightarrow> 0 | Some b \<Rightarrow> Suc (unat (counter b)))"

definition forward :: "Slot \<Rightarrow> Slot \<Rightarrow> bool" where
  "forward s s' \<longleftrightarrow> phaseRank (mPhase s) < phaseRank (mPhase s') \<or>
     mPhase s = mPhase s' \<and> currentRank s \<le> currentRank s'"

lemma forward_same: "mPhase s' = mPhase s \<Longrightarrow> mCurrentBallot s' = mCurrentBallot s \<Longrightarrow> forward s s'"
  by (simp add: forward_def currentRank_def)

lemma currentRank_mono:
  "b \<le> b' \<Longrightarrow> mCurrentBallot s = Some b \<Longrightarrow> mCurrentBallot s' = Some b' \<Longrightarrow> currentRank s \<le> currentRank s'"
  using ballot_le_counter[of b b'] by (simp add: currentRank_def word_le_nat_alt)

lemma currentRank_None: "mCurrentBallot s = None \<Longrightarrow> currentRank s \<le> currentRank s'"
  by (simp add: currentRank_def)

lemma currentRank_raise: "mCurrentBallot s' = raise h (mCurrentBallot s) \<Longrightarrow> currentRank s \<le> currentRank s'"
  by (cases "mCurrentBallot s")
     (auto simp: raise_def intro: currentRank_None currentRank_mono[OF max.cobounded1])

lemma forward_raise:
  "mPhase s' = mPhase s \<Longrightarrow> mCurrentBallot s' = raise h (mCurrentBallot s) \<Longrightarrow> forward s s'"
  by (simp add: forward_def currentRank_raise)

lemma forward_trans: "forward s t \<Longrightarrow> forward t u \<Longrightarrow> forward s u"
  by (auto simp: forward_def)

lemma forward_bump:
  assumes "updateCurrentValue b s = Inr (True, s')"
  shows "forward s s'"
proof -
  have "mPhase s' = mPhase s" "mCurrentBallot s' = Some b"
    "\<And>b0. mCurrentBallot s = Some b0 \<Longrightarrow> b0 < b"
    using assms by (auto simp: updateCurrentValue_True)
  then show ?thesis
    by (cases "mCurrentBallot s")
       (auto simp: forward_def intro: currentRank_None currentRank_mono[OF less_imp_le])
qed

interpretation forward: slot_contract c "\<lambda>_. True" forward for c
proof (unfold_locales, goal_cases)
  case (2 s t u)
  then show ?case by (rule forward_trans)
next
  case (3 s t)
  then show ?case by (simp add: forward_def currentRank_def)
next
  case (9 s b n v s')
  then show ?case by (auto intro: forward_bump)
next
  case (10 s b s')
  then show ?case by (auto dest!: setPreparedAccept_update intro: forward_same)
next
  case (11 s newH newC s')
  then show ?case by (auto dest!: setPreparedConfirmed_update intro: forward_raise)
next
  case (12 s lo v hi n s')
  from setAcceptCommit_update[OF 12(5,1)] 12(1) currentRank_raise[of s' "SCPBallot hi v" s]
  show ?case by (auto simp: active_def forward_def)
next
  case (13 s cm0 v lo n hi s1 s2 cm)
  from setConfirmCommit_update[OF 13(7)] 13(1,9) show ?case by (auto simp: forward_def)
qed (auto intro: forward_same)

section \<open>The message level\<close>

definition same_level :: "Slot \<Rightarrow> Slot \<Rightarrow> bool" where
  "same_level s s' \<longleftrightarrow> mCurrentMessageLevel s' = mCurrentMessageLevel s"

interpretation level: slot_contract c "\<lambda>_. True" same_level for c
proof (unfold_locales, goal_cases)
  case (9 s b n v s')
  then show ?case by (auto simp: updateCurrentValue_True same_level_def)
next
  case (10 s b s')
  then show ?case by (auto dest!: setPreparedAccept_update simp: same_level_def ballotUpdate_def)
next
  case (11 s newH newC s')
  then show ?case by (auto dest!: setPreparedConfirmed_update simp: same_level_def ballotUpdate_def)
next
  case (12 s lo v hi n s')
  from setAcceptCommit_update[OF 12(5,1)] show ?case by (simp add: same_level_def ballotUpdate_def)
next
  case (13 s cm0 v lo n hi s1 s2 cm)
  from setConfirmCommit_update[OF 13(7)] 13(9) show ?case by (simp add: same_level_def ballotUpdate_def)
qed (auto simp: same_level_def)

section \<open>Termination\<close>

lemma filterE_no_div: "(\<And>x. p x \<noteq> Inl Diverges) \<Longrightarrow> filterE p xs \<noteq> Inl Diverges"
  by (induction xs) (auto simp: bindE_Inl_iff)

lemma quorumLoop_no_div: "quorumLoop m qfun ns \<noteq> Inl Diverges"
proof (induction m qfun ns rule: quorumLoop.induct)
  case (1 m qfun ns)
  have "filterE (quorumFilter m qfun ns) ns \<noteq> Inl Diverges"
    by (rule filterE_no_div) (auto simp: quorumFilter_def bindE_Inl_iff)
  then show ?case using 1 by (subst quorumLoop.simps) (auto simp: bindE_Inl_iff)
qed

lemma voting_no_div [simp]:
  "isQuorum q m qfun P \<noteq> Inl Diverges" "federatedAccept c voted accepted envs \<noteq> Inl Diverges"
  "federatedRatify c voted envs \<noteq> Inl Diverges"
  by (auto simp: isQuorum_def federatedAccept_def federatedRatify_def bindE_Inl_iff quorumLoop_no_div)

lemma isStatementSane_no_div [simp]: "isStatementSane c st self \<noteq> Inl Diverges"
  by (auto simp: isStatementSane_def bindE_Inl_iff split: SCPPledges.splits if_splits)

lemma checkInvariants_no_div [simp]: "checkInvariants s \<noteq> Inl Diverges"
  by (auto simp: checkInvariants_def bindE_Inl_iff split: SCPPhase.splits option.splits)

lemma createStatement_no_div [simp]: "createStatement c s \<noteq> Inl Diverges"
  by (auto simp: createStatement_def bindE_Inl_iff split: SCPPhase.splits)

lemma bumpToBallot_no_div [simp]: "bumpToBallot b check s \<noteq> Inl Diverges"
  by (auto simp: bumpToBallot_def startBallotProtocolTimer_def bindE_Inl_iff Let_def split: if_splits)

lemma updateCurrentIfNeeded_no_div [simp]: "updateCurrentIfNeeded s \<noteq> Inl Diverges"
  by (auto simp: updateCurrentIfNeeded_def bindE_Inl_iff split: option.splits if_splits)

lemma updateCurrentValue_no_div [simp]: "updateCurrentValue b s \<noteq> Inl Diverges"
  by (auto simp: updateCurrentValue_def bindE_Inl_iff Let_def split: option.splits if_splits)

lemma set_state_no_div [simp]:
  "setPreparedAccept_state b s \<noteq> Inl Diverges" "setPreparedConfirmed_state newC newH s \<noteq> Inl Diverges"
  "setAcceptCommit_state cm h s \<noteq> Inl Diverges" "setConfirmCommit_state cm h s \<noteq> Inl Diverges"
  by (auto simp: setPreparedAccept_state_def setPreparedConfirmed_state_def setAcceptCommit_state_def
      setConfirmCommit_state_def bindE_Inl_iff Let_def split: prod.splits option.splits if_splits)

lemma candidates_no_div [simp]:
  "skipCandidate b s \<noteq> Inl Diverges" "getPrepareCandidates hint s \<noteq> Inl Diverges"
  "getCommitBoundariesFromStatements b s \<noteq> Inl Diverges" "acceptCommitHint hint \<noteq> Inl Diverges"
  "confirmCommitHint hint \<noteq> Inl Diverges"
  by (auto simp: skipCandidate_def getPrepareCandidates_def hintBallots_def bindE_Inl_iff
      getCommitBoundariesFromStatements_def acceptCommitHint_def confirmCommitHint_def
      split: SCPPledges.splits if_splits)

lemma loops_no_div [simp]:
  "findNewH c bs s \<noteq> Inl Diverges" "findNewC c b bs newC s \<noteq> Inl Diverges"
  by (induction bs arbitrary: newC) (auto simp: bindE_Inl_iff)

lemma findExtendedInterval_no_div:
  "(\<And>i. pred i \<noteq> Inl Diverges) \<Longrightarrow> findExtendedInterval pred bs cand \<noteq> Inl Diverges"
  by (induction bs arbitrary: cand) (auto simp: bindE_Inl_iff Let_def split: if_splits)

text \<open>At one level of recursion: the recursive call returns, so every operation does.\<close>

definition returns :: "advance \<Rightarrow> nat \<Rightarrow> bool" where
  "returns adv l \<longleftrightarrow> (\<forall>hint s. mCurrentMessageLevel s = l \<longrightarrow> adv hint s \<noteq> Inl Diverges)"

lemma processEnvelope_no_div:
  "returns adv (mCurrentMessageLevel s) \<Longrightarrow> processEnvelope c adv env self s \<noteq> Inl Diverges"
  by (auto simp: processEnvelope_def Let_def bindE_Inl_iff returns_def split: if_splits)

lemma emit_no_div:
  "returns adv (mCurrentMessageLevel s) \<Longrightarrow> emitCurrentStateStatement c adv s \<noteq> Inl Diverges"
  using processEnvelope_no_div[of adv s c _ True]
  by (auto simp: emitCurrentStateStatement_def Let_def bindE_Inl_iff split: if_splits)

lemma notifyAndEmit_no_div:
  "returns adv (mCurrentMessageLevel s) \<Longrightarrow> notifyAndEmit c adv e (w, s) \<noteq> Inl Diverges"
  using emit_no_div[of adv "notify e s" c] by (auto simp: notifyAndEmit_def bindE_Inl_iff split: if_splits)

lemma set_state_level:
  "setPreparedAccept_state b s = Inr (w, s') \<Longrightarrow> mCurrentMessageLevel s' = mCurrentMessageLevel s"
  "setPreparedConfirmed_state newC newH s = Inr (w, s') \<Longrightarrow> mCurrentMessageLevel s' = mCurrentMessageLevel s"
  "active s \<Longrightarrow> setAcceptCommit_state cm h s = Inr (w, s') \<Longrightarrow> mCurrentMessageLevel s' = mCurrentMessageLevel s"
  "setConfirmCommit_state cm h s = Inr s' \<Longrightarrow> mCurrentMessageLevel s' = mCurrentMessageLevel s"
  "updateCurrentValue b s = Inr (w, s') \<Longrightarrow> mCurrentMessageLevel s' = mCurrentMessageLevel s"
  using setPreparedAccept_update[of b s w s'] setPreparedConfirmed_update[of newC newH s s']
    setPreparedConfirmed_state_False[of newC newH s s'] setAcceptCommit_update[of cm h s s']
    setAcceptCommit_state_False[of cm h s s'] setConfirmCommit_update[of cm h s s']
    updateCurrentValue_False[of b s s'] updateCurrentValue_True[of b s s']
  by (cases w; simp add: ballotUpdate_def; fail | cases w; auto simp: ballotUpdate_def)+

lemma setOps_no_div:
  assumes "returns adv (mCurrentMessageLevel s)"
  shows "setPreparedAccept c adv b s \<noteq> Inl Diverges"
    "setPreparedConfirmed c adv newC newH s \<noteq> Inl Diverges"
    "active s \<Longrightarrow> setAcceptCommit c adv cm h s \<noteq> Inl Diverges"
    "setConfirmCommit c adv cm h s \<noteq> Inl Diverges"
    "bumpState_counter c adv v n s \<noteq> Inl Diverges"
  using assms
  by (auto simp: setPreparedAccept_def setPreparedConfirmed_def setAcceptCommit_def setConfirmCommit_def
      bumpState_counter_def Let_def bindE_Inl_iff notifyAndEmit_no_div emit_no_div
      dest!: set_state_level split: if_splits)

lemma bumps_no_div:
  assumes "returns adv (mCurrentMessageLevel s)"
  shows "bumpState c adv v force s \<noteq> Inl Diverges" "abandonBallot c adv n s \<noteq> Inl Diverges"
    "attemptBump c adv s \<noteq> Inl Diverges"
proof -
  show *: "bumpState c adv v force s \<noteq> Inl Diverges" for v force
    using setOps_no_div(5)[OF assms] by (simp add: bumpState_def)
  show **: "abandonBallot c adv n s \<noteq> Inl Diverges" for n
    using * setOps_no_div(5)[OF assms] by (simp add: abandonBallot_def Let_def)
  show "attemptBump c adv s \<noteq> Inl Diverges"
    using ** by (auto simp: attemptBump_def Let_def bindE_Inl_iff split: option.splits if_splits)
qed

lemma acceptLoop_no_div:
  "returns adv (mCurrentMessageLevel s) \<Longrightarrow> acceptLoop c adv bs s \<noteq> Inl Diverges"
  by (induction bs) (auto simp: bindE_Inl_iff setOps_no_div)

lemma attempts_no_div:
  assumes "returns adv (mCurrentMessageLevel s)"
  shows "attemptPreparedAccept c adv hint s \<noteq> Inl Diverges"
    "attemptPreparedConfirmed c adv hint s \<noteq> Inl Diverges"
    "attemptAcceptCommit c adv hint s \<noteq> Inl Diverges"
    "attemptConfirmCommit c adv hint s \<noteq> Inl Diverges"
proof -
  show "attemptPreparedAccept c adv hint s \<noteq> Inl Diverges"
    using acceptLoop_no_div[OF assms] by (auto simp: attemptPreparedAccept_def bindE_Inl_iff)
  show "attemptPreparedConfirmed c adv hint s \<noteq> Inl Diverges"
    using setOps_no_div(2)[OF assms]
    by (auto simp: attemptPreparedConfirmed_def Let_def bindE_Inl_iff split: list.splits if_splits)
  show "attemptAcceptCommit c adv hint s \<noteq> Inl Diverges"
    using setOps_no_div(3)[OF assms] findExtendedInterval_no_div
    by (auto simp: attemptAcceptCommit_def active_def bindE_Inl_iff split: option.splits if_splits)
  show "attemptConfirmCommit c adv hint s \<noteq> Inl Diverges"
    using setOps_no_div(4)[OF assms] findExtendedInterval_no_div
    by (auto simp: attemptConfirmCommit_def bindE_Inl_iff split: option.splits if_splits)
qed

text \<open>The bump loop: each round that bumps raises the counter, or a phase has been left.\<close>

definition remaining :: "Slot \<Rightarrow> nat" where
  "remaining s = (2 - phaseRank (mPhase s)) * (2 ^ 32 + 2) + (2 ^ 32 + 1 - currentRank s)"

lemma currentRank_le: "currentRank s \<le> 2 ^ 32"
proof (cases "mCurrentBallot s")
  case (Some b)
  have "unat (counter b) < 2 ^ LENGTH(32)" by (rule unsigned_less)
  then show ?thesis using Some by (simp add: currentRank_def)
qed (simp add: currentRank_def)

lemma phaseRank_le: "phaseRank p \<le> 2"
  by (cases p) auto

lemma remaining_less:
  assumes "forward s s'" "mPhase s = mPhase s' \<Longrightarrow> currentRank s < currentRank s'"
  shows "remaining s' < remaining s"
proof (cases "mPhase s = mPhase s'")
  case True
  then show ?thesis using assms(2) currentRank_le[of s'] by (simp add: remaining_def)
next
  case False
  then have "phaseRank (mPhase s) < phaseRank (mPhase s')" using assms(1) by (simp add: forward_def)
  moreover from this obtain k where "2 - phaseRank (mPhase s) = Suc (2 - phaseRank (mPhase s') + k)"
    using phaseRank_le[of "mPhase s'"] by (metis Suc_diff_le diff_Suc_Suc diff_is_0_eq le_add_diff_inverse2
        less_imp_Suc_add add.commute Nat.diff_cancel2 add_Suc_right diff_less_mono2 less_le_trans)
  ultimately show ?thesis using currentRank_le[of s] by (simp add: remaining_def)
qed

lemma bumpTarget_greater: "bumpTarget c t ns s = Some n \<Longrightarrow> t < n"
  by (induction ns) (auto simp: Let_def split: if_splits)

lemma attemptBump_raises:
  assumes adv: "forward.keeps adv" and run: "attemptBump c adv s = Inr (True, s')"
  shows "remaining s' < remaining s"
proof -
  let ?t = "case mCurrentBallot s of None \<Rightarrow> 0 | Some b \<Rightarrow> counter b"
  obtain n v where n: "?t < n" and bump: "bumpState_counter c adv v n s = Inr (True, s')"
  proof -
    from run obtain ns n where t: "bumpTarget c ?t ns s = Some n" and a: "abandonBallot c adv n s = Inr (True, s')"
      by (auto simp: attemptBump_def Let_def bindE_Inr_iff split: if_splits option.splits)
    have "n \<noteq> 0" using bumpTarget_greater[OF t] by auto
    then show thesis
      using a that[OF bumpTarget_greater[OF t]] by (auto simp: abandonBallot_def Let_def split: if_splits)
  qed
  let ?b = "SCPBallot n (case mHighBallot s of None \<Rightarrow> v | Some h \<Rightarrow> bvalue h)"
  from bump obtain w1 s1 where upd: "updateCurrentValue ?b s = Inr (w1, s1)"
    and emit: "notifyAndEmit c adv (StartedBallotProtocol (mSlotIndex s) ?b) (w1, s1) = Inr (True, s')"
    by (auto simp: bumpState_counter_def Let_def bindE_Inr_iff split: if_splits)
  have w1: w1 using emit by (auto simp: notifyAndEmit_def split: if_splits)
  have s1: "forward s s1" using upd w1 forward_bump by auto
  have "mCurrentBallot s1 = Some ?b" "mPhase s1 = mPhase s"
    using upd w1 by (auto simp: updateCurrentValue_True)
  then have c1: "currentRank s < currentRank s1" "mPhase s1 = mPhase s"
    using n by (auto simp: currentRank_def word_less_nat_alt split: option.splits)
  have s2: "forward s1 s'"
    using forward.notifyAndEmit_R[OF adv _ emit] w1 by (simp add: monitoring_def)
  show ?thesis
    by (rule remaining_less[OF forward_trans[OF s1 s2]]) (use s2 c1 in \<open>auto simp: forward_def\<close>)
qed

lemma bumpLoop_no_div:
  assumes fwd: "forward.keeps adv" and lev: "level.keeps adv"
    and ret: "returns adv (mCurrentMessageLevel s)"
  shows "bumpLoop c adv w s \<noteq> Inl Diverges"
proof -
  let ?b = "\<lambda>x :: failure + bool \<times> bool \<times> Slot. case x of Inr (didBump, dw, s') \<Rightarrow> didBump | Inl _ \<Rightarrow> False"
  let ?c = "\<lambda>x. bindE x (\<lambda>(didBump, dw, s'). bindE (attemptBump c adv s') (\<lambda>(b, s''). Inr (b, b \<or> dw, s'')))"
  let ?P = "\<lambda>x :: failure + bool \<times> bool \<times> Slot. case x of Inr (_, _, s') \<Rightarrow> same_level s s' | Inl e \<Rightarrow> e \<noteq> Diverges"
  let ?f = "\<lambda>x :: failure + bool \<times> bool \<times> Slot. case x of Inr (b, _, s') \<Rightarrow> if b then Suc (remaining s') else 0 | Inl _ \<Rightarrow> 0"
  have step: "?P (?c x) \<and> (?b x \<longrightarrow> ?f (?c x) < ?f x)" if P: "?P x" for x
  proof (cases x)
    case (Inr y)
    then obtain d dw t where x: "x = Inr (d, dw, t)" by (cases y) auto
    then have t: "same_level s t" using P by simp
    then have "returns adv (mCurrentMessageLevel t)" using ret by (simp add: same_level_def)
    from bumps_no_div(3)[OF this] have "attemptBump c adv t \<noteq> Inl Diverges" .
    then show ?thesis
      using x t level.attemptBump_R[OF lev, of c t] attemptBump_raises[OF fwd, of c t]
      by (cases "attemptBump c adv t") (auto simp: same_level_def)
  qed (use P in simp)
  have "\<exists>t. while_option ?b ?c (Inr (True, w, s)) = Some t"
    by (rule measure_while_option_Some[where P = ?P and f = ?f]) (use step in \<open>auto simp: same_level_def\<close>)
  then obtain t where t: "while_option ?b ?c (Inr (True, w, s)) = Some t" ..
  have "?P t" by (rule while_option_rule[where P = ?P, OF _ t]) (use step in \<open>auto simp: same_level_def\<close>)
  then show ?thesis using t by (auto simp: bumpLoop_def bindE_Inl_iff split: sum.splits)
qed

lemma attemptAll_no_div:
  assumes lev: "level.keeps adv" and ret: "returns adv (mCurrentMessageLevel s)"
  shows "attemptAll c adv hint s \<noteq> Inl Diverges"
proof -
  note same = level.attemptPreparedAccept_R[OF lev] level.attemptPreparedConfirmed_R[OF lev]
    level.attemptAcceptCommit_R[OF lev]
  show ?thesis
    unfolding attemptAll_def using ret
    by (auto simp: bindE_Inl_iff attempts_no_div dest!: same[unfolded same_level_def])
qed

lemma advanceSlot_fuel_no_div:
  "mCurrentMessageLevel s < MAX_ADVANCE_SLOT_RECURSION \<Longrightarrow>
   MAX_ADVANCE_SLOT_RECURSION \<le> mCurrentMessageLevel s + n \<Longrightarrow> advanceSlot_fuel n c hint s \<noteq> Inl Diverges"
proof (induction n arbitrary: hint s)
  case (Suc n)
  let ?adv = "advanceSlot_fuel n c" and ?s0 = "s\<lparr>mCurrentMessageLevel := mCurrentMessageLevel s + 1\<rparr>"
  have keeps: "forward.keeps ?adv" "level.keeps ?adv"
    by (rule forward.advanceSlot_fuel_R level.advanceSlot_fuel_R)+
  show ?case
  proof (cases "MAX_ADVANCE_SLOT_RECURSION \<le> mCurrentMessageLevel ?s0")
    case True
    then show ?thesis by (simp add: advanceBody_def)
  next
    case False
    have ret: "returns ?adv (mCurrentMessageLevel ?s0)"
      unfolding returns_def using Suc False by auto
    have heard: "checkHeardFromQuorum c ?s0 \<noteq> Inl Diverges"
      by (auto simp: checkHeardFromQuorum_def bindE_Inl_iff split: option.splits)
    have all: "attemptAll c ?adv hint t \<noteq> Inl Diverges" if "checkHeardFromQuorum c ?s0 = Inr t" for t
      using attemptAll_no_div[OF keeps(2)] ret level.checkHeardFromQuorum_R[OF that]
      by (simp add: same_level_def)
    have loop: "bumpLoop c ?adv w u \<noteq> Inl Diverges"
      if "checkHeardFromQuorum c ?s0 = Inr t" "attemptAll c ?adv hint t = Inr (w, u)" for t w u
      using bumpLoop_no_div[OF keeps] ret level.checkHeardFromQuorum_R[OF that(1)]
        level.attemptAll_R[OF keeps(2) that(2)] by (simp add: same_level_def)
    show ?thesis
      using False heard all loop unfolding advanceSlot_fuel.simps advanceBody_def Let_def
      by (auto simp: bindE_Inl_iff split: if_splits)
  qed
qed simp

text \<open>So a slot at rest, whose message level is 0, always gets an answer.\<close>

lemma advanceSlot_returns: "returns (advanceSlot c) 0"
  using advanceSlot_fuel_no_div[of _ MAX_ADVANCE_SLOT_RECURSION c]
  by (simp add: returns_def advanceSlot_def MAX_ADVANCE_SLOT_RECURSION_def)

end
