(* ===== verification/BallotSafety.thy ===== *)
theory BallotSafety
  imports BallotTermination
begin

text \<open>
  Invariants of the ballot protocol, each an instance of the contract: the latest statement of a
  node only gets newer and its quorum set is known; the value a node has accepted as committed
  never changes, in its state and in the statements it has made; a slot externalizes at most once,
  and only a value that a quorum has accepted to commit; the envelopes it sends get strictly newer.
\<close>

section \<open>Recorded envelopes\<close>

definition env_inv :: "SCPContext \<Rightarrow> Slot \<Rightarrow> bool" where
  "env_inv c s \<longleftrightarrow> omap_wf (mLatestEnvelopes s) \<and>
     (\<forall>(n, env) \<in> set (mLatestEnvelopes s).
        nodeID (statement env) = n \<and> isBallotStatement (statement env) \<and>
        slotIndex (statement env) = mSlotIndex s \<and>
        getQuorumSetFromStatement c (statement env) \<noteq> None \<and>
        statement env \<in> fst ` set (mStatementsHistory s))"

definition env_newer :: "envelopes \<Rightarrow> envelopes \<Rightarrow> bool" where
  "env_newer m m' \<longleftrightarrow> (\<forall>n e. map_of m n = Some e \<longrightarrow>
     (\<exists>e'. map_of m' n = Some e' \<and> (e' = e \<or> isNewerStatement (statement e) (statement e'))))"

definition env_rel :: "SCPContext \<Rightarrow> Slot \<Rightarrow> Slot \<Rightarrow> bool" where
  "env_rel c s s' \<longleftrightarrow> (env_inv c s \<longrightarrow> env_inv c s' \<and> env_newer (mLatestEnvelopes s) (mLatestEnvelopes s'))"

lemma env_newer_refl [simp]: "env_newer m m"
  by (auto simp: env_newer_def)

lemma env_newer_trans: "env_newer m m' \<Longrightarrow> env_newer m' m'' \<Longrightarrow> env_newer m m''"
  unfolding env_newer_def by (fast intro: isNewerStatement_trans)

lemma env_rel_same:
  "mLatestEnvelopes s' = mLatestEnvelopes s \<Longrightarrow> mStatementsHistory s' = mStatementsHistory s \<Longrightarrow>
   mSlotIndex s' = mSlotIndex s \<Longrightarrow> env_rel c s s'"
  by (simp add: env_rel_def env_inv_def)

lemma env_rel_update: "ballotUpdate s s' \<Longrightarrow> env_rel c s s'"
  by (rule env_rel_same) (simp_all add: ballotUpdate_def)

lemma isStatementSane_known:
  "isStatementSane c st self = Inr True \<Longrightarrow> getQuorumSetFromStatement c st \<noteq> None \<and> isBallotStatement st"
  by (cases "pledges st") (auto simp: isStatementSane_def bindE_Inr_iff isBallotStatement_def split: if_splits)

lemma env_rel_record:
  assumes sane: "isStatementSane c (statement env) self = Inr True"
    and idx: "slotIndex (statement env) = mSlotIndex s"
    and newer: "isNewerStatement_node s (nodeID (statement env)) (statement env)"
    and t: "mLatestEnvelopes t = mLatestEnvelopes s" "mStatementsHistory t = mStatementsHistory s"
      "mSlotIndex t = mSlotIndex s"
  shows "env_rel c s (recordEnvelope env t)"
  unfolding env_rel_def
proof
  assume inv: "env_inv c s"
  have "env_inv c (recordEnvelope env t)"
    using inv t idx isStatementSane_known[OF sane]
      set_map_put_subset[of "nodeID (statement env)" env "mLatestEnvelopes s"]
    by (force simp: env_inv_def)
  moreover have "env_newer (mLatestEnvelopes s) (mLatestEnvelopes (recordEnvelope env t))"
    using inv t newer
    by (auto simp: env_inv_def env_newer_def isNewerStatement_node_def split: option.splits)
  ultimately show "env_inv c (recordEnvelope env t) \<and>
      env_newer (mLatestEnvelopes s) (mLatestEnvelopes (recordEnvelope env t))" ..
qed

interpretation env: slot_contract c "\<lambda>_. True" "env_rel c" for c
proof (unfold_locales, goal_cases)
  case (2 s t u)
  then show ?case by (auto simp: env_rel_def intro: env_newer_trans)
next
  case (3 s t)
  then show ?case by (simp add: env_rel_def env_inv_def)
next
  case (7 env self s t)
  then show ?case by (auto intro: env_rel_record)
next
  case (9 s b n v s')
  then show ?case by (auto simp: updateCurrentValue_True intro: env_rel_update)
next
  case (10 s b s')
  then show ?case by (auto dest!: setPreparedAccept_update intro: env_rel_update)
next
  case (11 s newH newC s')
  then show ?case by (auto dest!: setPreparedConfirmed_update intro: env_rel_update)
next
  case (12 s lo v hi n s')
  from setAcceptCommit_update[OF 12(5,1)] show ?case by (auto intro: env_rel_update)
next
  case (13 s cm0 v lo n hi s1 s2 cm)
  then have "env_rel c s s1" by (auto dest: setConfirmCommit_update intro: env_rel_update)
  with 13(9) show ?case
    by (auto simp: env_rel_def env_inv_def intro: env_newer_trans)
qed (auto intro: env_rel_same)

lemma env_inv_known: "env_inv c s \<Longrightarrow> known_qsets c (mLatestEnvelopes s)"
  by (force simp: env_inv_def known_qsets_def)

section \<open>The committed value is locked\<close>

text \<open>What a statement claims to have accepted as committed.\<close>

definition claimedCommit :: "SCPStatement \<Rightarrow> Value option" where
  "claimedCommit st =
     (case pledges st of
        CONFIRM cf \<Rightarrow> Some (bvalue (c_ballot cf))
      | EXTERNALIZE e \<Rightarrow> Some (bvalue (e_commit e))
      | _ \<Rightarrow> None)"

definition committedValue :: "Slot \<Rightarrow> Value option" where
  "committedValue s =
     (if mPhase s = SCP_PHASE_PREPARE then None else map_option bvalue (mCommit s))"

definition lock_inv :: "SCPContext \<Rightarrow> Slot \<Rightarrow> bool" where
  "lock_inv c s \<longleftrightarrow>
     (mPhase s \<noteq> SCP_PHASE_PREPARE \<longrightarrow> checkInvariants s = Inr ()) \<and>
     (\<forall>st \<in> fst ` set (mStatementsHistory s).
        nodeID st = mNodeID c \<longrightarrow> claimedCommit st = None \<or> claimedCommit st = committedValue s)"

definition lock_rel :: "SCPContext \<Rightarrow> Slot \<Rightarrow> Slot \<Rightarrow> bool" where
  "lock_rel c s s' \<longleftrightarrow> (lock_inv c s \<longrightarrow> lock_inv c s' \<and>
     (committedValue s = None \<or> committedValue s' = committedValue s))"

lemma checkInvariants_cong:
  "mCurrentBallot s' = mCurrentBallot s \<Longrightarrow> mPrepared s' = mPrepared s \<Longrightarrow>
   mPreparedPrime s' = mPreparedPrime s \<Longrightarrow> mHighBallot s' = mHighBallot s \<Longrightarrow>
   mCommit s' = mCommit s \<Longrightarrow> mPhase s' = mPhase s \<Longrightarrow> checkInvariants s' = checkInvariants s"
  unfolding checkInvariants_def by (simp only:)

lemma checkInvariants_committed:
  "checkInvariants s = Inr () \<Longrightarrow> mPhase s \<noteq> SCP_PHASE_PREPARE \<Longrightarrow>
   \<exists>cm h b. mCommit s = Some cm \<and> mHighBallot s = Some h \<and> mCurrentBallot s = Some b \<and>
     cm \<le> h \<and> h \<le> b \<and> bvalue h = bvalue cm \<and> bvalue b = bvalue cm"
  by (cases "mPhase s")
     (auto simp: checkInvariants_def bindE_Inr_iff split: option.splits)

definition same_ballots :: "Slot \<Rightarrow> Slot \<Rightarrow> bool" where
  "same_ballots s s' \<longleftrightarrow> mCurrentBallot s' = mCurrentBallot s \<and> mPrepared s' = mPrepared s \<and>
     mPreparedPrime s' = mPreparedPrime s \<and> mHighBallot s' = mHighBallot s \<and>
     mCommit s' = mCommit s \<and> mPhase s' = mPhase s"

lemma lock_rel_same:
  assumes "same_ballots s s'" "mStatementsHistory s' = mStatementsHistory s"
  shows "lock_rel c s s'"
proof -
  have "checkInvariants s' = checkInvariants s" "committedValue s' = committedValue s"
    using assms(1) by (auto simp: same_ballots_def committedValue_def intro: checkInvariants_cong)
  then show ?thesis using assms by (simp add: lock_rel_def lock_inv_def same_ballots_def)
qed

lemma lock_rel_update:
  assumes "ballotUpdate s s'" "checkInvariants s' = Inr ()"
    and "committedValue s = None \<or> committedValue s' = committedValue s"
  shows "lock_rel c s s'"
  using assms by (auto simp: lock_rel_def lock_inv_def ballotUpdate_def)

lemma own_claim:
  assumes "ownEnvelope c s env"
  shows "claimedCommit (statement env) = None \<or> claimedCommit (statement env) = committedValue s"
proof -
  obtain st where st: "createStatement c s = Inr st" "env = createEnvelope c s st"
    using assms by (auto simp: ownEnvelope_def)
  from checkInvariants_committed[OF createStatement_invariants[OF st(1)]] st show ?thesis
    by (cases "mPhase s")
       (auto simp: createStatement_def bindE_Inr_iff claimedCommit_def committedValue_def)
qed

lemma lock_rel_record:
  assumes "if self then ownEnvelope c s env else nodeID (statement env) \<noteq> mNodeID c"
    and t: "t = s \<or> active s \<and> t = s\<lparr>mFullyValidated := False\<rparr>"
  shows "lock_rel c s (recordEnvelope env t)"
proof -
  have "checkInvariants (recordEnvelope env t) = checkInvariants s"
    "committedValue (recordEnvelope env t) = committedValue s"
    "mStatementsHistory t = mStatementsHistory s" "mPhase t = mPhase s"
    using t by (auto simp: committedValue_def intro: checkInvariants_cong)
  then show ?thesis
    using assms(1) own_claim[of c s env] by (auto simp: lock_rel_def lock_inv_def split: if_splits)
qed

lemma committedValue_commit:
  assumes "active s" "lock_inv c s"
    and "mPhase s = SCP_PHASE_CONFIRM \<Longrightarrow> \<exists>h. mHighBallot s = Some h \<and> bvalue h = v"
    and "mCommit s' = Some (SCPBallot lo v)" "mPhase s' = SCP_PHASE_CONFIRM"
  shows "committedValue s = None \<or> committedValue s' = committedValue s"
  using assms checkInvariants_committed[of s]
  by (auto simp: committedValue_def lock_inv_def active_def)

interpretation lock: slot_contract c "\<lambda>env. nodeID (statement env) \<noteq> mNodeID c" "lock_rel c" for c
proof (unfold_locales, goal_cases)
  case (2 s t u)
  then show ?case by (auto simp: lock_rel_def)
next
  case (3 s t)
  have "lock_rel c s (s\<lparr>mCurrentMessageLevel := mCurrentMessageLevel s + 1\<rparr>)"
    "lock_rel c t (t\<lparr>mCurrentMessageLevel := mCurrentMessageLevel t - 1\<rparr>)"
    by (rule lock_rel_same; simp add: same_ballots_def)+
  with 3 show ?case by (auto simp: lock_rel_def)
next
  case (7 env self s t)
  then show ?case by (intro lock_rel_record)
next
  case (9 s b n v s')
  then show ?case by (auto simp: updateCurrentValue_True committedValue_def intro!: lock_rel_update)
next
  case (10 s b s')
  then show ?case
    using setPreparedAccept_update[OF 10(4)] by (auto simp: committedValue_def intro!: lock_rel_update)
next
  case (11 s newH newC s')
  then show ?case by (auto dest!: setPreparedConfirmed_update simp: committedValue_def intro!: lock_rel_update)
next
  case (12 s lo v hi n s')
  from setAcceptCommit_update[OF 12(5,1)] 12(3)
  have "committedValue s = None \<or> committedValue s' = committedValue s" if "lock_inv c s"
    using committedValue_commit[OF 12(1) that] by blast
  with setAcceptCommit_update[OF 12(5,1)] 12(6) show ?case
    using lock_rel_update[of s s' c] by (auto simp: lock_rel_def)
next
  case (13 s cm0 v lo n hi s1 s2 cm)
  have "lock_rel c s s1"
    using setConfirmCommit_update[OF 13(7)] 13(1-3,8)
    by (intro lock_rel_update) (auto simp: committedValue_def)
  moreover have "lock_rel c s2 (notify (ValueExternalized (mSlotIndex s2) (bvalue cm)) (stopNomination s2))"
    by (rule lock_rel_same) (simp_all add: same_ballots_def)
  ultimately show ?case using 13(9) by (auto simp: lock_rel_def)
qed (auto intro!: lock_rel_same simp: same_ballots_def)

section \<open>Externalizing\<close>

definition externalizedValues :: "Slot \<Rightarrow> (uint64 \<times> Value) list" where
  "externalizedValues s =
     concat (map (\<lambda>e. case e of ValueExternalized i v \<Rightarrow> [(i, v)] | _ \<Rightarrow> []) (mTrace s))"

definition ext_inv :: "Slot \<Rightarrow> bool" where
  "ext_inv s \<longleftrightarrow>
     (if mPhase s = SCP_PHASE_EXTERNALIZE
      then \<exists>cm. mCommit s = Some cm \<and>
        (externalizedValues s = [] \<or> externalizedValues s = [(mSlotIndex s, bvalue cm)])
      else externalizedValues s = [])"

definition ext_rel :: "Slot \<Rightarrow> Slot \<Rightarrow> bool" where
  "ext_rel s s' \<longleftrightarrow> (ext_inv s \<longrightarrow> ext_inv s') \<and> mSlotIndex s' = mSlotIndex s \<and>
     (mPhase s = SCP_PHASE_EXTERNALIZE \<longrightarrow> mPhase s' = SCP_PHASE_EXTERNALIZE \<and> mCommit s' = mCommit s \<and>
        externalizedValues s' = externalizedValues s)"

lemma monitoring_externalized:
  "list_all monitoring es \<Longrightarrow> concat (map (\<lambda>e. case e of ValueExternalized i v \<Rightarrow> [(i, v)] | _ \<Rightarrow> []) es) = []"
  by (induction es) (auto simp: monitoring_def split: DriverEvent.splits)

lemma ext_rel_update:
  assumes "ballotUpdate s s'" "mPhase s \<noteq> SCP_PHASE_EXTERNALIZE" "mPhase s' \<noteq> SCP_PHASE_EXTERNALIZE"
  shows "ext_rel s s'"
proof -
  obtain es where "mTrace s' = mTrace s @ es" "list_all monitoring es" "mSlotIndex s' = mSlotIndex s"
    using assms(1) by (auto simp: ballotUpdate_def)
  then have "externalizedValues s' = externalizedValues s"
    by (simp add: externalizedValues_def monitoring_externalized)
  then show ?thesis using assms \<open>mSlotIndex s' = mSlotIndex s\<close> by (simp add: ext_rel_def ext_inv_def)
qed

lemma ext_rel_same:
  "mPhase s' = mPhase s \<Longrightarrow> mCommit s' = mCommit s \<Longrightarrow> mSlotIndex s' = mSlotIndex s \<Longrightarrow>
   externalizedValues s' = externalizedValues s \<Longrightarrow> ext_rel s s'"
  by (simp add: ext_rel_def ext_inv_def)

lemma externalizedValues_send [simp]: "externalizedValues (sendLatestEnvelope s) = externalizedValues s"
  using mTrace_sendLatestEnvelope[of s] by (auto simp: externalizedValues_def)

lemma externalizedValues_notify:
  "monitoring e \<Longrightarrow> externalizedValues (notify e s) = externalizedValues s"
  by (simp add: externalizedValues_def monitoring_def split: DriverEvent.splits)

lemma externalizedValues_level [simp]:
  "externalizedValues (s\<lparr>mCurrentMessageLevel := k\<rparr>) = externalizedValues s"
  by (simp add: externalizedValues_def)

lemma active_not_externalize: "active s \<Longrightarrow> mPhase s \<noteq> SCP_PHASE_EXTERNALIZE"
  by (auto simp: active_def)

interpretation ext: slot_contract c "\<lambda>_. True" ext_rel for c
proof (unfold_locales, goal_cases)
  case (2 s t u)
  then show ?case by (auto simp: ext_rel_def)
next
  case (3 s t)
  have "ext_rel s (s\<lparr>mCurrentMessageLevel := mCurrentMessageLevel s + 1\<rparr>)"
    "ext_rel t (t\<lparr>mCurrentMessageLevel := mCurrentMessageLevel t - 1\<rparr>)"
    by (rule ext_rel_same; simp)+
  with 3 show ?case by (auto simp: ext_rel_def)
next
  case (7 env self s t)
  then show ?case by (auto intro!: ext_rel_same simp: externalizedValues_def)
next
  case (9 s b n v s')
  then show ?case
    by (auto simp: updateCurrentValue_True dest: active_not_externalize intro!: ext_rel_update)
next
  case (10 s b s')
  then show ?case
    using setPreparedAccept_update[OF 10(4)] by (auto dest: active_not_externalize intro!: ext_rel_update)
next
  case (11 s newH newC s')
  then show ?case by (auto dest!: setPreparedConfirmed_update intro!: ext_rel_update)
next
  case (12 s lo v hi n s')
  from setAcceptCommit_update[OF 12(5,1)] 12(1) show ?case
    by (auto dest: active_not_externalize intro!: ext_rel_update)
next
  case (13 s cm0 v lo n hi s1 s2 cm)
  note s1 = setConfirmCommit_update[OF 13(7)]
  obtain es where es: "mTrace s1 = mTrace s @ es" "list_all monitoring es"
    using s1 by (auto simp: ballotUpdate_def)
  have "externalizedValues s2 = externalizedValues s1" "mPhase s2 = SCP_PHASE_EXTERNALIZE"
    "mSlotIndex s2 = mSlotIndex s1"
    using 13(9) s1 by (auto simp: ext_rel_def)
  moreover have "externalizedValues s1 = externalizedValues s"
    using es by (simp add: externalizedValues_def monitoring_externalized)
  ultimately show ?case
    using 13(1,10) s1 by (auto simp: ext_rel_def ext_inv_def ballotUpdate_def)
      (auto simp: externalizedValues_def)
next
  case (5 e s)
  then show ?case by (intro ext_rel_same) (simp_all add: externalizedValues_notify)
next
  case (6 s)
  show ?case by (rule ext_rel_same) simp_all
qed (auto intro!: ext_rel_same simp: externalizedValues_def)

text \<open>An externalized value has been ratified: a quorum of recorded statements accepts to commit
  it.\<close>

definition ratifiedCommit :: "SCPContext \<Rightarrow> Slot \<Rightarrow> Value \<Rightarrow> bool" where
  "ratifiedCommit c s v \<longleftrightarrow>
     (\<exists>envs n lo hi. known_qsets c envs \<and>
        (\<forall>(k, env) \<in> set envs. nodeID (statement env) = k \<and> statement env \<in> fst ` set (mStatementsHistory s)) \<and>
        lo \<noteq> 0 \<and> federatedRatify c (commitPredicate (SCPBallot n v) (lo, hi)) envs = Inr True)"

definition rat_inv :: "SCPContext \<Rightarrow> Slot \<Rightarrow> bool" where
  "rat_inv c s \<longleftrightarrow> env_inv c s \<and>
     (mPhase s = SCP_PHASE_EXTERNALIZE \<longrightarrow> (\<exists>cm. mCommit s = Some cm \<and> ratifiedCommit c s (bvalue cm)))"

definition rat_rel :: "SCPContext \<Rightarrow> Slot \<Rightarrow> Slot \<Rightarrow> bool" where
  "rat_rel c s s' \<longleftrightarrow> (rat_inv c s \<longrightarrow> rat_inv c s')"

lemma ratifiedCommit_mono:
  assumes "ratifiedCommit c s v" "set (mStatementsHistory s) \<subseteq> set (mStatementsHistory s')"
  shows "ratifiedCommit c s' v"
proof -
  have "fst ` set (mStatementsHistory s) \<subseteq> fst ` set (mStatementsHistory s')"
    using assms(2) by (rule image_mono)
  with assms(1) show ?thesis unfolding ratifiedCommit_def by fast
qed

lemma rat_rel_intro:
  assumes "env_rel c s s'" "set (mStatementsHistory s) \<subseteq> set (mStatementsHistory s')"
    and "mPhase s' = SCP_PHASE_EXTERNALIZE \<Longrightarrow> mPhase s = SCP_PHASE_EXTERNALIZE \<and> mCommit s' = mCommit s"
  shows "rat_rel c s s'"
  using assms ratifiedCommit_mono[OF _ assms(2)]
  by (auto simp: rat_rel_def rat_inv_def env_rel_def)

lemma rat_inv_externalize:
  assumes inv: "rat_inv c s"
    and rat: "federatedRatify c (commitPredicate (SCPBallot n v) (lo, hi)) (mLatestEnvelopes s) = Inr True"
      "lo \<noteq> 0"
    and s1: "ballotUpdate s s1" "mCommit s1 = Some (SCPBallot lo v)"
  shows "rat_inv c s1"
proof -
  have env: "env_inv c s1" using inv env_rel_update[OF s1(1), of c] by (simp add: env_rel_def rat_inv_def)
  have "mLatestEnvelopes s1 = mLatestEnvelopes s" using s1(1) by (simp add: ballotUpdate_def)
  then have "ratifiedCommit c s1 v"
    using env rat env_inv_known[OF env] unfolding ratifiedCommit_def env_inv_def by fastforce
  then show ?thesis using env s1(2) by (simp add: rat_inv_def)
qed

interpretation rat: slot_contract c "\<lambda>_. True" "rat_rel c" for c
proof (unfold_locales, goal_cases)
  case (2 s t u)
  then show ?case by (auto simp: rat_rel_def)
next
  case (3 s t)
  then show ?case by (simp add: rat_rel_def rat_inv_def env_inv_def ratifiedCommit_def)
next
  case (7 env self s t)
  then have "env_rel c s (recordEnvelope env t)" by (auto intro: env_rel_record)
  with 7 show ?case by (intro rat_rel_intro) auto
next
  case (9 s b n v s')
  then show ?case
    by (auto simp: updateCurrentValue_True dest: active_not_externalize intro!: rat_rel_intro env_rel_update)
next
  case (10 s b s')
  then show ?case
    using setPreparedAccept_update[OF 10(4)] active_not_externalize[OF 10(1)]
    by (intro rat_rel_intro env_rel_update) (auto simp: ballotUpdate_def)
next
  case (11 s newH newC s')
  from setPreparedConfirmed_update[OF 11(5)] 11(1) show ?case
    by (intro rat_rel_intro env_rel_update) (auto simp: ballotUpdate_def)
next
  case (12 s lo v hi n s')
  from setAcceptCommit_update[OF 12(5,1)] show ?case
    by (intro rat_rel_intro env_rel_update) (auto simp: ballotUpdate_def)
next
  case (13 s cm0 v lo n hi s1 s2 cm)
  have "rat_rel c s s1"
    using rat_inv_externalize[OF _ 13(6,5)] setConfirmCommit_update[OF 13(7)] by (simp add: rat_rel_def)
  moreover have "rat_rel c s2 (notify (ValueExternalized (mSlotIndex s2) (bvalue cm)) (stopNomination s2))"
    by (intro rat_rel_intro env_rel_same) auto
  ultimately show ?case using 13(9) by (auto simp: rat_rel_def)
qed (auto intro!: rat_rel_intro env_rel_same)

section \<open>Emitting\<close>

definition emittedBallots :: "Slot \<Rightarrow> SCPStatement list" where
  "emittedBallots s =
     concat (map (\<lambda>e. case e of
         EmitEnvelope env \<Rightarrow> (if isBallotStatement (statement env) then [statement env] else [])
       | _ \<Rightarrow> []) (mTrace s))"

text \<open>\<open>notOlder a b\<close>: \<open>b\<close> is \<open>a\<close> or newer.\<close>

definition notOlder :: "SCPStatement \<Rightarrow> SCPStatement \<Rightarrow> bool" where
  "notOlder a b \<longleftrightarrow> a = b \<or> isNewerStatement a b"

definition emit_inv :: "SCPContext \<Rightarrow> Slot \<Rightarrow> bool" where
  "emit_inv c s \<longleftrightarrow>
     sorted_wrt isNewerStatement (emittedBallots s) \<and>
     (\<forall>st \<in> set (emittedBallots s). nodeID st = mNodeID c) \<and>
     (case mLastEnvelope s of
        None \<Rightarrow> mLastEnvelopeEmit s = None \<and> emittedBallots s = []
      | Some (k, e) \<Rightarrow>
          isBallotStatement (statement e) \<and> nodeID (statement e) = mNodeID c \<and>
          (case mLastEnvelopeEmit s of
             None \<Rightarrow> emittedBallots s = []
           | Some (k', e') \<Rightarrow>
               (k' = k \<and> e' = e \<or> k' < k \<and> isNewerStatement (statement e') (statement e)) \<and>
               (\<forall>st \<in> set (emittedBallots s). notOlder st (statement e'))))"

lemma emit_inv_same:
  "mLastEnvelope s' = mLastEnvelope s \<Longrightarrow> mLastEnvelopeEmit s' = mLastEnvelopeEmit s \<Longrightarrow>
   emittedBallots s' = emittedBallots s \<Longrightarrow> emit_inv c s \<longrightarrow> emit_inv c s'"
  unfolding emit_inv_def by (simp only: simp_thms)

lemma monitoring_emitted:
  "list_all monitoring es \<Longrightarrow> concat (map (\<lambda>e. case e of
       EmitEnvelope env \<Rightarrow> (if isBallotStatement (statement env) then [statement env] else [])
     | _ \<Rightarrow> []) es) = []"
  by (induction es) (auto simp: monitoring_def split: DriverEvent.splits)

lemma emittedBallots_extend:
  "list_all monitoring es \<Longrightarrow> mTrace s' = mTrace s @ es \<Longrightarrow> emittedBallots s' = emittedBallots s"
  by (simp add: emittedBallots_def monitoring_emitted)

lemma emit_inv_update: "ballotUpdate s s' \<Longrightarrow> emit_inv c s \<longrightarrow> emit_inv c s'"
  by (rule emit_inv_same) (auto simp: ballotUpdate_def intro: emittedBallots_extend)

lemma notOlder_trans: "notOlder a b \<Longrightarrow> isNewerStatement b d \<Longrightarrow> isNewerStatement a d"
  by (auto simp: notOlder_def intro: isNewerStatement_trans)

lemma emit_inv_last:
  assumes "isBallotStatement (statement env)" "nodeID (statement env) = mNodeID c" "lastIsOlder s env"
  shows "emit_inv c s \<longrightarrow> emit_inv c (s\<lparr>mLastEnvelope := freshPtr (mLastEnvelope s) env\<rparr>)"
proof
  let ?s = "s\<lparr>mLastEnvelope := freshPtr (mLastEnvelope s) env\<rparr>"
  assume inv: "emit_inv c s"
  have em: "emittedBallots ?s = emittedBallots s" by (simp add: emittedBallots_def)
  show "emit_inv c ?s"
  proof (cases "mLastEnvelope s")
    case None
    then show ?thesis using inv assms(1,2) em by (simp add: emit_inv_def freshPtr_def)
  next
    case (Some p)
    then obtain k e where p: "mLastEnvelope s = Some (k, e)" by (cases p) auto
    then have "isNewerStatement (statement e) (statement env)" using assms(3) by (simp add: lastIsOlder_def)
    then show ?thesis
      using inv assms(1,2) em p isNewerStatement_trans[of _ "statement e" "statement env"]
      by (auto simp: emit_inv_def freshPtr_def split: option.splits)
  qed
qed

lemma emit_inv_send:
  assumes inv: "emit_inv c s"
  shows "emit_inv c (sendLatestEnvelope s)"
  using mTrace_sendLatestEnvelope[of s]
proof (elim disjE conjE exE)
  assume "mTrace (sendLatestEnvelope s) = mTrace s"
    "mLastEnvelopeEmit (sendLatestEnvelope s) = mLastEnvelopeEmit s"
  then show ?thesis
    using inv emit_inv_same[of "sendLatestEnvelope s" s c] by (simp add: emittedBallots_def)
next
  fix k e
  assume last: "mLastEnvelope s = Some (k, e)"
    and tr: "mTrace (sendLatestEnvelope s) = mTrace s @ [EmitEnvelope e]"
    and emit: "mLastEnvelopeEmit (sendLatestEnvelope s) = Some (k, e)"
    and fresh: "case mLastEnvelopeEmit s of None \<Rightarrow> True | Some (k', e') \<Rightarrow> k \<noteq> k'"
  have e: "isBallotStatement (statement e)" "nodeID (statement e) = mNodeID c"
    using inv last by (auto simp: emit_inv_def)
  have older: "isNewerStatement st (statement e)" if "st \<in> set (emittedBallots s)" for st
    using inv last fresh that notOlder_trans by (fastforce simp: emit_inv_def split: option.splits)
  have "emittedBallots (sendLatestEnvelope s) = emittedBallots s @ [statement e]"
    using tr e by (simp add: emittedBallots_def)
  then show ?thesis
    using inv last emit e older by (auto simp: emit_inv_def sorted_wrt_append notOlder_def)
qed

interpretation emitted: slot_contract c "\<lambda>_. True" "\<lambda>s s'. emit_inv c s \<longrightarrow> emit_inv c s'" for c
proof (unfold_locales, goal_cases)
  case (2 s t u)
  then show ?case by auto
next
  case (3 s t)
  have "emit_inv c s \<longrightarrow> emit_inv c (s\<lparr>mCurrentMessageLevel := mCurrentMessageLevel s + 1\<rparr>)"
    "emit_inv c t \<longrightarrow> emit_inv c (t\<lparr>mCurrentMessageLevel := mCurrentMessageLevel t - 1\<rparr>)"
    by (rule emit_inv_same; simp add: emittedBallots_def)+
  with 3 show ?case by auto
next
  case (6 s)
  then show ?case by (simp add: emit_inv_send)
next
  case (7 env self s t)
  then show ?case by (intro emit_inv_same) (auto simp: emittedBallots_def)
next
  case (8 env s s0)
  then show ?case by (intro emit_inv_last)
next
  case (9 s b n v s')
  then show ?case using emit_inv_update[of s s' c] by (auto simp: updateCurrentValue_True)
next
  case (10 s b s')
  then show ?case using emit_inv_update[of s s' c] setPreparedAccept_update[OF 10(4)] by auto
next
  case (11 s newH newC s')
  then show ?case using emit_inv_update[of s s' c] setPreparedConfirmed_update[OF 11(5)] by auto
next
  case (12 s lo v hi n s')
  then show ?case using emit_inv_update[of s s' c] setAcceptCommit_update[OF 12(5,1)] by auto
next
  case (13 s cm0 v lo n hi s1 s2 cm)
  have "emit_inv c s2 \<longrightarrow> emit_inv c (notify (ValueExternalized (mSlotIndex s2) (bvalue cm)) (stopNomination s2))"
    by (rule emit_inv_same) (auto simp: emittedBallots_def)
  with 13(9) emit_inv_update[of s s1 c] setConfirmCommit_update[OF 13(7)] show ?case by auto
next
  case (5 e s)
  then show ?case by (intro emit_inv_same emittedBallots_extend[of "[e]"]) auto
next
  case (4 s)
  show ?case by (rule emit_inv_same) (auto simp: emittedBallots_def)
qed simp

end
