(* ===== verification/NominationProtocol.thy ===== *)
theory NominationProtocol
  imports BallotSafety
begin

text \<open>
  The nomination protocol, \<^verbatim>\<open>scp/NominationProtocol.cpp\<close>: the values a node votes for,
  accepts and confirms before ballots start. A \<open>std::set\<close> of values or nodes is a list in order.
  \<open>processEnvelope\<close> reaches itself through \<open>emitNomination\<close>; the recursive call is the
  argument \<open>rec\<close>. Callbacks of the driver do not enter the slot again.
\<close>

section \<open>Comparing nominations\<close>

text \<open>\<open>std::includes\<close> on two ranges, walked in step.\<close>

fun std_includes :: "'a::linorder list \<Rightarrow> 'a list \<Rightarrow> bool" where
  "std_includes as [] = True"
| "std_includes [] (b # bs) = False"
| "std_includes (a # as) (b # bs) =
     (if b < a then False
      else if a < b then std_includes as (b # bs)
      else std_includes as bs)"

text \<open>The result and the out-parameter \<open>notEqual\<close>.\<close>

definition isSubsetHelper :: "Value list \<Rightarrow> Value list \<Rightarrow> bool \<times> bool" where
  "isSubsetHelper p v =
     (if length p \<le> length v
      then (let res = std_includes v p in (res, if res then length p \<noteq> length v else True))
      else (False, True))"

definition isNewerNomination :: "SCPNomination \<Rightarrow> SCPNomination \<Rightarrow> bool" where
  "isNewerNomination oldst st =
     (case isSubsetHelper (n_votes oldst) (n_votes st) of (ok, g) \<Rightarrow>
      if ok
      then (case isSubsetHelper (n_accepted oldst) (n_accepted st) of (ok', g') \<Rightarrow>
            if ok' then g \<or> g' else False)
      else False)"

text \<open>\<open>pledges.nominate()\<close>; only nominations are recorded by this protocol.\<close>

definition nominateOf :: "SCPStatement \<Rightarrow> SCPNomination option" where
  "nominateOf st = (case pledges st of NOMINATE nom \<Rightarrow> Some nom | _ \<Rightarrow> None)"

definition isNewerNomination_node :: "Slot \<Rightarrow> NodeID \<Rightarrow> SCPNomination \<Rightarrow> bool result" where
  "isNewerNomination_node s n st =
     (case map_of (mLatestNominations s) n of
        None \<Rightarrow> Inr True
      | Some old \<Rightarrow> bindE (deref (nominateOf (statement old))) (\<lambda>oldst. Inr (isNewerNomination oldst st)))"

definition isSaneNomination :: "SCPContext \<Rightarrow> SCPStatement \<Rightarrow> SCPNomination \<Rightarrow> bool result" where
  "isSaneNomination c st nom =
     (if length (n_votes nom) + length (n_accepted nom) \<noteq> 0 \<and> sorted (n_votes nom) \<and>
         sorted (n_accepted nom)
      then bindE (deref (getQuorumSetFromStatement c st)) (\<lambda>q. Inr (isQuorumSetSane q False))
      else Inr False)"

definition recordNomination :: "SCPEnvelope \<Rightarrow> Slot \<Rightarrow> Slot" where
  "recordNomination env s =
     recordStatement (statement env)
       (s\<lparr>mLatestNominations := map_put (nodeID (statement env)) env (mLatestNominations s)\<rparr>)"

definition acceptPredicate :: "Value \<Rightarrow> SCPStatement \<Rightarrow> bool" where
  "acceptPredicate v st = (case nominateOf st of None \<Rightarrow> False | Some nom \<Rightarrow> v \<in> set (n_accepted nom))"

definition votePredicate :: "Value \<Rightarrow> SCPStatement \<Rightarrow> bool" where
  "votePredicate v st = (case nominateOf st of None \<Rightarrow> False | Some nom \<Rightarrow> v \<in> set (n_votes nom))"

definition applyAll :: "SCPNomination \<Rightarrow> Value list" where
  "applyAll nom = n_votes nom @ n_accepted nom"

section \<open>Leaders\<close>

definition hashNode :: "SCPContext \<Rightarrow> Slot \<Rightarrow> bool \<Rightarrow> NodeID \<Rightarrow> uint64 result" where
  "hashNode c s isPriority n =
     bindE (assertE (mPreviousValue s \<noteq> [])) (\<lambda>_.
     Inr (computeHashNode c (mSlotIndex s) (mPreviousValue s) isPriority (mRoundNumber s) n))"

definition hashValue :: "SCPContext \<Rightarrow> Slot \<Rightarrow> Value \<Rightarrow> uint64 result" where
  "hashValue c s v =
     bindE (assertE (mPreviousValue s \<noteq> [])) (\<lambda>_.
     Inr (computeValueHash c (mSlotIndex s) (mPreviousValue s) (mRoundNumber s) v))"

definition getNodePriority :: "SCPContext \<Rightarrow> Slot \<Rightarrow> NodeID \<Rightarrow> SCPQuorumSet \<Rightarrow> uint64 result" where
  "getNodePriority c s n qset =
     bindE (getNodeWeight n qset) (\<lambda>w.
     bindE (hashNode c s False n) (\<lambda>h.
     if h < w then hashNode c s True n else Inr 0))"

fun leaderLoop ::
  "SCPContext \<Rightarrow> Slot \<Rightarrow> NodeID list \<Rightarrow> uint64 \<Rightarrow> NodeID list \<Rightarrow> (uint64 \<times> NodeID list) result" where
  "leaderLoop c s [] topPriority leaders = Inr (topPriority, leaders)"
| "leaderLoop c s (cur # ns) topPriority leaders =
     bindE (getNodePriority c s cur (mQSet c)) (\<lambda>w.
     let (top', leaders') = (if topPriority < w then (w, []) else (topPriority, leaders));
         leaders'' = (if w = top' \<and> 0 < w then insort_insert cur leaders' else leaders')
     in leaderLoop c s ns top' leaders'')"

definition updateRoundLeaders :: "SCPContext \<Rightarrow> Slot \<Rightarrow> Slot result" where
  "updateRoundLeaders c s =
     bindE (leaderLoop c s (forAllNodes (mQSet c)) 0 []) (\<lambda>(topPriority, leaders).
     Inr (s\<lparr>mRoundLeaders := leaders\<rparr>))"

fun newValueLoop :: "SCPContext \<Rightarrow> Slot \<Rightarrow> Value list \<Rightarrow> uint64 \<Rightarrow> Value \<Rightarrow> Value result" where
  "newValueLoop c s [] newHash newVote = Inr newVote"
| "newValueLoop c s (value # vs) newHash newVote =
     (let toNominate = (if validateValue c (mSlotIndex s) value = kFullyValidatedValue then value
                        else extractValidValue c (mSlotIndex s) value) in
      if toNominate \<noteq> [] \<and> toNominate \<notin> set (mVotes s)
      then bindE (hashValue c s toNominate) (\<lambda>curHash.
           if newHash \<le> curHash then newValueLoop c s vs curHash toNominate
           else newValueLoop c s vs newHash newVote)
      else newValueLoop c s vs newHash newVote)"

definition getNewValueFromNomination :: "SCPContext \<Rightarrow> Slot \<Rightarrow> SCPNomination \<Rightarrow> Value result" where
  "getNewValueFromNomination c s nom = newValueLoop c s (applyAll nom) 0 []"

section \<open>Emitting and processing\<close>

type_synonym nominate_rec = "SCPEnvelope \<Rightarrow> Slot \<Rightarrow> (EnvelopeState \<times> Slot) result"

definition nominationStatement :: "SCPContext \<Rightarrow> Slot \<Rightarrow> SCPStatement" where
  "nominationStatement c s =
     \<lparr>nodeID = mNodeID c, slotIndex = 0,
      pledges = NOMINATE \<lparr>n_quorumSetHash = mQSetHash c, n_votes = mVotes s, n_accepted = mAccepted s\<rparr>\<rparr>"

definition emitNomination :: "SCPContext \<Rightarrow> nominate_rec \<Rightarrow> Slot \<Rightarrow> Slot result" where
  "emitNomination c rec s =
     (let st = nominationStatement c s; envelope = createEnvelope c s st;
          nom = \<lparr>n_quorumSetHash = mQSetHash c, n_votes = mVotes s, n_accepted = mAccepted s\<rparr> in
      bindE (rec envelope s) (\<lambda>(r, s').
      if r = VALID
      then bindE (case mNomLastEnvelope s' of
                    None \<Rightarrow> Inr True
                  | Some lastEnv \<Rightarrow> bindE (deref (nominateOf (statement lastEnv))) (\<lambda>old.
                      Inr (isNewerNomination old nom))) (\<lambda>newer.
           if newer
           then let s'' = s'\<lparr>mNomLastEnvelope := Some envelope\<rparr>
                in Inr (if mFullyValidated s'' then notify (EmitEnvelope envelope) s'' else s'')
           else Inr s')
      else Inl (RuntimeError ''moved to a bad state (nomination)'')))"

text \<open>The first loop of \<open>processEnvelope\<close>: votes to promote to accepted.\<close>

fun acceptVotes :: "SCPContext \<Rightarrow> Value list \<Rightarrow> bool \<Rightarrow> Slot \<Rightarrow> (bool \<times> Slot) result" where
  "acceptVotes c [] modified s = Inr (modified, s)"
| "acceptVotes c (v # vs) modified s =
     (if v \<in> set (mAccepted s) then acceptVotes c vs modified s
      else bindE (federatedAccept c (votePredicate v) (acceptPredicate v) (mLatestNominations s)) (\<lambda>ok.
        if ok
        then if validateValue c (mSlotIndex s) v = kFullyValidatedValue
          then acceptVotes c vs True
                 (s\<lparr>mAccepted := insort_insert v (mAccepted s), mVotes := insort_insert v (mVotes s)\<rparr>)
          else let toVote = extractValidValue c (mSlotIndex s) v in
            if toVote \<noteq> []
            then acceptVotes c vs (modified \<or> toVote \<notin> set (mVotes s))
                   (s\<lparr>mVotes := insort_insert toVote (mVotes s)\<rparr>)
            else acceptVotes c vs modified s
        else acceptVotes c vs modified s))"

text \<open>The second loop: accepted values to promote to candidates.\<close>

fun confirmAccepted :: "SCPContext \<Rightarrow> Value list \<Rightarrow> bool \<Rightarrow> Slot \<Rightarrow> (bool \<times> Slot) result" where
  "confirmAccepted c [] newCandidates s = Inr (newCandidates, s)"
| "confirmAccepted c (a # as) newCandidates s =
     (if a \<in> set (mCandidates s) then confirmAccepted c as newCandidates s
      else bindE (federatedRatify c (acceptPredicate a) (mLatestNominations s)) (\<lambda>ok.
        if ok then confirmAccepted c as True (s\<lparr>mCandidates := insort_insert a (mCandidates s)\<rparr>)
        else confirmAccepted c as newCandidates s))"

definition takeLeaderVote :: "SCPContext \<Rightarrow> NodeID \<Rightarrow> SCPNomination \<Rightarrow> bool \<Rightarrow> Slot \<Rightarrow> (bool \<times> Slot) result" where
  "takeLeaderVote c n nom modified s =
     (if mCandidates s = [] \<and> n \<in> set (mRoundLeaders s)
      then bindE (getNewValueFromNomination c s nom) (\<lambda>newVote.
           if newVote \<noteq> [] then Inr (True, s\<lparr>mVotes := insort_insert newVote (mVotes s)\<rparr>)
           else Inr (modified, s))
      else Inr (modified, s))"

definition publishCandidates :: "SCPContext \<Rightarrow> Slot \<Rightarrow> Slot result" where
  "publishCandidates c s =
     (let composite = combineCandidates c (mSlotIndex s) (mCandidates s);
          s' = notify (UpdatedCandidateValue (mSlotIndex s) composite)
                 (s\<lparr>mLatestCompositeCandidate := composite\<rparr>)
      in bindE (bumpState c (advanceSlot c) composite False s') (\<lambda>(b, s''). Inr s''))"

definition processNominationBody ::
  "SCPContext \<Rightarrow> nominate_rec \<Rightarrow> SCPEnvelope \<Rightarrow> Slot \<Rightarrow> (EnvelopeState \<times> Slot) result" where
  "processNominationBody c rec envelope s =
     (let st = statement envelope in
      bindE (deref (nominateOf st)) (\<lambda>nom.
      bindE (isNewerNomination_node s (nodeID st) nom) (\<lambda>newer.
      if \<not> newer then Inr (INVALID, s)
      else bindE (isSaneNomination c st nom) (\<lambda>sane.
      if \<not> sane then Inr (INVALID, s)
      else let s0 = recordNomination envelope s in
        if \<not> mNominationStarted s0 then Inr (VALID, s0)
        else
          bindE (acceptVotes c (n_votes nom) False s0) (\<lambda>(modified1, s1).
          bindE (confirmAccepted c (mAccepted s1) False s1) (\<lambda>(newCandidates, s2).
          bindE (takeLeaderVote c (nodeID st) nom modified1 s2) (\<lambda>(modified, s3).
          bindE (if modified then emitNomination c rec s3 else Inr s3) (\<lambda>s4.
          bindE (if newCandidates then publishCandidates c s4 else Inr s4) (\<lambda>s5.
          Inr (VALID, s5))))))))))"

primrec processNomination_fuel :: "nat \<Rightarrow> SCPContext \<Rightarrow> nominate_rec" where
  "processNomination_fuel 0 c = (\<lambda>envelope s. Inl Diverges)"
| "processNomination_fuel (Suc n) c = processNominationBody c (processNomination_fuel n c)"

section \<open>Nominating\<close>

fun leaderValues :: "SCPContext \<Rightarrow> NodeID list \<Rightarrow> bool \<Rightarrow> Value \<Rightarrow> Slot \<Rightarrow> (bool \<times> Value \<times> Slot) result" where
  "leaderValues c [] updated nominatingValue s = Inr (updated, nominatingValue, s)"
| "leaderValues c (leader # ls) updated nominatingValue s =
     (case map_of (mLatestNominations s) leader of
        None \<Rightarrow> leaderValues c ls updated nominatingValue s
      | Some env \<Rightarrow>
          bindE (deref (nominateOf (statement env))) (\<lambda>nom.
          bindE (getNewValueFromNomination c s nom) (\<lambda>v.
          if v \<noteq> [] then leaderValues c ls True v (s\<lparr>mVotes := insort_insert v (mVotes s)\<rparr>)
          else leaderValues c ls updated v s)))"

definition nominate ::
  "SCPContext \<Rightarrow> nominate_rec \<Rightarrow> Value \<Rightarrow> Value \<Rightarrow> bool \<Rightarrow> Slot \<Rightarrow> (bool \<times> Slot) result" where
  "nominate c rec value previousValue timedout s =
     (if timedout \<and> \<not> mNominationStarted s then Inr (False, s)
      else bindE (updateRoundLeaders c (s\<lparr>mNominationStarted := True, mPreviousValue := previousValue,
                                         mRoundNumber := mRoundNumber s + 1\<rparr>)) (\<lambda>s1.
        bindE (if mNodeID c \<in> set (mRoundLeaders s1)
               then Inr (value \<notin> set (mVotes s1), value, s1\<lparr>mVotes := insort_insert value (mVotes s1)\<rparr>)
               else leaderValues c (mRoundLeaders s1) False [] s1) (\<lambda>(updated, nominatingValue, s2).
        let s3 = notify (NominatingValue (mSlotIndex s2) nominatingValue) s2;
            s4 = notify (SetupTimer (mSlotIndex s3) (computeTimeout (mRoundNumber s3))
                   (NominateAgain value previousValue)) s3
        in if updated then bindE (emitNomination c rec s4) (\<lambda>s5. Inr (True, s5)) else Inr (False, s4))))"

definition setNominationStateFromEnvelope :: "SCPEnvelope \<Rightarrow> Slot \<Rightarrow> Slot result" where
  "setNominationStateFromEnvelope e s =
     (if mNominationStarted s then Inl (RuntimeError ''Cannot set state after nomination is started'')
      else let s0 = recordNomination e s in
        bindE (deref (nominateOf (statement e))) (\<lambda>nom.
        Inr (s0\<lparr>mAccepted := insertAll (n_accepted nom) (mAccepted s0),
                mVotes := insertAll (n_votes nom) (mVotes s0),
                mNomLastEnvelope := Some e\<rparr>)))"

definition getNominationCurrentState :: "SCPContext \<Rightarrow> Slot \<Rightarrow> SCPEnvelope list" where
  "getNominationCurrentState c s =
     map snd (filter (\<lambda>n. fst n \<noteq> mNodeID c \<or> mFullyValidated s) (mLatestNominations s))"

definition getNominationStatementValues :: "SCPNomination \<Rightarrow> Value list" where
  "getNominationStatementValues nom = applyAll nom"

end
