(* ===== verification/SlotContractNomination.thy ===== *)
theory SlotContractNomination
  imports NominationProtocol
begin

text \<open>
  The contract of the ballot protocol extended to nomination. Nomination writes its own fields,
  the history and the trace, and nothing the ballot protocol reads; it starts ballots through
  \<open>bumpState\<close>. A relation of the contract that allows such updates therefore holds across
  every operation of both protocols.
\<close>

section \<open>Updates of nomination\<close>

definition quiet :: "DriverEvent \<Rightarrow> bool" where
  "quiet e = (case e of
     EmitEnvelope env \<Rightarrow> \<not> isBallotStatement (statement env)
   | ValueExternalized _ _ \<Rightarrow> False
   | _ \<Rightarrow> True)"

definition nominationUpdate :: "Slot \<Rightarrow> Slot \<Rightarrow> bool" where
  "nominationUpdate s s' \<longleftrightarrow>
     same_ballots s s' \<and> mLatestEnvelopes s' = mLatestEnvelopes s \<and>
     mCurrentMessageLevel s' = mCurrentMessageLevel s \<and> mLastEnvelope s' = mLastEnvelope s \<and>
     mLastEnvelopeEmit s' = mLastEnvelopeEmit s \<and> mSlotIndex s' = mSlotIndex s \<and>
     mFullyValidated s' = mFullyValidated s \<and> mHeardFromQuorum s' = mHeardFromQuorum s \<and>
     (\<exists>hs. mStatementsHistory s' = mStatementsHistory s @ hs \<and> (\<forall>p\<in>set hs. \<not> isBallotStatement (fst p))) \<and>
     (\<exists>es. mTrace s' = mTrace s @ es \<and> list_all quiet es)"

lemma same_ballots_refl [simp]: "same_ballots s s"
  by (simp add: same_ballots_def)

lemma same_ballots_trans: "same_ballots s t \<Longrightarrow> same_ballots t u \<Longrightarrow> same_ballots s u"
  by (simp add: same_ballots_def)

lemma nominationUpdate_refl [simp]: "nominationUpdate s s"
  by (simp add: nominationUpdate_def)

lemma nominationUpdate_trans: "nominationUpdate s t \<Longrightarrow> nominationUpdate t u \<Longrightarrow> nominationUpdate s u"
  unfolding nominationUpdate_def by (auto intro: same_ballots_trans simp: ball_Un)

lemma nominationUpdate_fields [simp]:
  "nominationUpdate s (s\<lparr>mVotes := v\<rparr>)" "nominationUpdate s (s\<lparr>mAccepted := v\<rparr>)"
  "nominationUpdate s (s\<lparr>mCandidates := v\<rparr>)" "nominationUpdate s (s\<lparr>mRoundLeaders := l\<rparr>)"
  "nominationUpdate s (s\<lparr>mLatestNominations := m\<rparr>)" "nominationUpdate s (s\<lparr>mNomLastEnvelope := e\<rparr>)"
  "nominationUpdate s (s\<lparr>mNominationStarted := b\<rparr>)" "nominationUpdate s (s\<lparr>mRoundNumber := n\<rparr>)"
  "nominationUpdate s (s\<lparr>mLatestCompositeCandidate := x\<rparr>)" "nominationUpdate s (s\<lparr>mPreviousValue := x\<rparr>)"
  "nominationUpdate s (s\<lparr>mAccepted := v, mVotes := w\<rparr>)"
  by (simp_all add: nominationUpdate_def same_ballots_def)

lemma nominationUpdate_notify: "quiet e \<Longrightarrow> nominationUpdate s (notify e s)"
  by (simp add: nominationUpdate_def same_ballots_def)

lemma nominationUpdate_record:
  "\<not> isBallotStatement (statement env) \<Longrightarrow> nominationUpdate s (recordNomination env s)"
  by (simp add: nominationUpdate_def same_ballots_def recordNomination_def recordStatement_def)

lemma nominateOf_not_ballot: "nominateOf st = Some nom \<Longrightarrow> \<not> isBallotStatement st"
  by (simp add: nominateOf_def isBallotStatement_def split: SCPPledges.splits)

lemma acceptVotes_update: "acceptVotes c vs m s = Inr (m', s') \<Longrightarrow> nominationUpdate s s'"
proof (induction vs arbitrary: m s)
  case (Cons v vs)
  from Cons.prems show ?case
    by (auto simp: Let_def elim!: bindE_InrE split: if_splits
        dest!: Cons.IH intro: nominationUpdate_trans[OF nominationUpdate_fields(1)]
          nominationUpdate_trans[OF nominationUpdate_fields(11)])
qed simp

lemma confirmAccepted_update: "confirmAccepted c vs m s = Inr (m', s') \<Longrightarrow> nominationUpdate s s'"
proof (induction vs arbitrary: m s)
  case (Cons v vs)
  from Cons.prems show ?case
    by (auto elim!: bindE_InrE split: if_splits
        dest!: Cons.IH intro: nominationUpdate_trans[OF nominationUpdate_fields(3)])
qed simp

lemma takeLeaderVote_update: "takeLeaderVote c n nom m s = Inr (m', s') \<Longrightarrow> nominationUpdate s s'"
  by (auto simp: takeLeaderVote_def elim!: bindE_InrE split: if_splits)

lemma leaderValues_update: "leaderValues c ls u v s = Inr (u', v', s') \<Longrightarrow> nominationUpdate s s'"
proof (induction ls arbitrary: u v s)
  case (Cons l ls)
  from Cons.prems show ?case
    by (auto elim!: bindE_InrE split: if_splits option.splits
        dest!: Cons.IH intro: nominationUpdate_trans[OF nominationUpdate_fields(1)])
qed simp

lemma updateRoundLeaders_update: "updateRoundLeaders c s = Inr s' \<Longrightarrow> nominationUpdate s s'"
  by (auto simp: updateRoundLeaders_def elim!: bindE_InrE)

section \<open>Growth of the nominated values\<close>

text \<open>What nomination keeps of its sets of values: they are in order, candidates are accepted,
  accepted values are voted for, and the driver fully validated every accepted value.\<close>

definition nominations_ok :: "SCPContext \<Rightarrow> Slot \<Rightarrow> bool" where
  "nominations_ok c s \<longleftrightarrow>
     sorted_wrt (<) (mVotes s) \<and> sorted_wrt (<) (mAccepted s) \<and> sorted_wrt (<) (mCandidates s) \<and>
     set (mCandidates s) \<subseteq> set (mAccepted s) \<and> set (mAccepted s) \<subseteq> set (mVotes s) \<and>
     (\<forall>v\<in>set (mAccepted s). validateValue c (mSlotIndex s) v = kFullyValidatedValue)"

definition nominationsGrow :: "SCPContext \<Rightarrow> Slot \<Rightarrow> Slot \<Rightarrow> bool" where
  "nominationsGrow c s s' \<longleftrightarrow>
     set (mVotes s) \<subseteq> set (mVotes s') \<and> set (mAccepted s) \<subseteq> set (mAccepted s') \<and>
     set (mCandidates s) \<subseteq> set (mCandidates s') \<and> (nominations_ok c s \<longrightarrow> nominations_ok c s')"

lemma nominationsGrow_trans: "nominationsGrow c s t \<Longrightarrow> nominationsGrow c t u \<Longrightarrow> nominationsGrow c s u"
  unfolding nominationsGrow_def by blast

lemma nominationsGrow_same:
  "mVotes s' = mVotes s \<Longrightarrow> mAccepted s' = mAccepted s \<Longrightarrow> mCandidates s' = mCandidates s \<Longrightarrow>
   mSlotIndex s' = mSlotIndex s \<Longrightarrow> nominationsGrow c s s'"
  by (simp add: nominationsGrow_def nominations_ok_def)

lemma notify_nominations [simp]:
  "mVotes (notify e s) = mVotes s" "mAccepted (notify e s) = mAccepted s" "mCandidates (notify e s) = mCandidates s"
  by (simp_all add: notify_def)

lemma nominationsGrow_vote: "nominationsGrow c s (s\<lparr>mVotes := insort_insert v (mVotes s)\<rparr>)"
  by (auto simp: nominationsGrow_def nominations_ok_def set_insort_insert)

lemma nominationsGrow_accept:
  "validateValue c (mSlotIndex s) v = kFullyValidatedValue \<Longrightarrow>
   nominationsGrow c s (s\<lparr>mAccepted := insort_insert v (mAccepted s), mVotes := insort_insert v (mVotes s)\<rparr>)"
  by (auto simp: nominationsGrow_def nominations_ok_def set_insort_insert)

lemma nominationsGrow_candidate:
  "v \<in> set (mAccepted s) \<Longrightarrow> nominationsGrow c s (s\<lparr>mCandidates := insort_insert v (mCandidates s)\<rparr>)"
  by (auto simp: nominationsGrow_def nominations_ok_def set_insort_insert)

lemma acceptVotes_grows: "acceptVotes c vs m s = Inr (m', s') \<Longrightarrow> nominationsGrow c s s'"
proof (induction vs arbitrary: m s)
  case (Cons v vs)
  from Cons.prems show ?case
    by (auto simp: Let_def elim!: bindE_InrE split: if_splits
        dest!: Cons.IH intro: nominationsGrow_trans[OF nominationsGrow_vote]
          nominationsGrow_trans[OF nominationsGrow_accept])
qed (simp add: nominationsGrow_same)

lemma confirmAccepted_grows:
  "confirmAccepted c vs m s = Inr (m', s') \<Longrightarrow> set vs \<subseteq> set (mAccepted s) \<Longrightarrow> nominationsGrow c s s'"
proof (induction vs arbitrary: m s)
  case (Cons v vs)
  let ?s1 = "s\<lparr>mCandidates := insort_insert v (mCandidates s)\<rparr>"
  have "nominationsGrow c s s'" if "confirmAccepted c vs True ?s1 = Inr (m', s')"
    using nominationsGrow_trans[OF nominationsGrow_candidate Cons.IH[OF that]] Cons.prems(2) by simp
  then show ?case
    using Cons.prems Cons.IH[of m s] by (auto elim!: bindE_InrE split: if_splits)
qed (simp add: nominationsGrow_same)

lemma takeLeaderVote_grows: "takeLeaderVote c n nom m s = Inr (m', s') \<Longrightarrow> nominationsGrow c s s'"
  by (auto simp: takeLeaderVote_def nominationsGrow_same nominationsGrow_vote elim!: bindE_InrE split: if_splits)

lemma leaderValues_grows: "leaderValues c ls u v s = Inr (u', v', s') \<Longrightarrow> nominationsGrow c s s'"
proof (induction ls arbitrary: u v s)
  case (Cons l ls)
  from Cons.prems show ?case
    by (auto elim!: bindE_InrE split: if_splits option.splits
        dest!: Cons.IH intro: nominationsGrow_trans[OF nominationsGrow_vote])
qed (simp add: nominationsGrow_same)

lemma updateRoundLeaders_grows: "updateRoundLeaders c s = Inr s' \<Longrightarrow> nominationsGrow c s s'"
  by (auto simp: updateRoundLeaders_def nominationsGrow_same elim!: bindE_InrE)

section \<open>The extended contract\<close>

locale slot_contract_nomination = slot_contract +
  assumes R_nomination: "nominationUpdate s s' \<Longrightarrow> nominationsGrow c s s' \<Longrightarrow> R s s'"
begin

definition nom_keeps :: "nominate_rec \<Rightarrow> bool" where
  "nom_keeps rec \<longleftrightarrow> (\<forall>env s r s'. rec env s = Inr (r, s') \<longrightarrow> R s s')"

lemma emitNomination_R:
  assumes rec: "nom_keeps rec" and run: "emitNomination c rec s = Inr s'"
  shows "R s s'"
proof -
  let ?env = "createEnvelope c s (nominationStatement c s)"
  obtain t where t: "rec ?env s = Inr (VALID, t)"
    and s': "s' = t \<or> s' = t\<lparr>mNomLastEnvelope := Some ?env\<rparr> \<or>
      s' = notify (EmitEnvelope ?env) (t\<lparr>mNomLastEnvelope := Some ?env\<rparr>)"
    using run by (auto simp: emitNomination_def Let_def elim!: bindE_InrE split: if_splits)
  have "quiet (EmitEnvelope ?env)"
    by (simp add: quiet_def isBallotStatement_def nominationStatement_def)
  then have "nominationUpdate t s'" "nominationsGrow c t s'"
    using s' nominationUpdate_trans[OF nominationUpdate_fields(6) nominationUpdate_notify]
    by (auto simp: nominationsGrow_same)
  moreover have "R s t" using rec t by (auto simp: nom_keeps_def)
  ultimately show ?thesis using R_nomination R_trans by blast
qed

lemma publishCandidates_R:
  assumes run: "publishCandidates c s = Inr s'"
  shows "R s s'"
proof -
  obtain v b where bump: "bumpState c (advanceSlot c) v False
      (notify (UpdatedCandidateValue (mSlotIndex s) v) (s\<lparr>mLatestCompositeCandidate := v\<rparr>)) = Inr (b, s')"
    using run by (auto simp: publishCandidates_def Let_def elim!: bindE_InrE)
  have "nominationUpdate s (notify (UpdatedCandidateValue (mSlotIndex s) v) (s\<lparr>mLatestCompositeCandidate := v\<rparr>))"
    by (rule nominationUpdate_trans[OF nominationUpdate_fields(9) nominationUpdate_notify]) (simp add: quiet_def)
  from R_trans[OF R_nomination[OF this nominationsGrow_same] bumpState_R[OF advanceSlot_R bump]]
  show ?thesis by simp
qed

lemma processNominationBody_R:
  assumes rec: "nom_keeps rec"
  shows "nom_keeps (processNominationBody c rec)"
  unfolding nom_keeps_def
proof (intro allI impI)
  fix env s r s'
  assume run: "processNominationBody c rec env s = Inr (r, s')"
  let ?s0 = "recordNomination env s"
  from run obtain nom where nom: "nominateOf (statement env) = Some nom"
    by (auto simp: processNominationBody_def Let_def elim!: bindE_InrE)
  have s0: "R s ?s0"
    by (rule R_nomination[OF nominationUpdate_record[OF nominateOf_not_ballot[OF nom]] nominationsGrow_same])
      (simp_all add: recordNomination_def recordStatement_def)
  show "R s s'"
  proof (cases "s' = s \<or> s' = ?s0")
    case True
    then show ?thesis using s0 R_refl by auto
  next
    case False
    with run nom obtain m1 s1 n2 s2 m3 s3 s4 where
      steps: "acceptVotes c (n_votes nom) False ?s0 = Inr (m1, s1)"
        "confirmAccepted c (mAccepted s1) False s1 = Inr (n2, s2)"
        "takeLeaderVote c (nodeID (statement env)) nom m1 s2 = Inr (m3, s3)"
      and s4: "(if m3 then emitNomination c rec s3 else Inr s3) = Inr s4"
      and s5: "(if n2 then publishCandidates c s4 else Inr s4) = Inr s'"
      by (auto simp: processNominationBody_def Let_def elim!: bindE_InrE split: if_split_asm split del: if_split)
    have "nominationUpdate ?s0 s3"
      by (rule nominationUpdate_trans[OF nominationUpdate_trans[OF acceptVotes_update[OF steps(1)]
            confirmAccepted_update[OF steps(2)]] takeLeaderVote_update[OF steps(3)]])
    moreover have "nominationsGrow c ?s0 s3"
      by (rule nominationsGrow_trans[OF nominationsGrow_trans[OF acceptVotes_grows[OF steps(1)]
            confirmAccepted_grows[OF steps(2) order_refl]] takeLeaderVote_grows[OF steps(3)]])
    ultimately have "R s s3" using s0 R_nomination R_trans by blast
    moreover have "R s3 s4" using s4 emitNomination_R[OF rec] R_refl by (auto split: if_splits)
    moreover have "R s4 s'" using s5 publishCandidates_R R_refl by (auto split: if_splits)
    ultimately show ?thesis using R_trans by blast
  qed
qed

lemma processNomination_fuel_R: "nom_keeps (processNomination_fuel n c)"
  by (induction n) (simp_all add: processNominationBody_R, simp add: nom_keeps_def)

lemma nominate_R:
  assumes rec: "nom_keeps rec" and run: "nominate c rec v p timedout s = Inr (b, s')"
  shows "R s s'"
proof (cases "s' = s")
  case False
  let ?s0 = "s\<lparr>mNominationStarted := True, mPreviousValue := p, mRoundNumber := mRoundNumber s + 1\<rparr>"
  from run False obtain s1 u x s2 where s1: "updateRoundLeaders c ?s0 = Inr s1"
    and s2: "(if mNodeID c \<in> set (mRoundLeaders s1)
       then Inr (v \<notin> set (mVotes s1), v, s1\<lparr>mVotes := insort_insert v (mVotes s1)\<rparr>)
       else leaderValues c (mRoundLeaders s1) False [] s1) = Inr (u, x, s2)"
    and s': "(let s3 = notify (NominatingValue (mSlotIndex s2) x) s2;
            s4 = notify (SetupTimer (mSlotIndex s3) (computeTimeout (mRoundNumber s3)) (NominateAgain v p)) s3
        in if u then bindE (emitNomination c rec s4) (\<lambda>s5. Inr (True, s5)) else Inr (False, s4)) = Inr (b, s')"
    by (auto simp: nominate_def elim!: bindE_InrE split: if_split_asm split del: if_split)
  have s0: "R s ?s0"
    by (rule R_nomination) (simp_all add: nominationUpdate_def same_ballots_def nominationsGrow_same)
  have s01: "R ?s0 s1"
    by (rule R_nomination[OF updateRoundLeaders_update[OF s1] updateRoundLeaders_grows[OF s1]])
  have s12: "R s1 s2"
    using s2 leaderValues_update[of c "mRoundLeaders s1" False "[]" s1]
      leaderValues_grows[of c "mRoundLeaders s1" False "[]" s1]
    by (auto simp: nominationsGrow_vote intro!: R_nomination split: if_splits)
  let ?s3 = "notify (NominatingValue (mSlotIndex s2) x) s2"
  let ?s4 = "notify (SetupTimer (mSlotIndex ?s3) (computeTimeout (mRoundNumber ?s3)) (NominateAgain v p)) ?s3"
  have "nominationUpdate s2 ?s4"
    by (rule nominationUpdate_trans; rule nominationUpdate_notify; simp add: quiet_def)
  then have "R s2 ?s4" by (rule R_nomination) (simp add: nominationsGrow_same)
  with s0 s01 s12 have "R s ?s4" by (meson R_trans)
  moreover have "R ?s4 s'"
    using s' emitNomination_R[OF rec] R_refl by (auto simp: Let_def elim!: bindE_InrE split: if_splits)
  ultimately show ?thesis by (rule R_trans)
qed (simp add: R_refl)

lemma stopNomination_R: "R s (stopNomination s)"
  by (rule R_nomination) (simp_all add: stopNomination_def nominationsGrow_same)

lemma ballotProtocolTimerExpired_R:
  assumes "ballotProtocolTimerExpired c s = Inr s'"
  shows "R s s'"
  using assms abandonBallot_R[OF advanceSlot_R] R_notify
  by (auto simp: ballotProtocolTimerExpired_def startBallotProtocolTimer_def monitoring_def
      elim!: bindE_InrE split: if_splits)

end

end
