(* ===== verification/NominationProgress.thy ===== *)
theory NominationProgress
  imports SlotContractNomination
begin

text \<open>
  Nomination returns. Processing a nomination may change the votes of the node, which makes it
  process its own nomination, and so on. Every such round adds a value to the votes or to the
  accepted values, and all of them come from a finite set: the values at hand and what the driver
  extracts from them. The number of rounds is therefore bounded by the bound computed below.
\<close>

section \<open>The interface to the relations of the ballot protocol\<close>

interpretation forward_nom: slot_contract_nomination c "\<lambda>_. True" forward for c
  by unfold_locales (auto simp: nominationUpdate_def same_ballots_def intro: forward_same)

interpretation level_nom: slot_contract_nomination c "\<lambda>_. True" same_level for c
  by unfold_locales (simp add: nominationUpdate_def same_level_def)

section \<open>The values nomination can reach\<close>

text \<open>\<open>extracts\<close>: what \<^verbatim>\<open>SCPDriver.h\<close> documents of \<open>extractValidValue\<close>, namely that it
  transforms a value into one the local node would agree to (fully validates) or gives the empty
  value.\<close>

definition extracts :: "SCPContext \<Rightarrow> bool" where
  "extracts c \<longleftrightarrow> (\<forall>i v. extractValidValue c i v = [] \<or>
     validateValue c i (extractValidValue c i v) = kFullyValidatedValue)"

definition closedValues :: "SCPContext \<Rightarrow> uint64 \<Rightarrow> Value set \<Rightarrow> bool" where
  "closedValues c i U \<longleftrightarrow> finite U \<and> (\<forall>v\<in>U. validateValue c i v = kFullyValidatedValue \<or>
     extractValidValue c i v = [] \<or> extractValidValue c i v \<in> U)"

definition withinValues :: "Value set \<Rightarrow> Slot \<Rightarrow> bool" where
  "withinValues U s \<longleftrightarrow> set (mVotes s) \<subseteq> U \<and> set (mAccepted s) \<subseteq> U"

definition nominated :: "Slot \<Rightarrow> nat" where
  "nominated s = card (set (mVotes s)) + card (set (mAccepted s))"

lemma closedValues_exists:
  assumes "extracts c"
  obtains U where "closedValues c i U" "set vs \<subseteq> U" "card U \<le> 2 * length vs"
proof
  let ?U = "set vs \<union> (extractValidValue c i ` set vs - {[]})"
  show "closedValues c i ?U"
    using assms by (auto simp: closedValues_def extracts_def)
  have "card ?U \<le> card (set vs) + card (extractValidValue c i ` set vs)"
    by (rule order_trans[OF card_Un_le]) (simp add: card_mono)
  also have "\<dots> \<le> 2 * length vs"
    using card_length[of vs] card_image_le[of "set vs" "extractValidValue c i"] by simp
  finally show "card ?U \<le> 2 * length vs" .
qed simp

lemma nominated_le: "finite U \<Longrightarrow> withinValues U s \<Longrightarrow> nominated s \<le> 2 * card U"
  using card_mono[of U "set (mVotes s)"] card_mono[of U "set (mAccepted s)"]
  by (simp add: nominated_def withinValues_def)

text \<open>What one of the loops does to the votes: it stays within the values, and it reports a change
  only when it added one.\<close>

definition votesGrow :: "Value set \<Rightarrow> bool \<Rightarrow> Slot \<Rightarrow> bool \<Rightarrow> Slot \<Rightarrow> bool" where
  "votesGrow U m s m' s' \<longleftrightarrow> withinValues U s' \<and> mSlotIndex s' = mSlotIndex s \<and>
     nominated s \<le> nominated s' \<and> (m \<longrightarrow> m') \<and> (m' \<and> \<not> m \<longrightarrow> nominated s < nominated s')"

lemma votesGrow_refl: "withinValues U s \<Longrightarrow> votesGrow U m s m s"
  by (simp add: votesGrow_def)

lemma votesGrow_trans: "votesGrow U m s m' s' \<Longrightarrow> votesGrow U m' s' m'' s'' \<Longrightarrow> votesGrow U m s m'' s''"
  by (auto simp: votesGrow_def)

lemma votesGrow_vote:
  "withinValues U s \<Longrightarrow> v \<in> U \<Longrightarrow>
   votesGrow U m s (m \<or> v \<notin> set (mVotes s)) (s\<lparr>mVotes := insort_insert v (mVotes s)\<rparr>)"
  by (auto simp: votesGrow_def withinValues_def nominated_def set_insort_insert card_insert_if)

lemma votesGrow_accept:
  "withinValues U s \<Longrightarrow> v \<in> U \<Longrightarrow> v \<notin> set (mAccepted s) \<Longrightarrow>
   votesGrow U m s True (s\<lparr>mAccepted := insort_insert v (mAccepted s), mVotes := insort_insert v (mVotes s)\<rparr>)"
  by (auto simp: votesGrow_def withinValues_def nominated_def set_insort_insert card_insert_if)

lemma acceptVotes_grow:
  assumes U: "closedValues c (mSlotIndex s) U"
  shows "acceptVotes c vs m s = Inr (m', s') \<Longrightarrow> set vs \<subseteq> U \<Longrightarrow> withinValues U s \<Longrightarrow> votesGrow U m s m' s'"
  using U
proof (induction vs arbitrary: m s)
  case (Cons v vs)
  have step: "votesGrow U m s m' s'"
    if "votesGrow U m s m1 s1" "acceptVotes c vs m1 s1 = Inr (m', s')" for m1 s1
    using that Cons.prems Cons.IH[of m1 s1] votesGrow_trans[OF that(1)] by (auto simp: votesGrow_def)
  have ex: "extractValidValue c (mSlotIndex s) v \<in> U"
    if "validateValue c (mSlotIndex s) v \<noteq> kFullyValidatedValue" "extractValidValue c (mSlotIndex s) v \<noteq> []"
    using that Cons.prems by (auto simp: closedValues_def)
  show ?case
    using Cons.prems ex
    by (auto simp: Let_def elim!: bindE_InrE split: if_split_asm
        intro: step[OF votesGrow_refl] step[OF votesGrow_vote] step[OF votesGrow_accept])
qed (simp add: votesGrow_refl)

lemma confirmAccepted_same:
  "confirmAccepted c vs m s = Inr (m', s') \<Longrightarrow>
   mVotes s' = mVotes s \<and> mAccepted s' = mAccepted s \<and> mSlotIndex s' = mSlotIndex s"
  by (induction vs arbitrary: m s) (force elim!: bindE_InrE split: if_splits)+

lemma newValueLoop_new:
  assumes "newValueLoop c s vs h v0 = Inr v" "closedValues c (mSlotIndex s) U" "set vs \<subseteq> U"
  shows "v = v0 \<or> v \<in> U \<and> v \<notin> set (mVotes s)"
  using assms
proof (induction vs arbitrary: h v0)
  case (Cons x vs)
  let ?x = "if validateValue c (mSlotIndex s) x = kFullyValidatedValue then x
            else extractValidValue c (mSlotIndex s) x"
  have IH: "v = v1 \<or> v \<in> U \<and> v \<notin> set (mVotes s)" if "newValueLoop c s vs h1 v1 = Inr v" for h1 v1
    using Cons.IH[OF that] Cons.prems by simp
  have x: "?x \<in> U" if "?x \<noteq> []" using that Cons.prems by (auto simp: closedValues_def split: if_splits)
  show ?case
    using Cons.prems(1) x by (auto simp: Let_def elim!: bindE_InrE split: if_split_asm dest!: IH)
qed simp

lemma takeLeaderVote_grow:
  assumes "takeLeaderVote c n nom m s = Inr (m', s')" "closedValues c (mSlotIndex s) U"
    and "set (applyAll nom) \<subseteq> U" "withinValues U s"
  shows "votesGrow U m s m' s'"
proof -
  have vote: "votesGrow U m s True (s\<lparr>mVotes := insort_insert v (mVotes s)\<rparr>)"
    if "v \<noteq> []" "getNewValueFromNomination c s nom = Inr v" for v
    using newValueLoop_new[OF that(2)[unfolded getNewValueFromNomination_def] assms(2,3)] that(1)
      votesGrow_vote[OF assms(4), of v m] by auto
  show ?thesis
    using assms vote by (auto simp: takeLeaderVote_def votesGrow_refl elim!: bindE_InrE split: if_splits)
qed

section \<open>Every operation returns\<close>

lemma nomination_no_div [simp]:
  "isNewerNomination_node s n nom \<noteq> Inl Diverges" "isSaneNomination c st nom \<noteq> Inl Diverges"
  "hashValue c s v \<noteq> Inl Diverges" "hashNode c s b n \<noteq> Inl Diverges"
  by (auto simp: isNewerNomination_node_def isSaneNomination_def hashValue_def hashNode_def bindE_Inl_iff
      split: option.splits if_splits)

lemma innerWeight_no_div:
  "getNodeWeight n q \<noteq> Inl Diverges" "innerWeight n t d qs \<noteq> Inl Diverges"
  by (induction n q and n t d qs rule: getNodeWeight_innerWeight.induct)
    (auto simp: bindE_Inl_iff Let_def bigDivide_throw_def bigDivide_u64_def split: if_splits prod.splits)

lemma leaderLoop_no_div [simp]: "leaderLoop c s ns t ls \<noteq> Inl Diverges"
  by (induction ns arbitrary: t ls)
    (auto simp: bindE_Inl_iff Let_def getNodePriority_def innerWeight_no_div split: prod.splits if_splits)

lemma newValueLoop_no_div [simp]: "newValueLoop c s vs h v \<noteq> Inl Diverges"
  by (induction vs arbitrary: h v) (auto simp: bindE_Inl_iff Let_def split: if_splits)

lemma acceptVotes_no_div [simp]: "acceptVotes c vs m s \<noteq> Inl Diverges"
  by (induction vs arbitrary: m s) (auto simp: bindE_Inl_iff Let_def split: if_splits)

lemma confirmAccepted_no_div [simp]: "confirmAccepted c vs m s \<noteq> Inl Diverges"
  by (induction vs arbitrary: m s) (auto simp: bindE_Inl_iff split: if_splits)

lemma takeLeaderVote_no_div [simp]: "takeLeaderVote c n nom m s \<noteq> Inl Diverges"
  by (auto simp: takeLeaderVote_def getNewValueFromNomination_def bindE_Inl_iff split: if_splits)

lemma leaderValues_no_div [simp]: "leaderValues c ls u v s \<noteq> Inl Diverges"
  by (induction ls arbitrary: u v s)
    (auto simp: getNewValueFromNomination_def bindE_Inl_iff split: if_splits option.splits)

lemma publishCandidates_no_div: "mCurrentMessageLevel s = 0 \<Longrightarrow> publishCandidates c s \<noteq> Inl Diverges"
  using advanceSlot_returns bumps_no_div(1)
  by (simp add: publishCandidates_def Let_def bindE_Inl_iff)

lemma emitNomination_no_div:
  "rec (createEnvelope c s (nominationStatement c s)) s \<noteq> Inl Diverges \<Longrightarrow>
   emitNomination c rec s \<noteq> Inl Diverges"
  by (auto simp: emitNomination_def Let_def bindE_Inl_iff split: option.splits if_splits)

lemma nominateOf_own:
  "nominateOf (statement (createEnvelope c s (nominationStatement c s))) =
   Some \<lparr>n_quorumSetHash = mQSetHash c, n_votes = mVotes s, n_accepted = mAccepted s\<rparr>"
  by (simp add: createEnvelope_def nominationStatement_def nominateOf_def Let_def)

lemma processNominationBody_no_div:
  assumes lev: "level_nom.nom_keeps rec" and level: "mCurrentMessageLevel s = 0"
    and emit: "\<And>nom m1 s1 n2 s2 s3. nominateOf (statement env) = Some nom \<Longrightarrow>
      acceptVotes c (n_votes nom) False (recordNomination env s) = Inr (m1, s1) \<Longrightarrow>
      confirmAccepted c (mAccepted s1) False s1 = Inr (n2, s2) \<Longrightarrow>
      takeLeaderVote c (nodeID (statement env)) nom m1 s2 = Inr (True, s3) \<Longrightarrow>
      mCurrentMessageLevel s3 = 0 \<Longrightarrow> emitNomination c rec s3 \<noteq> Inl Diverges"
  shows "processNominationBody c rec env s \<noteq> Inl Diverges"
proof
  assume "processNominationBody c rec env s = Inl Diverges"
  then obtain nom m1 s1 n2 s2 m3 s3 where
    steps: "nominateOf (statement env) = Some nom"
      "acceptVotes c (n_votes nom) False (recordNomination env s) = Inr (m1, s1)"
      "confirmAccepted c (mAccepted s1) False s1 = Inr (n2, s2)"
      "takeLeaderVote c (nodeID (statement env)) nom m1 s2 = Inr (m3, s3)"
    and div: "(if m3 then emitNomination c rec s3 else Inr s3) = Inl Diverges \<or>
      (\<exists>s4. (if m3 then emitNomination c rec s3 else Inr s3) = Inr s4 \<and>
        (if n2 then publishCandidates c s4 else Inr s4) = Inl Diverges)"
    by (auto simp: processNominationBody_def Let_def bindE_Inl_iff split: if_split_asm split del: if_split)
  have "same_level (recordNomination env s) s3"
    using acceptVotes_update[OF steps(2)] confirmAccepted_update[OF steps(3)]
      takeLeaderVote_update[OF steps(4)] by (auto simp: nominationUpdate_def same_level_def)
  then have l3: "mCurrentMessageLevel s3 = 0"
    using level by (simp add: same_level_def recordNomination_def recordStatement_def)
  have "mCurrentMessageLevel s4 = 0" if "emitNomination c rec s3 = Inr s4" for s4
    using level_nom.emitNomination_R[OF lev that] l3 by (simp add: same_level_def)
  then show False
    using div emit[OF steps(1-3)] steps(4) l3 publishCandidates_no_div by (auto split: if_splits)
qed

lemma processNomination_fuel_no_div:
  assumes U: "closedValues c i U"
  shows "2 * card U < nominated s + n \<Longrightarrow> withinValues U s \<Longrightarrow> mSlotIndex s = i \<Longrightarrow>
    mCurrentMessageLevel s = 0 \<Longrightarrow> (\<And>nom. nominateOf (statement env) = Some nom \<Longrightarrow> set (applyAll nom) \<subseteq> U) \<Longrightarrow>
    processNomination_fuel n c env s \<noteq> Inl Diverges"
proof (induction n arbitrary: env s)
  case 0
  then show ?case using nominated_le[of U s] U by (simp add: closedValues_def)
next
  case (Suc n)
  have "emitNomination c (processNomination_fuel n c) s3 \<noteq> Inl Diverges"
    if nom: "nominateOf (statement env) = Some nom"
      and acc: "acceptVotes c (n_votes nom) False (recordNomination env s) = Inr (m1, s1)"
      and conf: "confirmAccepted c (mAccepted s1) False s1 = Inr (n2, s2)"
      and vote: "takeLeaderVote c (nodeID (statement env)) nom m1 s2 = Inr (True, s3)"
      and l3: "mCurrentMessageLevel s3 = 0" for nom m1 s1 n2 s2 s3
  proof -
    let ?s0 = "recordNomination env s"
    have s0: "mSlotIndex ?s0 = i" "withinValues U ?s0" "nominated ?s0 = nominated s"
      using Suc.prems by (simp_all add: recordNomination_def recordStatement_def withinValues_def nominated_def)
    have vs: "set (n_votes nom) \<subseteq> U" "set (applyAll nom) \<subseteq> U"
      using Suc.prems(5)[OF nom] by (simp_all add: applyAll_def)
    have g1: "votesGrow U False ?s0 m1 s1"
      using acceptVotes_grow[OF _ acc vs(1) s0(2)] U s0(1) by simp
    have same: "mSlotIndex s2 = i" "withinValues U s2" "nominated s2 = nominated s1"
      using g1 s0(1) confirmAccepted_same[OF conf] by (simp_all add: votesGrow_def withinValues_def nominated_def)
    have g2: "votesGrow U m1 s2 True s3"
      using takeLeaderVote_grow[OF vote _ vs(2) same(2)] U same(1) by simp
    then have s3: "withinValues U s3" "mSlotIndex s3 = i" "nominated s < nominated s3"
      using g1 same s0(3) by (auto simp: votesGrow_def)
    show ?thesis
      by (rule emitNomination_no_div, rule Suc.IH)
        (use s3 Suc.prems(1) l3 in \<open>auto simp: nominateOf_own applyAll_def withinValues_def\<close>)
  qed
  then show ?case
    using processNominationBody_no_div[OF level_nom.processNomination_fuel_R Suc.prems(4)] by simp
qed

section \<open>The operations with the bound that suffices\<close>

text \<open>At most twice as many values as are at hand can be voted for and accepted.\<close>

definition nominationFuel :: "SCPEnvelope \<Rightarrow> Slot \<Rightarrow> nat" where
  "nominationFuel env s = Suc (4 * length (mVotes s @ mAccepted s @
     (case nominateOf (statement env) of None \<Rightarrow> [] | Some nom \<Rightarrow> applyAll nom)))"

definition processNomination :: "SCPContext \<Rightarrow> nominate_rec" where
  "processNomination c env s = processNomination_fuel (nominationFuel env s) c env s"

lemma processNomination_returns:
  assumes "extracts c" "mCurrentMessageLevel s = 0"
  shows "processNomination c env s \<noteq> Inl Diverges"
proof -
  let ?vs = "mVotes s @ mAccepted s @ (case nominateOf (statement env) of None \<Rightarrow> [] | Some nom \<Rightarrow> applyAll nom)"
  obtain U where U: "closedValues c (mSlotIndex s) U" "set ?vs \<subseteq> U" "card U \<le> 2 * length ?vs"
    using closedValues_exists[OF assms(1)] by blast
  have fuel: "2 * card U < nominated s + nominationFuel env s"
    using U(3) unfolding nominationFuel_def by linarith
  show ?thesis
    unfolding processNomination_def
    by (rule processNomination_fuel_no_div[OF U(1) fuel])
      (use U(2) assms(2) in \<open>auto simp: withinValues_def\<close>)
qed

lemma nominate_returns:
  assumes "extracts c" "mCurrentMessageLevel s = 0"
  shows "nominate c (processNomination c) v p timedout s \<noteq> Inl Diverges"
proof -
  have "emitNomination c (processNomination c) t \<noteq> Inl Diverges" if "same_level s t" for t
    by (rule emitNomination_no_div, rule processNomination_returns) (use assms that in \<open>simp_all add: same_level_def\<close>)
  moreover have "same_level s s1"
    if "updateRoundLeaders c (s\<lparr>mNominationStarted := True, mPreviousValue := p, mRoundNumber := mRoundNumber s + 1\<rparr>) = Inr s1" for s1
    using updateRoundLeaders_update[OF that] by (simp add: nominationUpdate_def same_level_def)
  moreover have "same_level s1 s2" if "leaderValues c ls u x s1 = Inr (u', x', s2)" for ls u x s1 u' x' s2
    using leaderValues_update[OF that] by (simp add: nominationUpdate_def same_level_def)
  ultimately show ?thesis
    by (fastforce simp: nominate_def updateRoundLeaders_def Let_def bindE_Inl_iff same_level_def
        split: if_splits prod.splits)
qed

text \<open>Beyond that bound the answer no longer depends on the fuel.\<close>

lemma processNomination_fuel_mono:
  "processNomination_fuel n c env s \<noteq> Inl Diverges \<Longrightarrow> n \<le> m \<Longrightarrow>
   processNomination_fuel m c env s = processNomination_fuel n c env s"
proof (induction n arbitrary: m env s)
  case (Suc n)
  then obtain k where m: "m = Suc k" "n \<le> k" by (cases m) auto
  have emit: "emitNomination c (processNomination_fuel k c) t = emitNomination c (processNomination_fuel n c) t"
    if "emitNomination c (processNomination_fuel n c) t \<noteq> Inl Diverges" for t
  proof -
    let ?env = "createEnvelope c t (nominationStatement c t)"
    have "processNomination_fuel n c ?env t \<noteq> Inl Diverges"
      using that by (auto simp: emitNomination_def Let_def)
    then show ?thesis using Suc.IH[OF _ m(2)] by (simp add: emitNomination_def Let_def)
  qed
  show ?case
    using Suc.prems(1) m(1)
    by (auto simp: processNominationBody_def Let_def emit bindE_Inl_iff split: sum.splits
        intro!: bindE_cong)
qed simp

end
