(* ===== verification/Execution.thy ===== *)
theory Execution
  imports ScpSlot
begin

text \<open>
  Running the model. The bundle \<open>exec\<close> unfolds every operation on the way of a message through a
  slot, so that the simplifier evaluates a run on concrete data. The two runs below are used to
  show that hypotheses about reachable slots can hold: a node that is a quorum by itself nominates
  a value and externalizes it, and a node that trusts it alone follows its last statement.
\<close>

lemma fuel_unfold:
  "advanceSlot_fuel (numeral k) c hint s = advanceBody c (advanceSlot_fuel (pred_numeral k) c) hint s"
  "advanceSlot_fuel (Suc n) c hint s = advanceBody c (advanceSlot_fuel n c) hint s"
  "processNomination_fuel (numeral k) c env s =
     processNominationBody c (processNomination_fuel (pred_numeral k) c) env s"
  "processNomination_fuel (Suc n) c env s = processNominationBody c (processNomination_fuel n c) env s"
  by (simp_all add: numeral_eq_Suc)

lemmas exec =
  Let_def fuel_unfold quorumLoop.simps while_option_unfold less_SCPBallot_def less_eq_SCPBallot_def
  isQuorumSetSane_def thresholdOk_def
  bigDivide_u64_def buildSingletonQSet_def isSingletonSet_def forAllNodes_def isQuorumSlice_def
  leftTillBlock_int_def filterNodes_def isVBlocking_def quorumFilter_def isQuorum_def
  MAX_TIMEOUT_SECONDS_def computeTimeout_def getCompanionQuorumSetHashFromStatement_def
  getQuorumSetFromStatement_def federatedAccept_def federatedRatify_def
  MAX_ADVANCE_SLOT_RECURSION_def notify_def recordStatement_def stopNomination_def
  createEnvelope_def nullBallot_def compareBallots_def compareBallots_ptr_def
  areBallotsCompatible_def areBallotsLessAndIncompatible_def areBallotsLessAndCompatible_def
  isBallotStatement_def isNewerStatement_def isNewerStatement_node_def recordEnvelope_def
  isStatementSane_def hasPreparedBallot_def getWorkingBallot_def validateValues_def
  startBallotProtocolTimer_def bumpToBallot_def updateCurrentIfNeeded_def checkInvariants_def
  updateCurrentValue_def createStatement_def sendLatestEnvelope_def freshPtr_def
  processEnvelope_def emitCurrentStateStatement_def notifyAndEmit_def bumpState_counter_def
  bumpState_def abandonBallot_def hintBallots_def candidatesFrom_def insertAll_def
  getPrepareCandidates_def votesPrepared_def setPrepared_def mustClearCommit_def
  setPreparedAccept_state_def setPreparedAccept_def skipCandidate_def attemptPreparedAccept_def
  setPreparedConfirmed_state_def setPreparedConfirmed_def mayVoteCommit_def
  attemptPreparedConfirmed_def commitPredicate_def votesCommit_def commitBoundaries_def
  getCommitBoundariesFromStatements_def setAcceptCommit_state_def setAcceptCommit_def
  acceptCommitHint_def attemptAcceptCommit_def setConfirmCommit_state_def setConfirmCommit_def
  confirmCommitHint_def attemptConfirmCommit_def statementCounter_def isAheadOf_def
  attemptBump_def checkHeardFromQuorum_def bumpLoop_def attemptAll_def advanceBody_def
  advanceSlot_def isSubsetHelper_def isNewerNomination_def nominateOf_def
  isNewerNomination_node_def isSaneNomination_def recordNomination_def acceptPredicate_def
  votePredicate_def applyAll_def hashNode_def hashValue_def getNodePriority_def
  updateRoundLeaders_def getNewValueFromNomination_def nominationStatement_def
  emitNomination_def takeLeaderVote_def publishCandidates_def processNominationBody_def
  nominate_def mkSlot_def slot_processEnvelope_def slot_abandonBallot_def slot_bumpState_def
  slot_nominate_def nominationFuel_def processNomination_def insort_insert_key_def

declare advanceSlot_fuel.simps [simp del] processNomination_fuel.simps [simp del]

section \<open>Two runs\<close>

definition demo :: "NodeID \<Rightarrow> SCPContext" where
  "demo n = \<lparr>mNodeID = n, mIsValidator = True, mQSet = SCPQuorumSet 1 [1] [], mQSetHash = ''q'',
     getQSet = (\<lambda>h. if h = ''q'' then Some (SCPQuorumSet 1 [1] []) else None),
     validateValue = (\<lambda>i v. kFullyValidatedValue), extractValidValue = (\<lambda>i v. []),
     signEnvelope = (\<lambda>st. ''s''), verifyEnvelope = (\<lambda>e. True),
     computeHashNode = (\<lambda>i p b r n. if b then 1 else 0), computeValueHash = (\<lambda>i p r v. 0),
     combineCandidates = (\<lambda>i vs. hd vs)\<rparr>"

definition demoEnvelope :: SCPEnvelope where
  "demoEnvelope = \<lparr>statement = \<lparr>nodeID = 1, slotIndex = 7,
     pledges = EXTERNALIZE \<lparr>e_commit = SCPBallot 1 ''x'', e_nH = 1, e_commitQuorumSetHash = ''q''\<rparr>\<rparr>,
     signature = ''s''\<rparr>"

lemma demo_simps [simp]:
  "mNodeID (demo n) = n" "mQSet (demo n) = SCPQuorumSet 1 [1] []" "mQSetHash (demo n) = ''q''"
  "getQSet (demo n) ''q'' = Some (SCPQuorumSet 1 [1] [])" "verifyEnvelope (demo n) e"
  "validateValue (demo n) i v = kFullyValidatedValue" "extractValidValue (demo n) i v = []"
  by (simp_all add: demo_def)

lemma demo_nominates:
  "\<exists>s. slot_nominate (demo 1) ''x'' ''p'' False (mkSlot (demo 1) 7) = Inr (True, s) \<and>
     externalizedValues s = [(7, ''x'')] \<and> mPhase s = SCP_PHASE_EXTERNALIZE \<and>
     mCommit s = Some (SCPBallot 1 ''x'') \<and> mCurrentMessageLevel s = 0 \<and>
     statement demoEnvelope \<in> fst ` set (mStatementsHistory s) \<and>
     emittedBallots s = [statement demoEnvelope] \<and> map_of (mLatestEnvelopes s) 1 = Some demoEnvelope \<and>
     mVotes s = [''x''] \<and> mAccepted s = [''x''] \<and> mCandidates s = [''x'']"
  by (simp add: exec demo_def demoEnvelope_def externalizedValues_def emittedBallots_def)

lemma demo_follows:
  "\<exists>s. slot_processEnvelope (demo 2) demoEnvelope False (mkSlot (demo 2) 7) = Inr (VALID, s) \<and>
     externalizedValues s = [(7, ''x'')] \<and> mPhase s = SCP_PHASE_EXTERNALIZE"
  by (simp add: exec demo_def demoEnvelope_def externalizedValues_def)

end
