(* ===== verification/SlotReachability.thy ===== *)
theory SlotReachability
  imports Execution
begin

text \<open>
  Everything that can happen to a slot while the program runs, as a step relation, and the
  invariants of the two protocols in every slot it reaches. The invariants are instances of the
  contract, so a step of any kind keeps them.
\<close>

section \<open>Steps\<close>

text \<open>\<open>D\<close> says which envelopes may be delivered. The herder drops envelopes that carry the
  identity of the local node before they reach \<open>SCP\<close> (\<^verbatim>\<open>herder/HerderImpl.cpp\<close>,
  \<open>recvSCPEnvelope\<close>).\<close>

inductive slot_step :: "SCPContext \<Rightarrow> (SCPEnvelope \<Rightarrow> bool) \<Rightarrow> Slot \<Rightarrow> Slot \<Rightarrow> bool" for c D where
  receive: "verifyEnvelope c env \<Longrightarrow> nodeID (statement env) \<noteq> mNodeID c \<Longrightarrow> D env \<Longrightarrow>
    slot_processEnvelope c env False s = Inr (r, s') \<Longrightarrow> slot_step c D s s'"
| nominate: "slot_nominate c value previous timedout s = Inr (b, s') \<Longrightarrow> slot_step c D s s'"
| stop: "slot_step c D s (stopNomination s)"
| timer: "ballotProtocolTimerExpired c s = Inr s' \<Longrightarrow> slot_step c D s s'"
| abandon: "slot_abandonBallot c s = Inr (b, s') \<Longrightarrow> slot_step c D s s'"
| bump: "slot_bumpState c value force s = Inr (b, s') \<Longrightarrow> slot_step c D s s'"

inductive slot_reachable :: "SCPContext \<Rightarrow> (SCPEnvelope \<Rightarrow> bool) \<Rightarrow> uint64 \<Rightarrow> Slot \<Rightarrow> bool" for c D i where
  init: "slot_reachable c D i (mkSlot c i)"
| step: "slot_reachable c D i s \<Longrightarrow> slot_step c D s s' \<Longrightarrow> slot_reachable c D i s'"

inductive_cases slot_stepE: "slot_step c D s s'"

context slot_contract_nomination
begin

lemma processNomination_R: "nom_keeps (processNomination c)"
  using processNomination_fuel_R unfolding nom_keeps_def processNomination_def by blast

lemma slot_processEnvelope_R:
  assumes run: "slot_processEnvelope c env False s = Inr (r, s')" and G: "G env"
  shows "R s s'"
proof (cases "pledges (statement env)")
  case (NOMINATE nom)
  then have "processNomination c env s = Inr (r, s')"
    using run by (auto simp: slot_processEnvelope_def elim!: bindE_InrE)
  then show ?thesis using processNomination_R unfolding nom_keeps_def by blast
qed (use run processEnvelope_R[OF advanceSlot_R, of False] G in
    \<open>auto simp: slot_processEnvelope_def elim!: bindE_InrE\<close>)

lemma slot_step_R:
  assumes step: "slot_step c D s s'" and G: "\<And>env. nodeID (statement env) \<noteq> mNodeID c \<Longrightarrow> D env \<Longrightarrow> G env"
  shows "R s s'"
  using step
proof (cases rule: slot_step.cases)
  case (receive env r)
  then show ?thesis using slot_processEnvelope_R G by blast
next
  case (nominate v p t b)
  then show ?thesis using nominate_R[OF processNomination_R] by (simp add: slot_nominate_def)
next
  case stop
  then show ?thesis using stopNomination_R by simp
next
  case timer
  then show ?thesis by (rule ballotProtocolTimerExpired_R)
next
  case (abandon b)
  then show ?thesis using abandonBallot_R[OF advanceSlot_R] by (simp add: slot_abandonBallot_def)
next
  case (bump v f b)
  then show ?thesis using bumpState_R[OF advanceSlot_R] by (simp add: slot_bumpState_def)
qed

lemma slot_reachable_R:
  assumes "slot_reachable c D i s" "\<And>env. nodeID (statement env) \<noteq> mNodeID c \<Longrightarrow> D env \<Longrightarrow> G env"
  shows "R (mkSlot c i) s"
  using assms(1)
proof induction
  case (step s s')
  then show ?case using slot_step_R[OF _ assms(2)] R_trans by blast
qed (rule R_refl)

end

section \<open>The invariants across nomination\<close>

lemma quiet_externalized:
  "list_all quiet es \<Longrightarrow> concat (map (\<lambda>e. case e of ValueExternalized i v \<Rightarrow> [(i, v)] | _ \<Rightarrow> []) es) = []"
  by (induction es) (auto simp: quiet_def split: DriverEvent.splits)

lemma quiet_emitted:
  "list_all quiet es \<Longrightarrow> concat (map (\<lambda>e. case e of
       EmitEnvelope env \<Rightarrow> (if isBallotStatement (statement env) then [statement env] else [])
     | _ \<Rightarrow> []) es) = []"
  by (induction es) (auto simp: quiet_def split: DriverEvent.splits)

lemma nominationUpdate_traces:
  assumes "nominationUpdate s s'"
  shows "externalizedValues s' = externalizedValues s" "emittedBallots s' = emittedBallots s"
  using assms
  by (auto simp: nominationUpdate_def externalizedValues_def emittedBallots_def quiet_externalized quiet_emitted)

lemma env_rel_nomination:
  assumes "nominationUpdate s s'"
  shows "env_rel c s s'"
proof -
  have "fst ` set (mStatementsHistory s) \<subseteq> fst ` set (mStatementsHistory s')"
    using assms by (auto simp: nominationUpdate_def)
  moreover have same: "mLatestEnvelopes s' = mLatestEnvelopes s" "mSlotIndex s' = mSlotIndex s"
    using assms by (simp_all add: nominationUpdate_def)
  ultimately have "env_inv c s \<longrightarrow> env_inv c s'"
    unfolding env_inv_def same by fast
  then show ?thesis unfolding env_rel_def same by simp
qed

lemma lock_rel_nomination:
  assumes "nominationUpdate s s'"
  shows "lock_rel c s s'"
proof -
  obtain hs where hs: "mStatementsHistory s' = mStatementsHistory s @ hs"
    "\<forall>p\<in>set hs. \<not> isBallotStatement (fst p)" and same: "same_ballots s s'"
    using assms by (auto simp: nominationUpdate_def)
  have "checkInvariants s' = checkInvariants s" "committedValue s' = committedValue s" "mPhase s' = mPhase s"
    using same by (auto simp: same_ballots_def committedValue_def intro: checkInvariants_cong)
  moreover have "\<forall>p\<in>set hs. claimedCommit (fst p) = None"
    using hs(2) by (auto simp: claimedCommit_def isBallotStatement_def split: SCPPledges.splits)
  ultimately show ?thesis using hs(1) by (auto simp: lock_rel_def lock_inv_def)
qed

lemma ext_rel_nomination: "nominationUpdate s s' \<Longrightarrow> ext_rel s s'"
  by (rule ext_rel_same[OF _ _ _ nominationUpdate_traces(1)])
     (simp_all add: nominationUpdate_def same_ballots_def)

lemma rat_rel_nomination: "nominationUpdate s s' \<Longrightarrow> rat_rel c s s'"
  by (rule rat_rel_intro[OF env_rel_nomination]) (auto simp: nominationUpdate_def same_ballots_def)

lemma emit_inv_nomination: "nominationUpdate s s' \<Longrightarrow> emit_inv c s \<longrightarrow> emit_inv c s'"
  by (rule emit_inv_same[OF _ _ nominationUpdate_traces(2)]) (simp_all add: nominationUpdate_def)

interpretation env_nom: slot_contract_nomination c "\<lambda>_. True" "env_rel c" for c
  by unfold_locales (rule env_rel_nomination)

interpretation lock_nom: slot_contract_nomination c "\<lambda>env. nodeID (statement env) \<noteq> mNodeID c" "lock_rel c" for c
  by unfold_locales (rule lock_rel_nomination)

interpretation ext_nom: slot_contract_nomination c "\<lambda>_. True" ext_rel for c
  by unfold_locales (rule ext_rel_nomination)

interpretation rat_nom: slot_contract_nomination c "\<lambda>_. True" "rat_rel c" for c
  by unfold_locales (rule rat_rel_nomination)

interpretation emitted_nom: slot_contract_nomination c "\<lambda>_. True" "\<lambda>s s'. emit_inv c s \<longrightarrow> emit_inv c s'" for c
  by unfold_locales (rule emit_inv_nomination)

section \<open>Who backs an externalized value\<close>

abbreviation history :: "Slot \<Rightarrow> SCPStatement set" where
  "history s \<equiv> fst ` set (mStatementsHistory s)"

lemma commitPredicate_claim: "commitPredicate (SCPBallot n v) i st \<Longrightarrow> claimedCommit st = Some v"
  by (auto simp: commitPredicate_def claimedCommit_def areBallotsCompatible_def split: SCPPledges.splits)

lemma claimedCommit_ballot: "claimedCommit st = Some v \<Longrightarrow> isBallotStatement st"
  by (auto simp: claimedCommit_def isBallotStatement_def split: SCPPledges.splits)

lemma ratifiedCommit_members:
  assumes "ratifiedCommit c s v"
  obtains U where "slice_spec (mQSet c) U"
    "\<And>k. k \<in> U \<Longrightarrow> \<exists>st\<in>history s. nodeID st = k \<and> claimedCommit st = Some v \<and>
       (\<exists>q. getQuorumSetFromStatement c st = Some q \<and> slice_spec q U)"
proof -
  from assms obtain envs n lo hi where known: "known_qsets c envs"
    and made: "\<And>k env. (k, env) \<in> set envs \<Longrightarrow> nodeID (statement env) = k \<and> statement env \<in> history s"
    and rat: "federatedRatify c (commitPredicate (SCPBallot n v) (lo, hi)) envs = Inr True"
    unfolding ratifiedCommit_def by blast
  from rat known obtain U where U: "U \<subseteq> agreeing envs (commitPredicate (SCPBallot n v) (lo, hi))"
    "nodes.quorum (announced c envs) U" "slice_spec (mQSet c) U"
    by (auto simp: federatedRatify_iff)
  show thesis
  proof (rule that[OF U(3)])
    fix k assume k: "k \<in> U"
    then obtain env where env: "map_of envs k = Some env" "claimedCommit (statement env) = Some v"
      using U(1) commitPredicate_claim by (auto simp: agreeing_def)
    have "(k, env) \<in> set envs" using env(1) by (rule map_of_SomeD)
    with known made have "getQuorumSetFromStatement c (statement env) \<noteq> None"
      "nodeID (statement env) = k" "statement env \<in> history s" by (auto simp: known_qsets_def)
    moreover have "slice_spec (announced c envs k) U"
      using U(2) k by (simp add: nodes.quorum_def node_sat_def)
    ultimately show "\<exists>st\<in>history s. nodeID st = k \<and> claimedCommit st = Some v \<and>
        (\<exists>q. getQuorumSetFromStatement c st = Some q \<and> slice_spec q U)"
      using env by (intro bexI[of _ "statement env"]) (auto simp: announced_def)
  qed
qed

section \<open>Reachable slots\<close>

lemma init_invariants:
  "env_inv c (mkSlot c i)" "lock_inv c (mkSlot c i)" "ext_inv (mkSlot c i)" "rat_inv c (mkSlot c i)"
  "emit_inv c (mkSlot c i)" "mSlotIndex (mkSlot c i) = i" "mCurrentMessageLevel (mkSlot c i) = 0"
  by (simp_all add: mkSlot_def env_inv_def lock_inv_def ext_inv_def rat_inv_def emit_inv_def
      externalizedValues_def emittedBallots_def)

lemma reachable_invariants:
  assumes "slot_reachable c D i s"
  shows "env_inv c s" "lock_inv c s" "ext_inv s" "rat_inv c s" "emit_inv c s" "mSlotIndex s = i"
    "mCurrentMessageLevel s = 0"
  using env_nom.slot_reachable_R[OF assms] lock_nom.slot_reachable_R[OF assms]
    ext_nom.slot_reachable_R[OF assms] rat_nom.slot_reachable_R[OF assms]
    emitted_nom.slot_reachable_R[OF assms] level_nom.slot_reachable_R[OF assms]
    init_invariants[where c = c and i = i]
  by (simp_all add: env_rel_def lock_rel_def ext_rel_def rat_rel_def same_level_def)

lemma demo_reachable:
  obtains s where "slot_step (demo 1) D (mkSlot (demo 1) 7) s" "slot_reachable (demo 1) D 7 s"
    "externalizedValues s = [(7, ''x'')]" "mPhase s = SCP_PHASE_EXTERNALIZE"
    "mCommit s = Some (SCPBallot 1 ''x'')" "statement demoEnvelope \<in> history s"
    "emittedBallots s = [statement demoEnvelope]" "map_of (mLatestEnvelopes s) 1 = Some demoEnvelope"
proof -
  from demo_nominates obtain s where
    run: "slot_nominate (demo 1) ''x'' ''p'' False (mkSlot (demo 1) 7) = Inr (True, s)"
    and s: "externalizedValues s = [(7, ''x'')]" "mPhase s = SCP_PHASE_EXTERNALIZE"
      "mCommit s = Some (SCPBallot 1 ''x'')" "statement demoEnvelope \<in> history s"
      "emittedBallots s = [statement demoEnvelope]" "map_of (mLatestEnvelopes s) 1 = Some demoEnvelope"
    by blast
  have step: "slot_step (demo 1) D (mkSlot (demo 1) 7) s" by (rule slot_step.nominate[OF run])
  show thesis by (rule that[OF step slot_reachable.step[OF slot_reachable.init step] s])
qed

section \<open>Properties\<close>

text \<open>C2. No operation on a reachable slot runs forever: processing an envelope, nominating, the
  ballot timer, abandoning a ballot and bumping the state all return, given that the driver extracts
  only values it validates.\<close>

theorem slot_returns:
  assumes "extracts c" "slot_reachable c D i s"
  shows "slot_processEnvelope c env self s \<noteq> Inl Diverges \<and>
    slot_nominate c value previous timedout s \<noteq> Inl Diverges \<and>
    ballotProtocolTimerExpired c s \<noteq> Inl Diverges \<and> slot_abandonBallot c s \<noteq> Inl Diverges \<and>
    slot_bumpState c value force s \<noteq> Inl Diverges"
proof -
  have level: "mCurrentMessageLevel s = 0" by (rule reachable_invariants[OF assms(2)])
  then have ret: "returns (advanceSlot c) (mCurrentMessageLevel s)" by (simp add: advanceSlot_returns)
  show ?thesis
    using processNomination_returns[OF assms(1) level] processEnvelope_no_div[OF ret] bumps_no_div[OF ret]
      nominate_returns[OF assms(1) level]
    by (auto simp: slot_processEnvelope_def slot_nominate_def ballotProtocolTimerExpired_def
        slot_abandonBallot_def slot_bumpState_def startBallotProtocolTimer_def bindE_Inl_iff
        split: SCPPledges.splits if_splits)
qed

theorem slot_returns_witness: "slot_processEnvelope (demo 1) demoEnvelope False (mkSlot (demo 1) 7) \<noteq> Inl Diverges"
  using slot_returns[of "demo 1" "\<lambda>_. True" 7 "mkSlot (demo 1) 7" demoEnvelope False] slot_reachable.init
  by (simp add: extracts_def)

text \<open>C3. A slot externalizes at most once, with the value it has committed to; what it has told
  the driver never changes afterwards, and the committed value stays.\<close>

theorem externalizes_once:
  assumes "slot_reachable c D i s" "slot_step c D s s'"
  shows "(externalizedValues s = [] \<or> (\<exists>cm. mPhase s = SCP_PHASE_EXTERNALIZE \<and> mCommit s = Some cm \<and>
      externalizedValues s = [(i, bvalue cm)])) \<and>
    (mPhase s = SCP_PHASE_EXTERNALIZE \<longrightarrow> mPhase s' = SCP_PHASE_EXTERNALIZE \<and> mCommit s' = mCommit s \<and>
      externalizedValues s' = externalizedValues s)"
  using reachable_invariants(3,6)[OF assms(1)] ext_nom.slot_step_R[OF assms(2)]
  by (auto simp: ext_inv_def ext_rel_def split: if_splits)

theorem externalizes_once_witness:
  "\<exists>s. externalizedValues s = [(7, ''x'')] \<and> externalizedValues (stopNomination s) = [(7, ''x'')]"
proof -
  obtain s where s: "slot_reachable (demo 1) (\<lambda>_. True) 7 s" "externalizedValues s = [(7, ''x'')]"
    "mPhase s = SCP_PHASE_EXTERNALIZE" using demo_reachable by blast
  from externalizes_once[OF s(1) slot_step.stop] s(2,3) show ?thesis by auto
qed

text \<open>C13. Once a node has accepted a value as committed it never changes its mind: the value
  stays the committed one in every later state, and every CONFIRM or EXTERNALIZE statement it has
  ever made names that value.\<close>

theorem commit_locked:
  assumes "slot_reachable c D i s" "slot_step c D s s'" "committedValue s = Some v"
  shows "committedValue s' = Some v \<and>
    (\<forall>st \<in> history s'. nodeID st = mNodeID c \<longrightarrow> claimedCommit st = None \<or> claimedCommit st = Some v)"
  using reachable_invariants(2)[OF assms(1)] lock_nom.slot_step_R[OF assms(2)] assms(3)
  by (auto simp: lock_rel_def lock_inv_def)

theorem commit_locked_witness: "\<exists>s. committedValue s = Some ''x'' \<and> committedValue (stopNomination s) = Some ''x''"
proof -
  obtain s where s: "slot_reachable (demo 1) (\<lambda>_. True) 7 s" "mPhase s = SCP_PHASE_EXTERNALIZE"
    "mCommit s = Some (SCPBallot 1 ''x'')" using demo_reachable by blast
  have "committedValue s = Some ''x''" using s by (simp add: committedValue_def)
  with commit_locked[OF s(1) slot_step.stop] show ?thesis by auto
qed

text \<open>C14. A slot externalizes only a value that a quorum has accepted to commit: there is a set of
  nodes that contains a slice of the local node, and each of its members has made a statement that
  accepts the commit and whose quorum set has a slice inside the set.\<close>

theorem externalizes_ratified:
  assumes "slot_reachable c D i s" "(j, v) \<in> set (externalizedValues s)"
  shows "\<exists>U. slice_spec (mQSet c) U \<and> (\<forall>k\<in>U. \<exists>st\<in>history s. nodeID st = k \<and> claimedCommit st = Some v \<and>
    (\<exists>q. getQuorumSetFromStatement c st = Some q \<and> slice_spec q U))"
proof -
  have "ratifiedCommit c s v"
    using reachable_invariants(3,4)[OF assms(1)] assms(2) by (auto simp: ext_inv_def rat_inv_def split: if_splits)
  from ratifiedCommit_members[OF this] show ?thesis by metis
qed

theorem externalizes_ratified_witness:
  "\<exists>s st. (7, ''x'') \<in> set (externalizedValues s) \<and> st \<in> history s \<and> nodeID st = 1 \<and> claimedCommit st = Some ''x''"
proof -
  obtain s where s: "slot_reachable (demo 1) (\<lambda>_. True) 7 s" "externalizedValues s = [(7, ''x'')]"
    using demo_reachable by blast
  then have ext: "(7, ''x'') \<in> set (externalizedValues s)" by simp
  obtain U where U: "slice_spec (SCPQuorumSet 1 [1] []) U"
    "\<forall>k\<in>U. \<exists>st\<in>history s. nodeID st = k \<and> claimedCommit st = Some ''x''"
    using externalizes_ratified[OF s(1) ext] unfolding demo_simps by blast
  from U(1) have "1 \<in> U" by (auto simp: needed_def split: if_splits)
  with U(2) ext show ?thesis by blast
qed

text \<open>C16. The ballot statements a slot sends are its own and get strictly newer.\<close>

theorem emits_in_order:
  assumes "slot_reachable c D i s"
  shows "sorted_wrt isNewerStatement (emittedBallots s) \<and> (\<forall>st\<in>set (emittedBallots s). nodeID st = mNodeID c)"
  using reachable_invariants(5)[OF assms] by (simp add: emit_inv_def)

theorem emits_in_order_witness: "\<exists>s. emittedBallots s = [statement demoEnvelope] \<and> sorted_wrt isNewerStatement (emittedBallots s)"
proof -
  obtain s where "slot_reachable (demo 1) (\<lambda>_. True) 7 s" "emittedBallots s = [statement demoEnvelope]"
    using demo_reachable by blast
  with emits_in_order show ?thesis by blast
qed

text \<open>C17. What a slot knows of another node only gets newer, and it can always look up the quorum
  sets of the statements it keeps.\<close>

theorem latest_only_newer:
  assumes "slot_reachable c D i s" "slot_step c D s s'" "map_of (mLatestEnvelopes s) n = Some e"
  shows "\<exists>e'. map_of (mLatestEnvelopes s') n = Some e' \<and>
    (e' = e \<or> isNewerStatement (statement e) (statement e')) \<and>
    nodeID (statement e') = n \<and> getQuorumSetFromStatement c (statement e') \<noteq> None"
proof -
  have inv: "env_inv c s'" and newer: "env_newer (mLatestEnvelopes s) (mLatestEnvelopes s')"
    using reachable_invariants(1)[OF assms(1)] env_nom.slot_step_R[OF assms(2)] by (simp_all add: env_rel_def)
  from newer assms(3) obtain e' where e': "map_of (mLatestEnvelopes s') n = Some e'"
    "e' = e \<or> isNewerStatement (statement e) (statement e')" unfolding env_newer_def by blast
  moreover have "(n, e') \<in> set (mLatestEnvelopes s')" using e'(1) by (rule map_of_SomeD)
  ultimately show ?thesis using inv unfolding env_inv_def by blast
qed

theorem latest_only_newer_witness:
  "\<exists>s e'. map_of (mLatestEnvelopes s) 1 = Some demoEnvelope \<and>
    map_of (mLatestEnvelopes (stopNomination s)) 1 = Some e' \<and> nodeID (statement e') = 1"
proof -
  obtain s where s: "slot_reachable (demo 1) (\<lambda>_. True) 7 s" "map_of (mLatestEnvelopes s) 1 = Some demoEnvelope"
    using demo_reachable by blast
  from latest_only_newer[OF s(1) slot_step.stop s(2)] s(2) show ?thesis by blast
qed

text \<open>C18. A slot only moves forward: the phase never falls back, and within a phase the counter of
  the current ballot never decreases.\<close>

theorem moves_forward:
  assumes "slot_step c D s s'"
  shows "phaseRank (mPhase s) < phaseRank (mPhase s') \<or> mPhase s = mPhase s' \<and> currentRank s \<le> currentRank s'"
  using forward_nom.slot_step_R[OF assms] by (simp add: forward_def)

theorem moves_forward_witness:
  "\<exists>s :: Slot. mPhase s = SCP_PHASE_EXTERNALIZE \<and> phaseRank (mPhase (mkSlot (demo 1) 7)) < phaseRank (mPhase s)"
proof -
  obtain s where s: "slot_step (demo 1) (\<lambda>_. True) (mkSlot (demo 1) 7) s" "mPhase s = SCP_PHASE_EXTERNALIZE"
    using demo_reachable by blast
  have "mPhase (mkSlot (demo 1) 7) = SCP_PHASE_PREPARE" by (simp add: mkSlot_def)
  with moves_forward[OF s(1)] s(2) show ?thesis by (intro exI[of _ s]) auto
qed

end
