(* ===== verification/Agreement.thy ===== *)
theory Agreement
  imports SlotReachability
begin

text \<open>
  Agreement. A network is a set of honest nodes, each with its slot of the same index, that take
  steps in any order; all other nodes may send anything. What an honest node receives under the
  name of an honest node is a statement that node has made. If any two quorums share an honest
  node, two honest nodes never externalize different values.

  The argument follows the code. A node externalizes only a value that a quorum has accepted to
  commit; an honest node never claims two committed values; but a node that has externalized is
  counted as its own quorum, so the quorum is first completed with the quorums those nodes
  externalized with.
\<close>

section \<open>What a slot records and sends\<close>

text \<open>A statement of the node itself is true to its quorum set and its phase.\<close>

definition truthful :: "SCPContext \<Rightarrow> Slot \<Rightarrow> SCPStatement \<Rightarrow> bool" where
  "truthful c s st =
     (case pledges st of
        PREPARE p \<Rightarrow> p_quorumSetHash p = mQSetHash c
      | CONFIRM cf \<Rightarrow> c_quorumSetHash cf = mQSetHash c
      | EXTERNALIZE e \<Rightarrow> e_commitQuorumSetHash e = mQSetHash c \<and> mPhase s = SCP_PHASE_EXTERNALIZE
      | NOMINATE n \<Rightarrow> True)"

definition made_inv :: "SCPContext \<Rightarrow> Slot \<Rightarrow> bool" where
  "made_inv c s \<longleftrightarrow>
     (\<forall>st \<in> history s. nodeID st = mNodeID c \<longrightarrow> truthful c s st) \<and>
     (case mLastEnvelope s of None \<Rightarrow> True | Some (k, e) \<Rightarrow> statement e \<in> history s) \<and>
     set (emittedBallots s) \<subseteq> history s"

definition made_rel :: "SCPContext \<Rightarrow> (SCPEnvelope \<Rightarrow> bool) \<Rightarrow> Slot \<Rightarrow> Slot \<Rightarrow> bool" where
  "made_rel c D s s' \<longleftrightarrow>
     forward s s' \<and> history s \<subseteq> history s' \<and>
     (\<forall>st \<in> history s'. isBallotStatement st \<longrightarrow>
        st \<in> history s \<or> nodeID st = mNodeID c \<or> (\<exists>env. D env \<and> statement env = st)) \<and>
     (made_inv c s \<longrightarrow> made_inv c s')"

lemma forward_externalize: "forward s s' \<Longrightarrow> mPhase s = SCP_PHASE_EXTERNALIZE \<Longrightarrow> mPhase s' = SCP_PHASE_EXTERNALIZE"
  by (cases "mPhase s'") (auto simp: forward_def)

lemma truthful_forward: "forward s s' \<Longrightarrow> truthful c s st \<Longrightarrow> truthful c s' st"
  by (auto simp: truthful_def dest: forward_externalize split: SCPPledges.splits)

lemma made_rel_refl: "made_rel c D s s"
  by (simp add: made_rel_def forward_def)

lemma made_rel_trans:
  assumes "made_rel c D s t" "made_rel c D t u"
  shows "made_rel c D s u"
proof -
  have "forward s u" using assms forward_trans[of s t u] by (simp add: made_rel_def)
  moreover have "history s \<subseteq> history u" using assms by (auto simp: made_rel_def)
  moreover have "st \<in> history s \<or> nodeID st = mNodeID c \<or> (\<exists>env. D env \<and> statement env = st)"
    if "st \<in> history u" "isBallotStatement st" for st
    using assms that unfolding made_rel_def by blast
  ultimately show ?thesis using assms unfolding made_rel_def by blast
qed

lemma made_rel_same:
  assumes fwd: "forward s s'" and hist: "history s' = history s"
    and "mLastEnvelope s' = mLastEnvelope s" "emittedBallots s' = emittedBallots s"
  shows "made_rel c D s s'"
proof -
  have "made_inv c s \<longrightarrow> made_inv c s'"
    unfolding made_inv_def assms(2-4) using truthful_forward[OF fwd] by blast
  then show ?thesis using fwd by (simp add: made_rel_def hist)
qed

lemma made_rel_update: "ballotUpdate s s' \<Longrightarrow> forward s s' \<Longrightarrow> made_rel c D s s'"
  by (rule made_rel_same) (auto simp: ballotUpdate_def intro: emittedBallots_extend)

lemma own_truthful: "ownEnvelope c s env \<Longrightarrow> truthful c s (statement env)"
  by (auto simp: ownEnvelope_def createStatement_def truthful_def bindE_Inr_iff split: SCPPhase.splits)

lemma made_rel_record:
  assumes own: "if self then ownEnvelope c s env else nodeID (statement env) \<noteq> mNodeID c \<and> D env"
    and t: "t = s \<or> active s \<and> t = s\<lparr>mFullyValidated := False\<rparr>"
  shows "made_rel c D s (recordEnvelope env t)"
proof -
  let ?s' = "recordEnvelope env t"
  have same: "history ?s' = insert (statement env) (history s)" "mLastEnvelope ?s' = mLastEnvelope s"
    "emittedBallots ?s' = emittedBallots s" "mPhase ?s' = mPhase s" "mCurrentBallot ?s' = mCurrentBallot s"
    using t by (auto simp: emittedBallots_def)
  have fwd: "forward s ?s'" by (rule forward_same) (simp_all only: same)
  have env: "nodeID (statement env) = mNodeID c \<longrightarrow> truthful c s (statement env)"
    "nodeID (statement env) = mNodeID c \<or> D env"
    using own own_truthful[of c s env] by (auto simp: ownEnvelope_def split: if_splits)
  have "made_inv c ?s'" if inv: "made_inv c s"
  proof -
    have "\<forall>st \<in> history ?s'. nodeID st = mNodeID c \<longrightarrow> truthful c s st"
      using inv env(1) unfolding made_inv_def same by blast
    then have "\<forall>st \<in> history ?s'. nodeID st = mNodeID c \<longrightarrow> truthful c ?s' st"
      using truthful_forward[OF fwd] by blast
    then show ?thesis
      using inv unfolding made_inv_def same by (auto split: option.splits)
  qed
  then show ?thesis using fwd env(2) unfolding made_rel_def same by blast
qed

lemma made_rel_last:
  assumes "made_rel c D s0 s" "statement env \<in> history s0"
  shows "made_rel c D s (s\<lparr>mLastEnvelope := freshPtr (mLastEnvelope s) env\<rparr>)"
proof -
  let ?s' = "s\<lparr>mLastEnvelope := freshPtr (mLastEnvelope s) env\<rparr>"
  have fwd: "forward s ?s'" by (rule forward_same) simp_all
  have "statement env \<in> history s" using assms by (auto simp: made_rel_def)
  then have "made_inv c s \<longrightarrow> made_inv c ?s'"
    using truthful_forward[OF fwd] by (auto simp: made_inv_def freshPtr_def emittedBallots_def)
  then show ?thesis using fwd by (simp add: made_rel_def)
qed

lemma made_rel_send: "made_rel c D s (sendLatestEnvelope s)"
proof -
  have fwd: "forward s (sendLatestEnvelope s)" by (rule forward_same) simp_all
  have "emittedBallots (sendLatestEnvelope s) = emittedBallots s \<or>
      (\<exists>k e. mLastEnvelope s = Some (k, e) \<and>
        set (emittedBallots (sendLatestEnvelope s)) \<subseteq> insert (statement e) (set (emittedBallots s)))"
    using mTrace_sendLatestEnvelope[of s]
  proof (elim disjE exE conjE)
    fix k e
    assume "mLastEnvelope s = Some (k, e)" "mTrace (sendLatestEnvelope s) = mTrace s @ [EmitEnvelope e]"
    moreover from this(2) have "emittedBallots (sendLatestEnvelope s) = emittedBallots s @
        (if isBallotStatement (statement e) then [statement e] else [])"
      by (simp add: emittedBallots_def)
    ultimately show ?thesis by (auto split: if_splits)
  qed (simp add: emittedBallots_def)
  then have "made_inv c (sendLatestEnvelope s)" if "made_inv c s"
    using that truthful_forward[OF fwd] unfolding made_inv_def sendLatestEnvelope_simps
    by (elim disjE exE conjE) (simp_all, blast+)
  then show ?thesis using fwd by (simp add: made_rel_def)
qed

interpretation made: slot_contract c "\<lambda>env. nodeID (statement env) \<noteq> mNodeID c \<and> D env" "made_rel c D" for c D
proof (unfold_locales, goal_cases)
  case 1
  show ?case by (rule made_rel_refl)
next
  case (2 s t u)
  then show ?case by (rule made_rel_trans)
next
  case (3 s t)
  have "made_rel c D s (s\<lparr>mCurrentMessageLevel := mCurrentMessageLevel s + 1\<rparr>)"
    "made_rel c D t (t\<lparr>mCurrentMessageLevel := mCurrentMessageLevel t - 1\<rparr>)"
    by (rule made_rel_same; simp add: emittedBallots_def forward_same)+
  with 3 show ?case using made_rel_trans by blast
next
  case (4 s)
  show ?case by (rule made_rel_same) (simp_all add: emittedBallots_def forward_same)
next
  case (5 e s)
  then show ?case
    by (intro made_rel_same forward_same emittedBallots_extend[of "[e]"]) auto
next
  case (6 s)
  show ?case by (rule made_rel_send)
next
  case (7 env self s t)
  then show ?case by (intro made_rel_record)
next
  case (8 env s s0)
  from 8(4,5) show ?case by (rule made_rel_last)
next
  case (9 s b n v s')
  then show ?case
    using forward.R_bump[OF 9] by (intro made_rel_update) (auto simp: updateCurrentValue_True)
next
  case (10 s b s')
  then show ?case
    using forward.R_accept[OF 10] setPreparedAccept_update[OF 10(4)] by (intro made_rel_update) auto
next
  case (11 s newH newC s')
  then show ?case
    using forward.R_confirm[OF 11] setPreparedConfirmed_update[OF 11(5)] by (intro made_rel_update) auto
next
  case (12 s lo v hi n s')
  then show ?case
    using forward.R_commit[OF 12] setAcceptCommit_update[OF 12(5,1)] by (intro made_rel_update) auto
next
  case (13 s cm0 v lo n hi s1 s2 cm)
  have "made_rel c D s2 (notify (ValueExternalized (mSlotIndex s2) (bvalue cm)) (stopNomination s2))"
    by (rule made_rel_same) (auto simp: emittedBallots_def intro: forward_same)
  moreover have "made_rel c D s s1"
    using setConfirmCommit_update[OF 13(7)] 13(1) by (intro made_rel_update) (auto simp: forward_def)
  ultimately show ?case using 13(9) made_rel_trans by blast
qed

lemma made_rel_nomination:
  assumes "nominationUpdate s s'"
  shows "made_rel c D s s'"
proof -
  obtain hs where app: "mStatementsHistory s' = mStatementsHistory s @ hs"
    and quiet: "\<forall>p\<in>set hs. \<not> isBallotStatement (fst p)"
    using assms by (auto simp: nominationUpdate_def)
  then have hs: "history s' = history s \<union> fst ` set hs" by (simp only: set_append image_Un)
  have fwd: "forward s s'"
    using assms by (intro forward_same) (simp_all add: nominationUpdate_def same_ballots_def)
  have new: "truthful c s' st" if "st \<in> fst ` set hs" for st
    using that quiet by (auto simp: truthful_def isBallotStatement_def split: SCPPledges.splits)
  have last: "mLastEnvelope s' = mLastEnvelope s" using assms by (simp add: nominationUpdate_def)
  have "made_inv c s'" if inv: "made_inv c s"
  proof -
    have "\<forall>st \<in> history s'. nodeID st = mNodeID c \<longrightarrow> truthful c s' st"
      using inv new truthful_forward[OF fwd] unfolding made_inv_def hs by blast
    moreover have "case mLastEnvelope s of None \<Rightarrow> True | Some (k, e) \<Rightarrow> statement e \<in> history s'"
      using inv by (auto simp: made_inv_def hs split: option.splits)
    moreover have "set (emittedBallots s) \<subseteq> history s'" using inv by (auto simp: made_inv_def hs)
    ultimately show ?thesis
      unfolding made_inv_def last nominationUpdate_traces(2)[OF assms] by simp
  qed
  moreover have "isBallotStatement st \<longrightarrow> st \<in> history s" if "st \<in> history s'" for st
    using that quiet unfolding hs by blast
  ultimately show ?thesis using fwd unfolding made_rel_def hs by blast
qed

interpretation made_nom:
  slot_contract_nomination c "\<lambda>env. nodeID (statement env) \<noteq> mNodeID c \<and> D env" "made_rel c D" for c D
  by unfold_locales (rule made_rel_nomination)

section \<open>The network\<close>

type_synonym network = "NodeID \<Rightarrow> Slot"

text \<open>A statement under the name of an honest node has been made by it.\<close>

definition delivered :: "NodeID set \<Rightarrow> network \<Rightarrow> SCPEnvelope \<Rightarrow> bool" where
  "delivered H net env \<longleftrightarrow>
     (nodeID (statement env) \<in> H \<longrightarrow> statement env \<in> history (net (nodeID (statement env))))"

inductive net_reachable ::
  "(NodeID \<Rightarrow> SCPContext) \<Rightarrow> NodeID set \<Rightarrow> uint64 \<Rightarrow> network \<Rightarrow> bool" for cs H i where
  start: "net_reachable cs H i (\<lambda>n. mkSlot (cs n) i)"
| move: "net_reachable cs H i net \<Longrightarrow> n \<in> H \<Longrightarrow> slot_step (cs n) (delivered H net) (net n) s' \<Longrightarrow>
    net_reachable cs H i (net(n := s'))"

text \<open>The configuration: every honest node has its own identity, and the hash an honest node
  announces is looked up as its quorum set or not at all.\<close>

definition configured :: "(NodeID \<Rightarrow> SCPContext) \<Rightarrow> NodeID set \<Rightarrow> bool" where
  "configured cs H \<longleftrightarrow> (\<forall>n\<in>H. mNodeID (cs n) = n \<and>
     (\<forall>m\<in>H. getQSet (cs n) (mQSetHash (cs m)) \<in> {None, Some (mQSet (cs m))}))"

text \<open>A set of nodes that satisfies a node and each of its honest members.\<close>

definition supports :: "(NodeID \<Rightarrow> SCPContext) \<Rightarrow> NodeID set \<Rightarrow> NodeID \<Rightarrow> NodeID set \<Rightarrow> bool" where
  "supports cs H n U \<longleftrightarrow> slice_spec (mQSet (cs n)) U \<and> (\<forall>k\<in>U \<inter> H. slice_spec (mQSet (cs k)) U)"

definition intersecting :: "(NodeID \<Rightarrow> SCPContext) \<Rightarrow> NodeID set \<Rightarrow> bool" where
  "intersecting cs H \<longleftrightarrow> (\<forall>n\<in>H. \<forall>m\<in>H. \<forall>U V. supports cs H n U \<longrightarrow> supports cs H m V \<longrightarrow> U \<inter> V \<inter> H \<noteq> {})"

section \<open>Invariants of the network\<close>

definition slot_inv :: "SCPContext \<Rightarrow> Slot \<Rightarrow> bool" where
  "slot_inv c s \<longleftrightarrow> lock_inv c s \<and> rat_inv c s \<and> made_inv c s \<and> ext_inv s"

definition backed :: "(NodeID \<Rightarrow> SCPContext) \<Rightarrow> NodeID set \<Rightarrow> network \<Rightarrow> NodeID \<Rightarrow> Value \<Rightarrow> NodeID set \<Rightarrow> bool" where
  "backed cs H net n v U \<longleftrightarrow> supports cs H n U \<and> (\<forall>k\<in>U \<inter> H. committedValue (net k) = Some v)"

definition net_inv :: "(NodeID \<Rightarrow> SCPContext) \<Rightarrow> NodeID set \<Rightarrow> network \<Rightarrow> bool" where
  "net_inv cs H net \<longleftrightarrow> (\<forall>n\<in>H. slot_inv (cs n) (net n) \<and>
     (\<forall>st \<in> history (net n). isBallotStatement st \<longrightarrow> nodeID st \<in> H \<longrightarrow> st \<in> history (net (nodeID st))) \<and>
     (mPhase (net n) = SCP_PHASE_EXTERNALIZE \<longrightarrow>
        (\<exists>v U. committedValue (net n) = Some v \<and> backed cs H net n v U)))"

lemma net_inv_backed:
  assumes "net_inv cs H net" "n \<in> H" "mPhase (net n) = SCP_PHASE_EXTERNALIZE" "committedValue (net n) = Some v"
  shows "\<exists>U. backed cs H net n v U"
proof -
  from assms(1-3) obtain w U where "committedValue (net n) = Some w" "backed cs H net n w U"
    unfolding net_inv_def by blast
  then show ?thesis using assms(4) by auto
qed

lemma slot_inv_init: "slot_inv c (mkSlot c i)"
  by (simp add: slot_inv_def mkSlot_def lock_inv_def rat_inv_def env_inv_def made_inv_def emittedBallots_def
      ext_inv_def externalizedValues_def)

lemma slot_inv_step: "slot_step c D s s' \<Longrightarrow> slot_inv c s \<Longrightarrow> slot_inv c s'"
  using lock_nom.slot_step_R[of c D s s'] rat_nom.slot_step_R[of c D s s'] made_nom.slot_step_R[of c D s s']
    ext_nom.slot_step_R[of c D s s']
  by (simp add: slot_inv_def lock_rel_def rat_rel_def made_rel_def ext_rel_def)

lemma committedValue_step:
  "slot_step c D s s' \<Longrightarrow> slot_inv c s \<Longrightarrow> committedValue s = Some v \<Longrightarrow> committedValue s' = Some v"
  using lock_nom.slot_step_R[of c D s s'] by (auto simp: slot_inv_def lock_rel_def)

text \<open>The members of the quorum a node has externalized with, seen from the network.\<close>

lemma ratified_member:
  assumes inv: "net_inv cs H net" and conf: "configured cs H" and n: "n \<in> H" and k: "k \<in> H" "k \<noteq> n"
    and st: "st \<in> history (net k)" "nodeID st = k" "claimedCommit st = Some v"
    and q: "getQuorumSetFromStatement (cs n) st = Some q" "slice_spec q U"
  shows "committedValue (net k) = Some v \<and>
    (slice_spec (mQSet (cs k)) U \<or> (\<exists>W. backed cs H net k v W))"
proof -
  have good: "slot_inv (cs k) (net k)" "mNodeID (cs k) = k"
    using inv conf k(1) by (auto simp: net_inv_def configured_def)
  then have com: "committedValue (net k) = Some v"
    using st by (fastforce simp: slot_inv_def lock_inv_def)
  have true: "truthful (cs k) (net k) st"
    using good st by (auto simp: slot_inv_def made_inv_def)
  show ?thesis
  proof (cases "pledges st")
    case (CONFIRM cf)
    have "getQSet (cs n) (mQSetHash (cs k)) \<in> {None, Some (mQSet (cs k))}"
      using conf n k(1) unfolding configured_def by blast
    then have "q = mQSet (cs k)"
      using CONFIRM true q by (simp add: truthful_def getQuorumSetFromStatement_def)
    then show ?thesis using com q(2) by simp
  next
    case (EXTERNALIZE e)
    then have "mPhase (net k) = SCP_PHASE_EXTERNALIZE" using true by (simp add: truthful_def)
    then show ?thesis using net_inv_backed[OF inv k(1)] com by blast
  qed (use st(3) in \<open>simp_all add: claimedCommit_def\<close>)
qed

lemma ratified_backed:
  assumes inv: "net_inv cs H net" and conf: "configured cs H" and n: "n \<in> H"
    and rat: "ratifiedCommit (cs n) s' v" and com: "committedValue s' = Some v"
    and auth: "\<And>st. st \<in> history s' \<Longrightarrow> isBallotStatement st \<Longrightarrow> nodeID st \<in> H \<Longrightarrow> nodeID st \<noteq> n \<Longrightarrow>
      st \<in> history (net (nodeID st))"
    and kept: "\<And>k w. k \<in> H \<Longrightarrow> committedValue (net k) = Some w \<Longrightarrow> committedValue ((net(n := s')) k) = Some w"
  shows "\<exists>U. backed cs H (net(n := s')) n v U"
proof -
  from ratifiedCommit_members[OF rat] obtain U where U: "slice_spec (mQSet (cs n)) U"
    and mem: "\<And>k. k \<in> U \<Longrightarrow> \<exists>st\<in>history s'. nodeID st = k \<and> claimedCommit st = Some v \<and>
       (\<exists>q. getQuorumSetFromStatement (cs n) st = Some q \<and> slice_spec q U)" by blast
  have member: "committedValue (net k) = Some v \<and>
      (slice_spec (mQSet (cs k)) U \<or> (\<exists>W. backed cs H net k v W))" if k: "k \<in> U \<inter> H" "k \<noteq> n" for k
  proof -
    from mem k obtain st q where st: "st \<in> history s'" "nodeID st = k" "claimedCommit st = Some v"
      and q: "getQuorumSetFromStatement (cs n) st = Some q" "slice_spec q U" by blast
    have "st \<in> history (net k)" using auth[OF st(1) claimedCommit_ballot[OF st(3)]] st(2) k by auto
    then show ?thesis using ratified_member[OF inv conf n _ k(2) _ st(2,3) q] k by blast
  qed
  define E where "E = {k \<in> U \<inter> H. k \<noteq> n \<and> \<not> slice_spec (mQSet (cs k)) U}"
  have "\<forall>k\<in>E. \<exists>W. backed cs H net k v W" using member by (auto simp: E_def)
  then obtain W where W: "\<And>k. k \<in> E \<Longrightarrow> backed cs H net k v (W k)" by metis
  let ?V = "U \<union> (\<Union>k\<in>E. W k)"
  have slices: "slice_spec (mQSet (cs k)) ?V" if "k \<in> ?V \<inter> H" for k
  proof -
    consider "k \<in> U" "k \<notin> E" | "k \<in> E" | j where "j \<in> E" "k \<in> W j" using \<open>k \<in> ?V \<inter> H\<close> by blast
    then show ?thesis
    proof cases
      case 1
      then have "slice_spec (mQSet (cs k)) U" using U that by (auto simp: E_def)
      then show ?thesis by (rule slice_spec_mono) blast
    next
      case 2
      with W have "slice_spec (mQSet (cs k)) (W k)" by (simp add: backed_def supports_def)
      then show ?thesis by (rule slice_spec_mono) (use 2 in blast)
    next
      case 3
      with W have "slice_spec (mQSet (cs k)) (W j)" using that by (auto simp: backed_def supports_def)
      then show ?thesis by (rule slice_spec_mono) (use 3 in blast)
    qed
  qed
  have "committedValue (net k) = Some v \<or> k = n" if "k \<in> ?V \<inter> H" for k
    using that member W by (auto simp: backed_def)
  then have "committedValue ((net(n := s')) k) = Some v" if "k \<in> ?V \<inter> H" for k
    using kept[of k v] com that by auto
  moreover have "slice_spec (mQSet (cs n)) ?V" by (rule slice_spec_mono[OF U]) blast
  ultimately show ?thesis using slices unfolding backed_def supports_def by blast
qed

lemma net_inv_step:
  assumes inv: "net_inv cs H net" and conf: "configured cs H" and n: "n \<in> H"
    and step: "slot_step (cs n) (delivered H net) (net n) s'"
  shows "net_inv cs H (net(n := s'))"
proof -
  let ?net = "net(n := s')"
  have good: "slot_inv (cs n) (net n)" "mNodeID (cs n) = n"
    using inv conf n by (auto simp: net_inv_def configured_def)
  have good': "slot_inv (cs n) s'" using slot_inv_step[OF step good(1)] .
  have made: "made_rel (cs n) (delivered H net) (net n) s'"
    by (rule made_nom.slot_step_R[OF step]) simp
  have kept: "committedValue (?net k) = Some w" if "committedValue (net k) = Some w" for k w
    using committedValue_step[OF step good(1)] that by auto
  have grow: "history (net k) \<subseteq> history (?net k)" for k using made by (simp add: made_rel_def)
  have new: "st \<in> history (?net (nodeID st))"
    if "st \<in> history s'" "isBallotStatement st" "nodeID st \<in> H" for st
  proof (cases "nodeID st = n")
    case False
    with made that have "st \<in> history (net n) \<or> (\<exists>env. delivered H net env \<and> statement env = st)"
      unfolding made_rel_def good(2) by blast
    then have "st \<in> history (net (nodeID st))"
      using inv n that unfolding net_inv_def delivered_def by blast
    then show ?thesis using grow by blast
  qed (use that in simp)
  have backed: "\<exists>v U. committedValue (?net m) = Some v \<and> backed cs H ?net m v U"
    if m: "m \<in> H" "mPhase (?net m) = SCP_PHASE_EXTERNALIZE" for m
  proof (cases "mPhase (net m) = SCP_PHASE_EXTERNALIZE")
    case True
    then obtain v U where "committedValue (net m) = Some v" "backed cs H net m v U"
      using inv m(1) by (auto simp: net_inv_def)
    then show ?thesis using kept unfolding backed_def by blast
  next
    case False
    then have mn: "m = n" using m by (auto split: if_splits)
    then obtain cm where cm: "mCommit s' = Some cm" "ratifiedCommit (cs n) s' (bvalue cm)"
      using good' m(2) by (auto simp: slot_inv_def rat_inv_def)
    have com: "committedValue s' = Some (bvalue cm)" using cm(1) m(2) mn by (simp add: committedValue_def)
    have "\<exists>U. backed cs H ?net n (bvalue cm) U"
    proof (rule ratified_backed[OF inv conf n cm(2) com])
      fix st assume "st \<in> history s'" "isBallotStatement st" "nodeID st \<in> H" "nodeID st \<noteq> n"
      then show "st \<in> history (net (nodeID st))" using new[of st] by simp
    qed (use kept in blast)
    then show ?thesis using mn com by auto
  qed
  show ?thesis
    unfolding net_inv_def
  proof (intro ballI conjI impI)
    fix m assume m: "m \<in> H"
    show "slot_inv (cs m) (?net m)" using inv m good' by (auto simp: net_inv_def)
    fix st assume st: "st \<in> history (?net m)" "isBallotStatement st" "nodeID st \<in> H"
    show "st \<in> history (?net (nodeID st))"
    proof (cases "m = n")
      case False
      then have "st \<in> history (net m)" using st(1) by simp
      then have "st \<in> history (net (nodeID st))" using inv m st(2,3) unfolding net_inv_def by blast
      then show ?thesis using grow by blast
    qed (use new st in simp)
  qed (use backed in auto)
qed

lemma net_inv_reachable:
  assumes "net_reachable cs H i net" "configured cs H"
  shows "net_inv cs H net"
  using assms(1)
proof induction
  case start
  show ?case by (simp add: net_inv_def slot_inv_init) (simp add: mkSlot_def)
next
  case (move net n s')
  then show ?case using net_inv_step[OF _ assms(2)] by blast
qed

section \<open>Properties\<close>

text \<open>C1. Agreement. In a network where any two sets of nodes that support an honest node share an
  honest node, two honest nodes never externalize different values for a slot, whatever the other
  nodes send and in whatever order messages and timers arrive.\<close>

theorem agreement:
  assumes "net_reachable cs H i net" "configured cs H" "intersecting cs H" "n \<in> H" "m \<in> H"
    and "(j, x) \<in> set (externalizedValues (net n))" "(k, y) \<in> set (externalizedValues (net m))"
  shows "x = y"
proof -
  have inv: "net_inv cs H net" by (rule net_inv_reachable[OF assms(1,2)])
  have support: "\<exists>U. backed cs H net n v U" if "n \<in> H" "(j, v) \<in> set (externalizedValues (net n))" for n j v
  proof -
    have "ext_inv (net n)" using inv that(1) by (simp add: net_inv_def slot_inv_def)
    with that(2) have "mPhase (net n) = SCP_PHASE_EXTERNALIZE \<and> committedValue (net n) = Some v"
      by (auto simp: ext_inv_def committedValue_def split: if_splits)
    then show ?thesis using net_inv_backed[OF inv that(1)] by blast
  qed
  obtain U V where U: "backed cs H net n x U" and V: "backed cs H net m y V"
    using support assms(4-7) by meson
  then obtain h where h: "h \<in> U \<inter> H" "h \<in> V \<inter> H"
    using assms(3-5) unfolding intersecting_def backed_def by blast
  have "committedValue (net h) = Some x" using U h(1) by (simp add: backed_def)
  moreover have "committedValue (net h) = Some y" using V h(2) by (simp add: backed_def)
  ultimately show ?thesis by simp
qed

theorem agreement_witness:
  "\<exists>net y. net_reachable demo {1, 2} 7 net \<and> (7, ''x'') \<in> set (externalizedValues (net 1)) \<and>
    (7, y) \<in> set (externalizedValues (net 2)) \<and> ''x'' = y"
proof -
  let ?net0 = "\<lambda>n. mkSlot (demo n) 7" and ?H = "{1, 2} :: NodeID set"
  obtain s1 where s1: "slot_step (demo 1) (delivered ?H ?net0) (?net0 1) s1"
    "externalizedValues s1 = [(7, ''x'')]" "statement demoEnvelope \<in> history s1"
    using demo_reachable by blast
  let ?net1 = "?net0(1 := s1)"
  have r1: "net_reachable demo ?H 7 ?net1"
    using net_reachable.move[OF net_reachable.start, of 1 ?H demo 7 s1] s1(1) by simp
  obtain s2 where s2: "slot_processEnvelope (demo 2) demoEnvelope False (mkSlot (demo 2) 7) = Inr (VALID, s2)"
    "externalizedValues s2 = [(7, ''x'')]" using demo_follows by blast
  have "slot_step (demo 2) (delivered ?H ?net1) (?net1 2) s2"
    by (rule slot_step.receive[where env = demoEnvelope])
      (use s1(3) s2(1) in \<open>simp_all add: delivered_def demoEnvelope_def\<close>)
  then have r2: "net_reachable demo ?H 7 (?net1(2 := s2))"
    using net_reachable.move[OF r1, of 2 s2] by simp
  have "configured demo ?H" by (simp add: configured_def)
  moreover have "intersecting demo ?H" by (auto simp: intersecting_def supports_def needed_def split: if_splits)
  ultimately have "(7, y) \<in> set (externalizedValues s2) \<Longrightarrow> ''x'' = y" for y
    using agreement[OF r2, of 1 2 7 "''x''" 7 y] s1(2) by simp
  then show ?thesis using r2 s1(2) s2(2) by (intro exI[of _ "?net1(2 := s2)"] exI[of _ "''x''"]) auto
qed

text \<open>Whatever ballot statement a slot sends it has recorded first, with its own quorum set
  hash, so what other nodes can receive from an honest node is among the statements it has made.\<close>

theorem emits_recorded:
  assumes "slot_reachable c D i s" "st \<in> set (emittedBallots s)"
  shows "st \<in> history s \<and> getCompanionQuorumSetHashFromStatement st = mQSetHash c"
proof -
  have "made_inv c (mkSlot c i)" by (simp add: made_inv_def mkSlot_def emittedBallots_def)
  moreover have "made_rel c D (mkSlot c i) s"
    by (rule made_nom.slot_reachable_R[OF assms(1)]) simp
  ultimately have inv: "made_inv c s" by (simp add: made_rel_def)
  have ballot: "isBallotStatement st"
    using assms(2) by (auto simp: emittedBallots_def split: DriverEvent.splits if_splits)
  have "nodeID st = mNodeID c"
    using reachable_invariants(5)[OF assms(1)] assms(2) unfolding emit_inv_def by blast
  moreover have h: "st \<in> history s" using inv assms(2) by (auto simp: made_inv_def)
  ultimately have "truthful c s st" using inv unfolding made_inv_def by blast
  then show ?thesis using h ballot
    by (simp add: truthful_def getCompanionQuorumSetHashFromStatement_def isBallotStatement_def
        split: SCPPledges.splits)
qed

theorem emits_recorded_witness:
  "\<exists>s. emittedBallots s = [statement demoEnvelope] \<and> statement demoEnvelope \<in> history s"
proof -
  obtain s where s: "slot_reachable (demo 1) (\<lambda>_. True) 7 s" "emittedBallots s = [statement demoEnvelope]"
    using demo_reachable by blast
  from emits_recorded[OF s(1), of "statement demoEnvelope"] s(2) show ?thesis by auto
qed

end
