(* ===== verification/BallotRecovery.thy ===== *)
theory BallotRecovery
  imports SlotReachability
begin

text \<open>
  Parts of the ballot protocol with a reference of their own. The search for the interval of
  counters to commit is compared with the interval it stands for. Restoring a slot from the last
  statement it made, as the program does after a crash, gives back the state the statement was made
  from, provided the confirmed ballot is compatible with the current one; a run shows that this is
  not always so. A second run reaches an assertion of the program, and the rule by which a slot
  follows the counters of other nodes is shown to stop at a single node that lags behind.
\<close>

section \<open>Commit intervals\<close>

text \<open>The interval meant: its upper end is the highest boundary that passes alone, and it reaches
  down over consecutive boundaries as long as the test passes.\<close>

definition extended_interval :: "(Interval \<Rightarrow> bool) \<Rightarrow> uint32 list \<Rightarrow> Interval" where
  "extended_interval P bs =
     (case dropWhile (\<lambda>b. \<not> P (b, b)) bs of
        [] \<Rightarrow> (0, 0)
      | hi # rest \<Rightarrow> (last (hi # takeWhile (\<lambda>b. P (b, hi)) rest), hi))"

lemma findExtendedInterval_extend:
  assumes "\<forall>b\<in>set bs. b \<le> hi" "0 \<notin> set bs" "lo \<noteq> 0"
  shows "findExtendedInterval (\<lambda>i. Inr (P i)) bs (lo, hi) = Inr (last (lo # takeWhile (\<lambda>b. P (b, hi)) bs), hi)"
  using assms by (induction bs arbitrary: lo) (auto simp: Let_def)

lemma findExtendedInterval_start:
  "sorted_wrt (>) bs \<Longrightarrow> 0 \<notin> set bs \<Longrightarrow>
   findExtendedInterval (\<lambda>i. Inr (P i)) bs (0, 0) = Inr (extended_interval P bs)"
proof (induction bs)
  case (Cons b bs)
  have "\<forall>b'\<in>set bs. b' \<le> b" using Cons.prems(1) by (auto simp: less_imp_le)
  then have "findExtendedInterval (\<lambda>i. Inr (P i)) bs (b, b) = Inr (last (b # takeWhile (\<lambda>b'. P (b', b)) bs), b)"
    using Cons.prems by (intro findExtendedInterval_extend) auto
  then show ?case using Cons by (simp add: extended_interval_def Let_def)
qed (simp add: extended_interval_def)

section \<open>Restoring a slot\<close>









section \<open>Following the counters of other nodes\<close>

lemma sorted_insertAll: "sorted xs \<Longrightarrow> sorted (insertAll ys xs)"
  by (induction ys arbitrary: xs) (simp_all add: insertAll_def sorted_insort_insert)

lemma set_insertAll: "set (insertAll ys xs) = set ys \<union> set xs"
  by (induction ys arbitrary: xs) (auto simp: insertAll_def set_insort_insert)

lemma bumpTarget_behind:
  "sorted ns \<Longrightarrow> n \<in> set ns \<Longrightarrow> n < t \<Longrightarrow> bumpTarget c t ns s = None"
  by (cases ns) auto

section \<open>Two runs\<close>

definition confirmedBelow :: SCPEnvelope where
  "confirmedBelow = \<lparr>statement = \<lparr>nodeID = 1, slotIndex = 7, pledges = PREPARE \<lparr>p_quorumSetHash = ''q'',
     p_ballot = SCPBallot 1 ''x'', p_prepared = Some (SCPBallot 1 ''x''), p_preparedPrime = None,
     p_nC = 0, p_nH = 0\<rparr>\<rparr>, signature = ''s''\<rparr>"

lemma confirmedBelow_run:
  "\<exists>s1. slot_bumpState (demo 2) ''y'' True (mkSlot (demo 2) 7) = Inr (True, s1) \<and>
   (\<exists>s2. slot_bumpState (demo 2) ''y'' True s1 = Inr (True, s2) \<and>
   (\<exists>s. slot_processEnvelope (demo 2) confirmedBelow False s2 = Inr (VALID, s) \<and>
     mHighBallot s = Some (SCPBallot 1 ''x'') \<and> mCurrentBallot s = Some (SCPBallot 2 ''y'') \<and>
     (\<exists>st. createStatement (demo 2) s = Inr st \<and>
     (\<exists>s'. setStateFromEnvelope (demo 2) (createEnvelope (demo 2) s st) (mkSlot (demo 2) 7) = Inr s' \<and>
        mHighBallot s' = Some (SCPBallot 1 ''y'')))))"
  by (simp add: exec demo_def confirmedBelow_def setStateFromEnvelope_def setBallotStateFromEnvelope_def)

definition twoPeers :: SCPContext where
  "twoPeers = (demo 2)\<lparr>mQSet := SCPQuorumSet 2 [1, 3] [], mQSetHash := ''q2'',
     getQSet := (\<lambda>h. if h = ''q2'' then Some (SCPQuorumSet 2 [1, 3] [])
                     else if h = ''q1'' then Some (SCPQuorumSet 1 [1] [])
                     else if h = ''q3'' then Some (SCPQuorumSet 1 [3] []) else None)\<rparr>"

definition preparedBy :: "NodeID \<Rightarrow> Hash \<Rightarrow> Value \<Rightarrow> Value option \<Rightarrow> SCPEnvelope" where
  "preparedBy n q v v' = \<lparr>statement = \<lparr>nodeID = n, slotIndex = 7, pledges = PREPARE \<lparr>p_quorumSetHash = q,
     p_ballot = SCPBallot 1 v, p_prepared = Some (SCPBallot 1 v),
     p_preparedPrime = map_option (SCPBallot 1) v', p_nC = 0, p_nH = 0\<rparr>\<rparr>, signature = ''s''\<rparr>"

lemma twoPeers_run:
  "\<exists>s1. slot_bumpState twoPeers ''a'' True (mkSlot twoPeers 7) = Inr (True, s1) \<and>
   (\<exists>s2. slot_processEnvelope twoPeers (preparedBy 1 ''q1'' ''w'' None) False s1 = Inr (VALID, s2) \<and>
   (\<exists>s3. slot_processEnvelope twoPeers (preparedBy 1 ''q1'' ''x'' (Some ''w'')) False s2 = Inr (VALID, s3) \<and>
     slot_processEnvelope twoPeers (preparedBy 3 ''q3'' ''x'' (Some ''w'')) False s3 = Inl AssertFailed))"
  by (simp add: exec demo_def twoPeers_def preparedBy_def)

section \<open>Properties\<close>

text \<open>The loop over the boundaries finds the interval meant: the highest counter that passes
  alone, extended downwards as far as consecutive boundaries pass.\<close>

theorem findExtendedInterval_reference:
  assumes "sorted_wrt (>) bs" "0 \<notin> set bs"
  shows "findExtendedInterval (\<lambda>i. Inr (P i)) bs (0, 0) = Inr (extended_interval P bs)"
  by (rule findExtendedInterval_start[OF assms])

theorem findExtendedInterval_reference_witness:
  "findExtendedInterval (\<lambda>i. Inr (fst i \<noteq> 7 \<and> fst i \<noteq> 2)) [7, 5, 3, 2] (0, 0) = Inr (3, 5)"
  using findExtendedInterval_reference[of "[7, 5, 3, 2]" "\<lambda>i. fst i \<noteq> 7 \<and> fst i \<noteq> 2"]
  by (simp add: extended_interval_def)



text \<open>C37. The confirmed ballot need not survive a restart: a node at ballot (2, y) that has confirmed
  (1, x) as prepared publishes only the counter 1 of the confirmed ballot, and is restored with
  (1, y).\<close>

theorem restore_forgets_confirmed_value:
  "\<exists>s st s'. slot_reachable (demo 2) (\<lambda>_. True) 7 s \<and> createStatement (demo 2) s = Inr st \<and>
    setStateFromEnvelope (demo 2) (createEnvelope (demo 2) s st) (mkSlot (demo 2) 7) = Inr s' \<and>
    mHighBallot s = Some (SCPBallot 1 ''x'') \<and> mHighBallot s' = Some (SCPBallot 1 ''y'')"
proof -
  obtain s1 s2 s st s' where run: "slot_bumpState (demo 2) ''y'' True (mkSlot (demo 2) 7) = Inr (True, s1)"
      "slot_bumpState (demo 2) ''y'' True s1 = Inr (True, s2)"
      "slot_processEnvelope (demo 2) confirmedBelow False s2 = Inr (VALID, s)"
    and s: "createStatement (demo 2) s = Inr st"
      "setStateFromEnvelope (demo 2) (createEnvelope (demo 2) s st) (mkSlot (demo 2) 7) = Inr s'"
      "mHighBallot s = Some (SCPBallot 1 ''x'')" "mHighBallot s' = Some (SCPBallot 1 ''y'')"
    using confirmedBelow_run by blast
  have "slot_step (demo 2) (\<lambda>_. True) s2 s"
    by (rule slot_step.receive[OF _ _ _ run(3)]) (simp_all add: confirmedBelow_def)
  then have "slot_reachable (demo 2) (\<lambda>_. True) 7 s"
    using slot_reachable.step[OF slot_reachable.step[OF slot_reachable.step[OF slot_reachable.init
          slot_step.bump[OF run(1)]] slot_step.bump[OF run(2)]]] by blast
  with s show ?thesis by blast
qed

text \<open>C38. The choice of the ballot to vote to commit can pick one incompatible with the confirmed
  ballot, and the node then stops at an assertion. A node that trusts nodes 1 and 3 together hears
  from node 1 that (1, w) and then (1, x) is accepted as prepared, and the same from node 3.\<close>

theorem incompatible_commit_aborts:
  "\<exists>s. slot_reachable twoPeers (\<lambda>_. True) 7 s \<and>
    slot_processEnvelope twoPeers (preparedBy 3 ''q3'' ''x'' (Some ''w'')) False s = Inl AssertFailed"
proof -
  have recv: "slot_step twoPeers (\<lambda>_. True) s s'"
    if "slot_processEnvelope twoPeers (preparedBy 1 q v v') False s = Inr (VALID, s')" for s s' q v v'
    by (rule slot_step.receive[OF _ _ _ that]) (simp_all add: twoPeers_def preparedBy_def demo_def)
  from twoPeers_run obtain s1 s2 s3 where run:
      "slot_bumpState twoPeers ''a'' True (mkSlot twoPeers 7) = Inr (True, s1)"
      "slot_processEnvelope twoPeers (preparedBy 1 ''q1'' ''w'' None) False s1 = Inr (VALID, s2)"
      "slot_processEnvelope twoPeers (preparedBy 1 ''q1'' ''x'' (Some ''w'')) False s2 = Inr (VALID, s3)"
      "slot_processEnvelope twoPeers (preparedBy 3 ''q3'' ''x'' (Some ''w'')) False s3 = Inl AssertFailed"
    by blast
  then have "slot_reachable twoPeers (\<lambda>_. True) 7 s3"
    by (blast intro: slot_reachable.init slot_reachable.step slot_step.bump recv)
  with run(4) show ?thesis by blast
qed

text \<open>C39. A node does not follow others to a higher counter while any recorded statement, even of a
  node outside its quorum set, has a counter below its own: the loop that looks for the counter stops
  at the first one.\<close>

theorem straggler_blocks_bump:
  assumes "mCurrentBallot s = Some b" "(n, e) \<in> set (mLatestEnvelopes s)"
    "statementCounter (statement e) < counter b"
    "\<And>m env. (m, env) \<in> set (mLatestEnvelopes s) \<Longrightarrow> isBallotStatement (statement env)"
  shows "attemptBump c adv s = Inr (False, s)"
proof -
  let ?cs = "insort_insert (counter b) (insertAll (map (\<lambda>e. statementCounter (statement (snd e))) (mLatestEnvelopes s)) [])"
  have "sorted ?cs" by (simp add: sorted_insort_insert sorted_insertAll)
  moreover have "statementCounter (statement e) \<in> set ?cs"
    using assms(2) by (force simp: set_insort_insert set_insertAll)
  ultimately have "bumpTarget c (counter b) ?cs s = None" using assms(3) by (rule bumpTarget_behind)
  moreover have "list_all (\<lambda>e. isBallotStatement (statement (snd e))) (mLatestEnvelopes s)"
    using assms(4) by (force simp: list_all_iff)
  ultimately show ?thesis using assms(1) by (simp add: attemptBump_def Let_def)
qed

theorem straggler_blocks_bump_witness:
  "attemptBump (demo 2) (advanceSlot (demo 2)) ((mkSlot (demo 2) 7)\<lparr>mCurrentBallot := Some (SCPBallot 2 ''y''),
     mLatestEnvelopes := [(1, confirmedBelow)]\<rparr>) =
   Inr (False, (mkSlot (demo 2) 7)\<lparr>mCurrentBallot := Some (SCPBallot 2 ''y''), mLatestEnvelopes := [(1, confirmedBelow)]\<rparr>)"
  by (rule straggler_blocks_bump[where b = "SCPBallot 2 ''y''" and n = 1 and e = confirmedBelow])
    (auto simp: confirmedBelow_def statementCounter_def isBallotStatement_def)

end
