(* ===== verification/ScpRefinement.thy ===== *)
theory ScpRefinement
  imports SlotReachability
begin

text \<open>
  The collection of slots refines the slot: whatever calls \<open>SCP\<close> receives, each slot it keeps has
  taken only steps of the slot's step relation, and a call for one slot leaves the others alone. So
  every theorem about reachable slots holds for the slots of the program.
\<close>

inductive scp_step :: "SCPContext \<Rightarrow> (SCPEnvelope \<Rightarrow> bool) \<Rightarrow> SCP \<Rightarrow> SCP \<Rightarrow> bool" for c D where
  receive: "nodeID (statement env) \<noteq> mNodeID c \<Longrightarrow> D env \<Longrightarrow>
    receiveEnvelope c env scp = Inr (r, scp') \<Longrightarrow> scp_step c D scp scp'"
| nominate: "scp_nominate c i value previous scp = Inr (b, scp') \<Longrightarrow> scp_step c D scp scp'"
| abandon: "scp_abandonBallot c i scp = Inr (b, scp') \<Longrightarrow> scp_step c D scp scp'"
| stop: "scp_step c D scp (scp_stopNomination c i scp)"
| purge: "scp_step c D scp (purgeSlots i scp)"
| timer: "map_of (mKnownSlots scp) i = Some s \<Longrightarrow> ballotProtocolTimerExpired c s = Inr s' \<Longrightarrow>
    scp_step c D scp (putSlot i s' scp)"
| nomination_timer: "map_of (mKnownSlots scp) i = Some s \<Longrightarrow>
    slot_nominate c value previous True s = Inr (b, s') \<Longrightarrow> scp_step c D scp (putSlot i s' scp)"

inductive scp_reachable :: "SCPContext \<Rightarrow> (SCPEnvelope \<Rightarrow> bool) \<Rightarrow> SCP \<Rightarrow> bool" for c D where
  init: "scp_reachable c D \<lparr>mKnownSlots = []\<rparr>"
| step: "scp_reachable c D scp \<Longrightarrow> scp_step c D scp scp' \<Longrightarrow> scp_reachable c D scp'"

section \<open>The map of slots\<close>

definition slots_ok :: "SCPContext \<Rightarrow> (SCPEnvelope \<Rightarrow> bool) \<Rightarrow> SCP \<Rightarrow> bool" where
  "slots_ok c D scp \<longleftrightarrow> omap_wf (mKnownSlots scp) \<and>
     (\<forall>i s. map_of (mKnownSlots scp) i = Some s \<longrightarrow> slot_reachable c D i s)"

lemma slots_ok_put: "slots_ok c D scp \<Longrightarrow> slot_reachable c D i s \<Longrightarrow> slots_ok c D (putSlot i s scp)"
  by (auto simp: slots_ok_def putSlot_def)

lemma getSlot_ok:
  assumes "slots_ok c D scp" "getSlot c i create scp = (p, scp')"
  shows "slots_ok c D scp' \<and> (\<forall>s. p = Some s \<longrightarrow> slot_reachable c D i s) \<and>
    (\<forall>j. j \<noteq> i \<longrightarrow> map_of (mKnownSlots scp') j = map_of (mKnownSlots scp) j)"
  using assms slots_ok_put[OF assms(1) slot_reachable.init[of c D i]]
  by (auto simp: getSlot_def slots_ok_def putSlot_def Let_def slot_reachable.init split: option.splits if_splits)

lemma map_of_purgeLoop: "map_of (purgeLoop n m) i = (if i < n then None else map_of m i)"
  by (induction m) auto

lemma omap_wf_purgeLoop: "omap_wf m \<Longrightarrow> omap_wf (purgeLoop n m)"
proof -
  have "purgeLoop n m = filter (\<lambda>p. \<not> fst p < n) m" for m :: "(uint64, Slot) omap"
    by (induction m) auto
  then show "omap_wf m \<Longrightarrow> omap_wf (purgeLoop n m)"
    by (simp add: omap_wf_def sorted_wrt_map sorted_wrt_filter)
qed

lemma onSlot_ok:
  assumes ok: "slots_ok c D scp" and get: "getSlot c i True scp = (Some s, scp1)" and step: "slot_step c D s s'"
  shows "slots_ok c D (putSlot i s' scp1)"
  using getSlot_ok[OF ok get] slots_ok_put slot_reachable.step[OF _ step] by blast

lemma slots_ok_step:
  assumes ok: "slots_ok c D scp" and step: "scp_step c D scp scp'"
  shows "slots_ok c D scp'"
  using step
proof cases
  case (receive env r)
  show ?thesis
  proof (cases "verifyEnvelope c env")
    case True
    obtain p scp1 where g: "getSlot c (slotIndex (statement env)) True scp = (p, scp1)" by force
    with receive True obtain s s' where "p = Some s" "slot_processEnvelope c env False s = Inr (r, s')"
      "scp' = putSlot (slotIndex (statement env)) s' scp1"
      by (auto simp: receiveEnvelope_def Let_def elim!: bindE_InrE)
    moreover from this receive True have "slot_step c D s s'" by (intro slot_step.receive)
    ultimately show ?thesis using onSlot_ok[OF ok, of _ s scp1 s'] g by simp
  qed (use receive ok in \<open>simp add: receiveEnvelope_def\<close>)
next
  case (nominate i v p b)
  obtain q scp1 where g: "getSlot c i True scp = (q, scp1)" by force
  with nominate obtain s s' where "q = Some s" "slot_nominate c v p False s = Inr (b, s')" "scp' = putSlot i s' scp1"
    by (auto simp: scp_nominate_def Let_def elim!: bindE_InrE)
  then show ?thesis using onSlot_ok[OF ok, of i s scp1 s'] g slot_step.nominate by blast
next
  case (abandon i b)
  obtain q scp1 where g: "getSlot c i True scp = (q, scp1)" by force
  with abandon obtain s s' where "q = Some s" "slot_abandonBallot c s = Inr (b, s')" "scp' = putSlot i s' scp1"
    by (auto simp: scp_abandonBallot_def Let_def elim!: bindE_InrE)
  then show ?thesis using onSlot_ok[OF ok, of i s scp1 s'] g slot_step.abandon by blast
next
  case (stop i)
  obtain q scp1 where g: "getSlot c i False scp = (q, scp1)" by force
  show ?thesis
    using getSlot_ok[OF ok g] slots_ok_put[of c D scp1 i] slot_reachable.step[OF _ slot_step.stop]
    by (auto simp: stop scp_stopNomination_def g split: option.splits)
next
  case (purge i)
  show ?thesis
    using ok by (auto simp: purge purgeSlots_def slots_ok_def map_of_purgeLoop omap_wf_purgeLoop split: if_splits)
next
  case (timer i s s')
  then have "slot_reachable c D i s" using ok by (simp add: slots_ok_def)
  then have "slot_reachable c D i s'"
    by (rule slot_reachable.step) (rule slot_step.timer[OF timer(3)])
  then show ?thesis using timer slots_ok_put[OF ok] by simp
next
  case (nomination_timer i s v p b s')
  then have "slot_reachable c D i s" using ok by (simp add: slots_ok_def)
  then have "slot_reachable c D i s'"
    by (rule slot_reachable.step) (rule slot_step.nominate[OF nomination_timer(3)])
  then show ?thesis using nomination_timer slots_ok_put[OF ok] by simp
qed

lemma slots_ok_reachable: "scp_reachable c D scp \<Longrightarrow> slots_ok c D scp"
proof (induction rule: scp_reachable.induct)
  case init
  show ?case by (simp add: slots_ok_def)
qed (rule slots_ok_step)

lemma demo_facts:
  shows "verifyEnvelope (demo n) env" "mIsValidator (demo n)" "slotIndex (statement demoEnvelope) = 7"
  by (simp_all add: demo_def demoEnvelope_def)

section \<open>Properties\<close>



text \<open>Receiving an envelope touches only the slot it is for, and purging removes exactly the slots
  below the given index.\<close>

theorem scp_frame:
  assumes "scp_reachable c D scp" "receiveEnvelope c env scp = Inr (r, scp')" "j \<noteq> slotIndex (statement env)"
  shows "map_of (mKnownSlots scp') j = map_of (mKnownSlots scp) j \<and>
    map_of (mKnownSlots (purgeSlots n scp)) k = (if k < n then None else map_of (mKnownSlots scp) k)"
proof -
  have ok: "slots_ok c D scp" by (rule slots_ok_reachable[OF assms(1)])
  obtain p scp1 where g: "getSlot c (slotIndex (statement env)) True scp = (p, scp1)" by force
  have "scp' = scp \<or> (\<exists>s'. scp' = putSlot (slotIndex (statement env)) s' scp1)"
    using assms(2) g by (auto simp: receiveEnvelope_def Let_def elim!: bindE_InrE split: if_splits)
  then have "map_of (mKnownSlots scp') j = map_of (mKnownSlots scp) j"
    using getSlot_ok[OF ok g] assms(3) by (auto simp: putSlot_def slots_ok_def)
  then show ?thesis by (simp add: purgeSlots_def map_of_purgeLoop)
qed

theorem scp_frame_witness:
  "\<exists>scp'. receiveEnvelope (demo 2) demoEnvelope \<lparr>mKnownSlots = []\<rparr> = Inr (VALID, scp') \<and>
    map_of (mKnownSlots scp') 8 = None"
proof -
  from demo_follows obtain s where "slot_processEnvelope (demo 2) demoEnvelope False (mkSlot (demo 2) 7) = Inr (VALID, s)"
    by blast
  then have run: "receiveEnvelope (demo 2) demoEnvelope \<lparr>mKnownSlots = []\<rparr> =
      Inr (VALID, putSlot 7 s \<lparr>mKnownSlots = [(7, mkSlot (demo 2) 7)]\<rparr>)"
    by (simp add: receiveEnvelope_def getSlot_def Let_def putSlot_def demo_facts)
  have "8 \<noteq> slotIndex (statement demoEnvelope)" by (simp add: demoEnvelope_def)
  from scp_frame[OF scp_reachable.init run this] run show ?thesis by auto
qed

end
