(* ===== verification/NominationSafety.thy ===== *)
theory NominationSafety
  imports SlotReachability "HOL-Library.Multiset"
begin

text \<open>
  What nomination guarantees: the values a slot has voted for, accepted and confirmed only grow and
  nest, every accepted value was fully validated by the driver, the leaders of a round are the nodes
  of greatest priority, and the order on nominations is inclusion.
\<close>

section \<open>The nominated values of a slot\<close>

lemma nominationsGrow_ballots:
  "nominationOf s' = nominationOf s \<Longrightarrow> mSlotIndex s' = mSlotIndex s \<Longrightarrow> nominationsGrow c s s'"
  by (rule nominationsGrow_same) (simp_all add: nominationOf_def NominationProtocol.defs)

lemma nominationsGrow_update: "ballotUpdate s s' \<Longrightarrow> nominationsGrow c s s'"
  by (rule nominationsGrow_ballots) (simp_all add: ballotUpdate_def)

interpretation nominations: slot_contract c "\<lambda>_. True" "nominationsGrow c" for c
proof (unfold_locales, goal_cases)
  case (2 s t u)
  then show ?case by (rule nominationsGrow_trans)
next
  case (9 s b n v s')
  then show ?case by (auto simp: updateCurrentValue_True intro: nominationsGrow_update)
next
  case (10 s b s')
  then show ?case by (auto dest!: setPreparedAccept_update intro: nominationsGrow_update)
next
  case (11 s newH newC s')
  then show ?case by (auto dest!: setPreparedConfirmed_update intro: nominationsGrow_update)
next
  case (12 s lo v hi n s')
  from setAcceptCommit_update[OF 12(5,1)] show ?case by (blast intro: nominationsGrow_update)
next
  case (13 s cm0 v lo n hi s1 s2 cm)
  have "nominationsGrow c s s1" using setConfirmCommit_update[OF 13(7)] by (blast intro: nominationsGrow_update)
  moreover have "nominationsGrow c s2 (notify (ValueExternalized (mSlotIndex s2) (bvalue cm)) (stopNomination s2))"
    by (rule nominationsGrow_same) (simp_all add: stopNomination_def)
  ultimately show ?case using 13(9) nominationsGrow_trans by blast
qed (auto simp: sendLatestEnvelope_def recordEnvelope_def recordStatement_def Let_def nominationsGrow_def nominations_ok_def
    split: option.splits)

interpretation nominations_nom: slot_contract_nomination c "\<lambda>_. True" "nominationsGrow c" for c
  by unfold_locales

section \<open>The leaders of a round\<close>

lemma leaderLoop_leaders:
  assumes "leaderLoop c s ns best leaders = Inr (best', leaders')"
    and "\<And>n. n \<in> set ns \<Longrightarrow> getNodePriority c s n (mQSet c) = Inr (prio n)"
    and "0 < best \<or> leaders = []"
  shows "best' = Max (insert best (prio ` set ns)) \<and>
    set leaders' = (if best' = best then set leaders else {}) \<union> {n \<in> set ns. prio n = best' \<and> 0 < prio n}"
  using assms
proof (induction ns arbitrary: best leaders)
  case (Cons x ns)
  let ?best = "max best (prio x)"
  let ?ls = "if best < prio x then [] else leaders"
  let ?leaders = "if prio x = ?best \<and> 0 < prio x then insort_insert x ?ls else ?ls"
  have run: "leaderLoop c s ns ?best ?leaders = Inr (best', leaders')"
    using Cons.prems(1,2) by (auto simp: Let_def max_def split: if_splits)
  have "0 < ?best \<or> ?leaders = []" using Cons.prems(3) by (auto simp: max_def)
  from Cons.IH[OF run _ this] Cons.prems(2)
  have IH: "best' = Max (insert ?best (prio ` set ns))"
    "set leaders' = (if best' = ?best then set ?leaders else {}) \<union> {n \<in> set ns. prio n = best' \<and> 0 < prio n}"
    by auto
  have best': "best' = Max (insert best (prio ` set (x # ns)))"
    unfolding IH(1) by (cases "set ns = {}") (auto simp: max.assoc max.commute max.left_commute)
  have "?best \<le> best'" unfolding IH(1) by (rule Max_ge) auto
  then show ?case
    using Cons.prems(3) best' by (auto simp: IH(2) set_insort_insert max_def split: if_splits)
qed simp

lemma leaderLoop_returns:
  "(\<And>n. n \<in> set ns \<Longrightarrow> getNodePriority c s n (mQSet c) = Inr (prio n)) \<Longrightarrow>
   \<exists>r. leaderLoop c s ns best leaders = Inr r"
  by (induction ns arbitrary: best leaders) (simp_all add: Let_def)

section \<open>The order on nominations\<close>

lemma std_includes_mset: "sorted as \<Longrightarrow> sorted bs \<Longrightarrow> std_includes as bs \<longleftrightarrow> mset bs \<subseteq># mset as"
proof (induction as bs rule: std_includes.induct)
  case (3 a as b bs)
  show ?case
  proof (cases "b < a")
    case True
    then have "b \<notin># mset (a # as)" using 3(3) by auto
    then show ?thesis using True by (metis insert_subset_eq_iff mset.simps(2) std_includes.simps(3))
  next
    case False
    show ?thesis
    proof (cases "a < b")
      case True
      then have "a \<notin># mset (b # bs)" using 3(4) by auto
      then have "mset (b # bs) \<subseteq># mset (a # as) \<longleftrightarrow> mset (b # bs) \<subseteq># mset as"
        by (metis add_mset_remove_trivial diff_single_trivial mset.simps(2) subset_eq_diff_conv
            subset_mset.add_increasing add_mset_add_single mset_subset_eq_add_right subset_mset.order_trans)
      then show ?thesis using True False 3 by simp
    qed (use 3 False in auto)
  qed
qed simp_all

lemma isSubsetHelper_exact:
  "sorted p \<Longrightarrow> sorted v \<Longrightarrow> isSubsetHelper p v = (mset p \<subseteq># mset v, p \<noteq> v)"
proof -
  assume s: "sorted p" "sorted v"
  have "length p \<le> length v" if "mset p \<subseteq># mset v" using size_mset_mono[OF that] by simp
  moreover have "p = v" if "mset p \<subseteq># mset v" "length p = length v"
    using that s by (metis mset_subset_size nless_le properties_for_sort size_mset sorted_sort_id subset_mset.le_imp_less_or_eq)
  ultimately show ?thesis using s by (auto simp: isSubsetHelper_def std_includes_mset Let_def)
qed

section \<open>Properties\<close>

text \<open>C19. What a slot has nominated is consistent and never taken back: its candidates are among the
  values it accepted, these are among its votes, the driver has fully validated every accepted value,
  and each step only adds values.\<close>

theorem nomination_consistent:
  assumes "slot_reachable c D i s" "slot_step c D s s'"
  shows "set (mCandidates s) \<subseteq> set (mAccepted s) \<and> set (mAccepted s) \<subseteq> set (mVotes s) \<and>
    (\<forall>v\<in>set (mAccepted s). validateValue c i v = kFullyValidatedValue) \<and>
    set (mVotes s) \<subseteq> set (mVotes s') \<and> set (mAccepted s) \<subseteq> set (mAccepted s') \<and>
    set (mCandidates s) \<subseteq> set (mCandidates s')"
proof -
  have "nominations_ok c (mkSlot c i)" by (simp add: mkSlot_def nominations_ok_def)
  then have "nominations_ok c s"
    using nominations_nom.slot_reachable_R[OF assms(1)] by (simp add: nominationsGrow_def)
  then show ?thesis
    using nominations_nom.slot_step_R[OF assms(2)] reachable_invariants(6)[OF assms(1)]
    by (simp add: nominations_ok_def nominationsGrow_def)
qed

theorem nomination_consistent_witness:
  "\<exists>s :: Slot. mPhase s = SCP_PHASE_EXTERNALIZE \<and> set (mCandidates s) \<subseteq> set (mVotes s)"
proof -
  obtain s where s: "slot_reachable (demo 1) (\<lambda>_. True) 7 s" "mPhase s = SCP_PHASE_EXTERNALIZE"
    using demo_reachable by blast
  from nomination_consistent[OF s(1) slot_step.stop] s(2) show ?thesis by blast
qed

text \<open>The leaders of a round are exactly the nodes of the local quorum set with the greatest
  priority, and a node of priority zero never leads.\<close>

theorem updateRoundLeaders_greatest:
  assumes "\<And>n. n \<in> set (forAllNodes (mQSet c)) \<Longrightarrow> getNodePriority c s n (mQSet c) = Inr (prio n)"
  shows "\<exists>s'. updateRoundLeaders c s = Inr s' \<and> set (mRoundLeaders s') =
    {n \<in> set (forAllNodes (mQSet c)). 0 < prio n \<and> (\<forall>m\<in>set (forAllNodes (mQSet c)). prio m \<le> prio n)}"
proof -
  let ?ns = "forAllNodes (mQSet c)"
  obtain best leaders where run: "leaderLoop c s ?ns 0 [] = Inr (best, leaders)"
    using leaderLoop_returns[OF assms] by fastforce
  from leaderLoop_leaders[OF run assms]
  have best: "best = Max (insert 0 (prio ` set ?ns))"
    and leaders: "set leaders = {n \<in> set ?ns. prio n = best \<and> 0 < prio n}" by auto
  have "prio n = best \<longleftrightarrow> (\<forall>m\<in>set ?ns. prio m \<le> prio n)" if "n \<in> set ?ns" "0 < prio n" for n
    using that unfolding best by (subst eq_commute, subst Max_eq_iff) auto
  then have "set leaders = {n \<in> set ?ns. 0 < prio n \<and> (\<forall>m\<in>set ?ns. prio m \<le> prio n)}"
    unfolding leaders by blast
  then show ?thesis by (simp add: updateRoundLeaders_def run)
qed

theorem updateRoundLeaders_greatest_witness:
  "\<exists>s'. updateRoundLeaders (demo 1) (mkSlot (demo 1) 7\<lparr>mPreviousValue := ''p''\<rparr>) = Inr s' \<and> set (mRoundLeaders s') = {1}"
proof -
  let ?s = "mkSlot (demo 1) 7\<lparr>mPreviousValue := ''p''\<rparr>"
  have nodes: "forAllNodes (mQSet (demo 1)) = [1]" by (simp add: exec demo_def)
  have prio: "getNodePriority (demo 1) ?s n (mQSet (demo 1)) = Inr 1" if "n \<in> set (forAllNodes (mQSet (demo 1)))" for n
    using that unfolding nodes by (simp add: exec demo_def)
  from updateRoundLeaders_greatest[of "demo 1" ?s "\<lambda>_. 1", OF prio]
  show ?thesis unfolding nodes by auto
qed

text \<open>On statements that pass the sanity check, a nomination is newer than another exactly when
  it includes its votes and its accepted values and is not the same.\<close>

theorem isNewerNomination_inclusion:
  assumes "sorted (n_votes old)" "sorted (n_accepted old)" "sorted (n_votes new)" "sorted (n_accepted new)"
  shows "isNewerNomination old new \<longleftrightarrow>
    mset (n_votes old) \<subseteq># mset (n_votes new) \<and> mset (n_accepted old) \<subseteq># mset (n_accepted new) \<and>
    (n_votes old, n_accepted old) \<noteq> (n_votes new, n_accepted new)"
  using assms by (auto simp: isNewerNomination_def isSubsetHelper_exact)

theorem isNewerNomination_inclusion_witness:
  "isNewerNomination \<lparr>n_quorumSetHash = ''q'', n_votes = [''a''], n_accepted = []\<rparr>
     \<lparr>n_quorumSetHash = ''q'', n_votes = [''a'', ''b''], n_accepted = [''a'']\<rparr>"
  by (subst isNewerNomination_inclusion) (simp_all add: subseteq_mset_def)

end
