(* ===== verification/LedgerCmp.thy ===== *)
theory LedgerCmp
  imports SCPTypes "HOL-Library.Product_Lexorder"
begin

text \<open>
  The identity of ledger entries and its order, \<^verbatim>\<open>bucket/LedgerCmp.h\<close>. The entry types and their
  numbers come from the XDR definitions, which are a submodule: the names are those the code uses, the
  numbers are the parameter \<open>enum\<close>. A \<open>LedgerId\<close> holds the type of an entry or key and the fields
  the comparison reads; 256-bit keys and hashes are byte strings, enumerations and signed integers
  are \<open>int\<close>. \<open>OtherId\<close> is any type the comparison has no case for.
\<close>

section \<open>Identities\<close>

datatype LedgerEntryType =
  ACCOUNT | FEE | BALANCE | ASSET | ACCOUNT_TYPE_LIMITS | STATISTICS | REFERENCE_ENTRY | TRUST
  | ACCOUNT_LIMITS | ASSET_PAIR | OFFER_ENTRY | REVIEWABLE_REQUEST | EXTERNAL_SYSTEM_ACCOUNT_ID
  | SALE | KEY_VALUE | ACCOUNT_KYC | EXTERNAL_SYSTEM_ACCOUNT_ID_POOL_ENTRY | LIMITS_V2
  | STATISTICS_V2 | PENDING_STATISTICS | SALE_ANTE | CONTRACT | ACCOUNT_ROLE
  | ACCOUNT_ROLE_PERMISSION | OTHER_TYPE

datatype LedgerId =
  AccountId bytes
  | FeeId bytes int int
  | BalanceId bytes
  | AssetId string
  | AccountTypeLimitsId int
  | StatisticsId bytes
  | ReferenceId string
  | TrustId bytes bytes
  | AccountLimitsId bytes
  | AssetPairId string string
  | OfferId uint64 bytes
  | ReviewableRequestId uint64
  | ExternalSystemAccountIDId bytes int
  | SaleId uint64
  | KeyValueId string
  | AccountKYCId bytes
  | PoolEntryId uint64
  | LimitsV2Id uint64
  | StatisticsV2Id uint64
  | PendingStatisticsId uint64 uint64
  | SaleAnteId uint64 bytes
  | ContractId uint64
  | AccountRoleId uint64
  | AccountRolePermissionId uint64
  | OtherId nat

primrec typeOf :: "LedgerId \<Rightarrow> LedgerEntryType" where
  "typeOf (AccountId _) = ACCOUNT"
| "typeOf (FeeId _ _ _) = FEE"
| "typeOf (BalanceId _) = BALANCE"
| "typeOf (AssetId _) = ASSET"
| "typeOf (AccountTypeLimitsId _) = ACCOUNT_TYPE_LIMITS"
| "typeOf (StatisticsId _) = STATISTICS"
| "typeOf (ReferenceId _) = REFERENCE_ENTRY"
| "typeOf (TrustId _ _) = TRUST"
| "typeOf (AccountLimitsId _) = ACCOUNT_LIMITS"
| "typeOf (AssetPairId _ _) = ASSET_PAIR"
| "typeOf (OfferId _ _) = OFFER_ENTRY"
| "typeOf (ReviewableRequestId _) = REVIEWABLE_REQUEST"
| "typeOf (ExternalSystemAccountIDId _ _) = EXTERNAL_SYSTEM_ACCOUNT_ID"
| "typeOf (SaleId _) = SALE"
| "typeOf (KeyValueId _) = KEY_VALUE"
| "typeOf (AccountKYCId _) = ACCOUNT_KYC"
| "typeOf (PoolEntryId _) = EXTERNAL_SYSTEM_ACCOUNT_ID_POOL_ENTRY"
| "typeOf (LimitsV2Id _) = LIMITS_V2"
| "typeOf (StatisticsV2Id _) = STATISTICS_V2"
| "typeOf (PendingStatisticsId _ _) = PENDING_STATISTICS"
| "typeOf (SaleAnteId _ _) = SALE_ANTE"
| "typeOf (ContractId _) = CONTRACT"
| "typeOf (AccountRoleId _) = ACCOUNT_ROLE"
| "typeOf (AccountRolePermissionId _) = ACCOUNT_ROLE_PERMISSION"
| "typeOf (OtherId _) = OTHER_TYPE"

section \<open>The comparison\<close>

text \<open>\<open>binToHex\<close>: two lower-case digits for every byte.\<close>

definition hexDigit :: "nat \<Rightarrow> char" where
  "hexDigit n = (if n < 10 then char_of (n + 48) else char_of (n + 87))"

definition binToHex :: "bytes \<Rightarrow> string" where
  "binToHex bs = concat (map (\<lambda>b. [hexDigit (of_char b div 16), hexDigit (of_char b mod 16)]) bs)"

text \<open>The accessor of the other entry's union throws when it holds another case.\<close>

abbreviation wrongUnion :: "bool result" where
  "wrongUnion \<equiv> Inl (RuntimeError ''xdr_wrong_union'')"

definition LedgerEntryIdCmp :: "(LedgerEntryType \<Rightarrow> int) \<Rightarrow> LedgerId \<Rightarrow> LedgerId \<Rightarrow> bool result" where
  "LedgerEntryIdCmp enum a b =
     (let aty = enum (typeOf a); bty = enum (typeOf b) in
      if aty < bty then Inr True
      else if bty < aty then Inr False
      else case a of
        AccountId x \<Rightarrow> (case b of AccountId y \<Rightarrow> Inr (x < y) | _ \<Rightarrow> wrongUnion)
      | FeeId h l u \<Rightarrow> (case b of
            FeeId h' l' u' \<Rightarrow>
              (if binToHex h < binToHex h' then Inr True
               else if binToHex h' < binToHex h then Inr False
               else if l < l' then Inr True
               else if l' < l then Inr False
               else Inr (u < u'))
          | _ \<Rightarrow> wrongUnion)
      | BalanceId x \<Rightarrow> (case b of BalanceId y \<Rightarrow> Inr (x < y) | _ \<Rightarrow> wrongUnion)
      | AssetId x \<Rightarrow> (case b of AssetId y \<Rightarrow> Inr (x < y) | _ \<Rightarrow> wrongUnion)
      | AccountTypeLimitsId x \<Rightarrow> (case b of AccountTypeLimitsId y \<Rightarrow> Inr (x < y) | _ \<Rightarrow> wrongUnion)
      | StatisticsId x \<Rightarrow> (case b of StatisticsId y \<Rightarrow> Inr (x < y) | _ \<Rightarrow> wrongUnion)
      | ReferenceId x \<Rightarrow> (case b of ReferenceId y \<Rightarrow> Inr (x < y) | _ \<Rightarrow> wrongUnion)
      | TrustId x x2 \<Rightarrow> (case b of
            TrustId y y2 \<Rightarrow> (if x < y then Inr True else if y < x then Inr False else Inr (x2 < y2))
          | _ \<Rightarrow> wrongUnion)
      | AccountLimitsId x \<Rightarrow> (case b of AccountLimitsId y \<Rightarrow> Inr (x < y) | _ \<Rightarrow> wrongUnion)
      | AssetPairId x x2 \<Rightarrow> (case b of
            AssetPairId y y2 \<Rightarrow> (if x < y then Inr True else if y < x then Inr False else Inr (x2 < y2))
          | _ \<Rightarrow> wrongUnion)
      | OfferId x x2 \<Rightarrow> (case b of
            OfferId y y2 \<Rightarrow> (if x < y then Inr True else if y < x then Inr False else Inr (x2 < y2))
          | _ \<Rightarrow> wrongUnion)
      | ReviewableRequestId x \<Rightarrow> (case b of ReviewableRequestId y \<Rightarrow> Inr (x < y) | _ \<Rightarrow> wrongUnion)
      | ExternalSystemAccountIDId x x2 \<Rightarrow> (case b of
            ExternalSystemAccountIDId y y2 \<Rightarrow> (if x < y then Inr True else if y < x then Inr False else Inr (x2 < y2))
          | _ \<Rightarrow> wrongUnion)
      | SaleId x \<Rightarrow> (case b of SaleId y \<Rightarrow> Inr (x < y) | _ \<Rightarrow> wrongUnion)
      | KeyValueId x \<Rightarrow> (case b of KeyValueId y \<Rightarrow> Inr (x < y) | _ \<Rightarrow> wrongUnion)
      | AccountKYCId x \<Rightarrow> (case b of AccountKYCId y \<Rightarrow> Inr (x < y) | _ \<Rightarrow> wrongUnion)
      | PoolEntryId x \<Rightarrow> (case b of PoolEntryId y \<Rightarrow> Inr (x < y) | _ \<Rightarrow> wrongUnion)
      | LimitsV2Id x \<Rightarrow> (case b of LimitsV2Id y \<Rightarrow> Inr (x < y) | _ \<Rightarrow> wrongUnion)
      | StatisticsV2Id x \<Rightarrow> (case b of StatisticsV2Id y \<Rightarrow> Inr (x < y) | _ \<Rightarrow> wrongUnion)
      | PendingStatisticsId x x2 \<Rightarrow> (case b of
            PendingStatisticsId y y2 \<Rightarrow> (if x < y then Inr True else if y < x then Inr False else Inr (x2 < y2))
          | _ \<Rightarrow> wrongUnion)
      | SaleAnteId x x2 \<Rightarrow> (case b of
            SaleAnteId y y2 \<Rightarrow> (if x < y then Inr True else if y < x then Inr False else Inr (x2 < y2))
          | _ \<Rightarrow> wrongUnion)
      | ContractId x \<Rightarrow> (case b of ContractId y \<Rightarrow> Inr (x < y) | _ \<Rightarrow> wrongUnion)
      | AccountRoleId x \<Rightarrow> (case b of AccountRoleId y \<Rightarrow> Inr (x < y) | _ \<Rightarrow> wrongUnion)
      | AccountRolePermissionId x \<Rightarrow> (case b of AccountRolePermissionId y \<Rightarrow> Inr (x < y) | _ \<Rightarrow> wrongUnion)
      | OtherId _ \<Rightarrow>
          Inl (RuntimeError ''Unexpected state. LedgerCmp cannot compare structures. Unknown ledger entry type''))"

section \<open>The order behind the comparison\<close>

text \<open>The fields of an identity in the order they are compared; a number is paired with the empty
  string and a string with zero.\<close>

primrec fieldsOf :: "LedgerId \<Rightarrow> (int \<times> string) list" where
  "fieldsOf (AccountId x) = [(0, x)]"
| "fieldsOf (FeeId h l u) = [(0, binToHex h), (l, []), (u, [])]"
| "fieldsOf (BalanceId x) = [(0, x)]"
| "fieldsOf (AssetId x) = [(0, x)]"
| "fieldsOf (AccountTypeLimitsId x) = [(x, [])]"
| "fieldsOf (StatisticsId x) = [(0, x)]"
| "fieldsOf (ReferenceId x) = [(0, x)]"
| "fieldsOf (TrustId x y) = [(0, x), (0, y)]"
| "fieldsOf (AccountLimitsId x) = [(0, x)]"
| "fieldsOf (AssetPairId x y) = [(0, x), (0, y)]"
| "fieldsOf (OfferId x y) = [(uint x, []), (0, y)]"
| "fieldsOf (ReviewableRequestId x) = [(uint x, [])]"
| "fieldsOf (ExternalSystemAccountIDId x y) = [(0, x), (y, [])]"
| "fieldsOf (SaleId x) = [(uint x, [])]"
| "fieldsOf (KeyValueId x) = [(0, x)]"
| "fieldsOf (AccountKYCId x) = [(0, x)]"
| "fieldsOf (PoolEntryId x) = [(uint x, [])]"
| "fieldsOf (LimitsV2Id x) = [(uint x, [])]"
| "fieldsOf (StatisticsV2Id x) = [(uint x, [])]"
| "fieldsOf (PendingStatisticsId x y) = [(uint x, []), (uint y, [])]"
| "fieldsOf (SaleAnteId x y) = [(uint x, []), (0, y)]"
| "fieldsOf (ContractId x) = [(uint x, [])]"
| "fieldsOf (AccountRoleId x) = [(uint x, [])]"
| "fieldsOf (AccountRolePermissionId x) = [(uint x, [])]"
| "fieldsOf (OtherId n) = [(int n, [])]"

definition idkey :: "(LedgerEntryType \<Rightarrow> int) \<Rightarrow> LedgerId \<Rightarrow> int \<times> (int \<times> string) list" where
  "idkey enum a = (enum (typeOf a), fieldsOf a)"

definition known :: "LedgerId \<Rightarrow> bool" where
  "known a \<longleftrightarrow> typeOf a \<noteq> OTHER_TYPE"

lemma hexDigit_inj: "m < 16 \<Longrightarrow> n < 16 \<Longrightarrow> hexDigit m = hexDigit n \<longleftrightarrow> m = n"
  by (auto simp: hexDigit_def char_of_eq_iff take_bit_nat_eq_self split: if_splits)

lemma byte_div_16 [simp]: "(of_char c :: nat) div 16 < 16"
  using mod_less_divisor[of 256 "of_char c :: nat"] by (simp add: less_mult_imp_div_less)

lemma byte_hex_inj:
  "hexDigit (of_char b div 16) = hexDigit (of_char b' div 16) \<Longrightarrow>
   hexDigit (of_char b mod 16) = hexDigit (of_char b' mod 16) \<Longrightarrow> b = b'"
proof -
  assume "hexDigit (of_char b div 16) = hexDigit (of_char b' div 16)"
    "hexDigit (of_char b mod 16) = hexDigit (of_char b' mod 16)"
  then have "(of_char b :: nat) div 16 = of_char b' div 16" "(of_char b :: nat) mod 16 = of_char b' mod 16"
    by (simp_all add: hexDigit_inj)
  then have "(of_char b :: nat) = of_char b'" by (metis div_mult_mod_eq)
  then show "b = b'" by simp
qed

lemma binToHex_simps [simp]:
  "binToHex [] = []"
  "binToHex (b # bs) = hexDigit (of_char b div 16) # hexDigit (of_char b mod 16) # binToHex bs"
  by (simp_all add: binToHex_def)

lemma binToHex_injD: "binToHex a = binToHex b \<Longrightarrow> a = b"
proof (induction a arbitrary: b)
  case Nil
  then show ?case by (cases b) simp_all
next
  case (Cons x a)
  then obtain y c where b: "b = y # c" by (cases b) auto
  have "x = y" by (rule byte_hex_inj) (use Cons.prems b in simp_all)
  moreover have "a = c" by (rule Cons.IH) (use Cons.prems b in simp)
  ultimately show ?case using b by simp
qed

lemma binToHex_inj [simp]: "binToHex a = binToHex b \<longleftrightarrow> a = b"
  using binToHex_injD by blast

text \<open>Which identities have a type, and the comparison within each type.\<close>

lemma typeOf_iff:
  "typeOf a = ACCOUNT \<longleftrightarrow> (\<exists>x. a = AccountId x)"
  "typeOf a = FEE \<longleftrightarrow> (\<exists>h l u. a = FeeId h l u)"
  "typeOf a = BALANCE \<longleftrightarrow> (\<exists>x. a = BalanceId x)"
  "typeOf a = ASSET \<longleftrightarrow> (\<exists>x. a = AssetId x)"
  "typeOf a = ACCOUNT_TYPE_LIMITS \<longleftrightarrow> (\<exists>x. a = AccountTypeLimitsId x)"
  "typeOf a = STATISTICS \<longleftrightarrow> (\<exists>x. a = StatisticsId x)"
  "typeOf a = REFERENCE_ENTRY \<longleftrightarrow> (\<exists>x. a = ReferenceId x)"
  "typeOf a = TRUST \<longleftrightarrow> (\<exists>x y. a = TrustId x y)"
  "typeOf a = ACCOUNT_LIMITS \<longleftrightarrow> (\<exists>x. a = AccountLimitsId x)"
  "typeOf a = ASSET_PAIR \<longleftrightarrow> (\<exists>x y. a = AssetPairId x y)"
  "typeOf a = OFFER_ENTRY \<longleftrightarrow> (\<exists>x y. a = OfferId x y)"
  "typeOf a = REVIEWABLE_REQUEST \<longleftrightarrow> (\<exists>x. a = ReviewableRequestId x)"
  "typeOf a = EXTERNAL_SYSTEM_ACCOUNT_ID \<longleftrightarrow> (\<exists>x y. a = ExternalSystemAccountIDId x y)"
  "typeOf a = SALE \<longleftrightarrow> (\<exists>x. a = SaleId x)"
  "typeOf a = KEY_VALUE \<longleftrightarrow> (\<exists>x. a = KeyValueId x)"
  "typeOf a = ACCOUNT_KYC \<longleftrightarrow> (\<exists>x. a = AccountKYCId x)"
  "typeOf a = EXTERNAL_SYSTEM_ACCOUNT_ID_POOL_ENTRY \<longleftrightarrow> (\<exists>x. a = PoolEntryId x)"
  "typeOf a = LIMITS_V2 \<longleftrightarrow> (\<exists>x. a = LimitsV2Id x)"
  "typeOf a = STATISTICS_V2 \<longleftrightarrow> (\<exists>x. a = StatisticsV2Id x)"
  "typeOf a = PENDING_STATISTICS \<longleftrightarrow> (\<exists>x y. a = PendingStatisticsId x y)"
  "typeOf a = SALE_ANTE \<longleftrightarrow> (\<exists>x y. a = SaleAnteId x y)"
  "typeOf a = CONTRACT \<longleftrightarrow> (\<exists>x. a = ContractId x)"
  "typeOf a = ACCOUNT_ROLE \<longleftrightarrow> (\<exists>x. a = AccountRoleId x)"
  "typeOf a = ACCOUNT_ROLE_PERMISSION \<longleftrightarrow> (\<exists>x. a = AccountRolePermissionId x)"
  "typeOf a = OTHER_TYPE \<longleftrightarrow> (\<exists>x. a = OtherId x)"
  by (cases a; simp)+

lemma LedgerEntryIdCmp_same:
  "LedgerEntryIdCmp enum (AccountId p) (AccountId p') = Inr (p < p')"
  "LedgerEntryIdCmp enum (FeeId h l u) (FeeId h' l' u') =
     Inr (binToHex h < binToHex h' \<or> h = h' \<and> (l < l' \<or> l = l' \<and> u < u'))"
  "LedgerEntryIdCmp enum (BalanceId p) (BalanceId p') = Inr (p < p')"
  "LedgerEntryIdCmp enum (AssetId p) (AssetId p') = Inr (p < p')"
  "LedgerEntryIdCmp enum (AccountTypeLimitsId i) (AccountTypeLimitsId i') = Inr (i < i')"
  "LedgerEntryIdCmp enum (StatisticsId p) (StatisticsId p') = Inr (p < p')"
  "LedgerEntryIdCmp enum (ReferenceId p) (ReferenceId p') = Inr (p < p')"
  "LedgerEntryIdCmp enum (TrustId p q) (TrustId p' q') = Inr (p < p' \<or> p = p' \<and> q < q')"
  "LedgerEntryIdCmp enum (AccountLimitsId p) (AccountLimitsId p') = Inr (p < p')"
  "LedgerEntryIdCmp enum (AssetPairId p q) (AssetPairId p' q') = Inr (p < p' \<or> p = p' \<and> q < q')"
  "LedgerEntryIdCmp enum (OfferId m q) (OfferId m' q') = Inr (m < m' \<or> m = m' \<and> q < q')"
  "LedgerEntryIdCmp enum (ReviewableRequestId m) (ReviewableRequestId m') = Inr (m < m')"
  "LedgerEntryIdCmp enum (ExternalSystemAccountIDId p i) (ExternalSystemAccountIDId p' i') = Inr (p < p' \<or> p = p' \<and> i < i')"
  "LedgerEntryIdCmp enum (SaleId m) (SaleId m') = Inr (m < m')"
  "LedgerEntryIdCmp enum (KeyValueId p) (KeyValueId p') = Inr (p < p')"
  "LedgerEntryIdCmp enum (AccountKYCId p) (AccountKYCId p') = Inr (p < p')"
  "LedgerEntryIdCmp enum (PoolEntryId m) (PoolEntryId m') = Inr (m < m')"
  "LedgerEntryIdCmp enum (LimitsV2Id m) (LimitsV2Id m') = Inr (m < m')"
  "LedgerEntryIdCmp enum (StatisticsV2Id m) (StatisticsV2Id m') = Inr (m < m')"
  "LedgerEntryIdCmp enum (PendingStatisticsId m n) (PendingStatisticsId m' n') = Inr (m < m' \<or> m = m' \<and> n < n')"
  "LedgerEntryIdCmp enum (SaleAnteId m q) (SaleAnteId m' q') = Inr (m < m' \<or> m = m' \<and> q < q')"
  "LedgerEntryIdCmp enum (ContractId m) (ContractId m') = Inr (m < m')"
  "LedgerEntryIdCmp enum (AccountRoleId m) (AccountRoleId m') = Inr (m < m')"
  "LedgerEntryIdCmp enum (AccountRolePermissionId m) (AccountRolePermissionId m') = Inr (m < m')"
  by (auto simp: LedgerEntryIdCmp_def Let_def)

lemma idkey_inj:
  assumes "inj enum" "idkey enum a = idkey enum b"
  shows "a = b"
proof -
  have "typeOf a = typeOf b" "fieldsOf a = fieldsOf b"
    using assms by (auto simp: idkey_def inj_eq)
  then show ?thesis by (cases a) (auto simp: typeOf_iff[of b] eq_commute[of _ "typeOf b"] word_uint_eq_iff)
qed

lemma LedgerEntryIdCmp_idkey:
  assumes "inj enum" "known a"
  shows "LedgerEntryIdCmp enum a b = Inr (idkey enum a < idkey enum b)"
proof (cases "typeOf a = typeOf b")
  case True
  then show ?thesis
    using assms(2)
    by (cases a) (auto simp: typeOf_iff[of b] eq_commute[of _ "typeOf b"] known_def idkey_def
        LedgerEntryIdCmp_same word_less_def word_uint_eq_iff)
next
  case False
  then have "enum (typeOf a) \<noteq> enum (typeOf b)" using assms(1) by (simp add: inj_eq)
  then show ?thesis by (auto simp: LedgerEntryIdCmp_def idkey_def Let_def)
qed

end
