(* ===== verification/Bucket.thy ===== *)
theory Bucket
  imports LedgerCmp
begin

text \<open>
  Buckets, \<^verbatim>\<open>bucket/Bucket.cpp\<close>: sorted files of live entries and tombstones, and the merge of an
  older and a newer bucket with entries shadowed by younger buckets left out. A bucket is modelled by
  what its file holds and by its hash. What an entry carries besides its key is the type
  \<open>'b\<close>. The numbers of the entry types, the hash of a stream of entries and SHA-256 are parameters
  (\<open>BucketContext\<close>). An input iterator is the list of the entries it has not passed. The flag that
  keeps a file from being deleted and the removal of files are not modelled.
\<close>

section \<open>Entries and buckets\<close>

text \<open>\<open>keyRest\<close> is what a key has besides the fields the comparison reads: the sender of a reference.\<close>

record LedgerKey =
  keyId :: LedgerId
  keyRest :: bytes

record 'b LedgerEntry =
  lastModifiedLedgerSeq :: uint32
  entryKey :: LedgerKey
  entryBody :: 'b

abbreviation entryId :: "'b LedgerEntry \<Rightarrow> LedgerId" where
  "entryId e \<equiv> keyId (entryKey e)"

datatype 'b BucketEntry = LIVEENTRY "'b LedgerEntry" | DEADENTRY LedgerKey

record 'b Bucket =
  bucketEntries :: "'b BucketEntry list"
  mHash :: Hash

record 'b BucketContext =
  enumOf :: "LedgerEntryType \<Rightarrow> int"
  hashOf :: "'b BucketEntry list \<Rightarrow> Hash"
  sha256 :: "bytes \<Rightarrow> Hash"

definition zeroHash :: Hash where
  "zeroHash = replicate 32 (CHR 0x00)"

definition emptyBucket :: "'b Bucket" where
  "emptyBucket = \<lparr>bucketEntries = [], mHash = zeroHash\<rparr>"

definition BucketEntryIdCmp :: "'b BucketContext \<Rightarrow> 'b BucketEntry \<Rightarrow> 'b BucketEntry \<Rightarrow> bool result" where
  "BucketEntryIdCmp B a b = (case a of
     LIVEENTRY x \<Rightarrow> (case b of
       LIVEENTRY y \<Rightarrow> LedgerEntryIdCmp (enumOf B) (entryId x) (entryId y)
     | DEADENTRY y \<Rightarrow> LedgerEntryIdCmp (enumOf B) (entryId x) (keyId y))
   | DEADENTRY x \<Rightarrow> (case b of
       LIVEENTRY y \<Rightarrow> LedgerEntryIdCmp (enumOf B) (keyId x) (entryId y)
     | DEADENTRY y \<Rightarrow> LedgerEntryIdCmp (enumOf B) (keyId x) (keyId y)))"

definition isDead :: "'b BucketEntry \<Rightarrow> bool" where
  "isDead e = (case e of LIVEENTRY _ \<Rightarrow> False | DEADENTRY _ \<Rightarrow> True)"

section \<open>Writing a bucket\<close>

record 'b OutputIterator =
  mOut :: "'b BucketEntry list"
  mBuf :: "'b BucketEntry option"
  mKeepDeadEntries :: bool

definition mkOutputIterator :: "bool \<Rightarrow> 'b OutputIterator" where
  "mkOutputIterator keepDeadEntries = \<lparr>mOut = [], mBuf = None, mKeepDeadEntries = keepDeadEntries\<rparr>"

definition put :: "'b BucketContext \<Rightarrow> 'b BucketEntry \<Rightarrow> 'b OutputIterator \<Rightarrow> 'b OutputIterator result" where
  "put B e out =
     (if \<not> mKeepDeadEntries out \<and> isDead e then Inr out
      else bindE (case mBuf out of
          None \<Rightarrow> Inr out
        | Some buf \<Rightarrow>
            bindE (BucketEntryIdCmp B e buf) (\<lambda>less.
            bindE (assertE (\<not> less)) (\<lambda>_.
            bindE (BucketEntryIdCmp B buf e) (\<lambda>greater.
            Inr (if greater then out\<lparr>mOut := mOut out @ [buf]\<rparr> else out)))))
        (\<lambda>out'. Inr (out'\<lparr>mBuf := Some e\<rparr>)))"

text \<open>\<open>adoptFileAsBucket\<close> makes a bucket of the written file and its hash, or finds the one that
  already has this hash.\<close>

definition getBucket :: "'b BucketContext \<Rightarrow> 'b OutputIterator \<Rightarrow> 'b Bucket" where
  "getBucket B out =
     (let written = (case mBuf out of None \<Rightarrow> mOut out | Some buf \<Rightarrow> mOut out @ [buf]) in
      if written = [] then emptyBucket else \<lparr>bucketEntries = written, mHash = hashOf B written\<rparr>)"

section \<open>Reading a bucket\<close>

fun containsIdentity :: "'b BucketContext \<Rightarrow> 'b BucketEntry \<Rightarrow> 'b BucketEntry list \<Rightarrow> bool result" where
  "containsIdentity B i [] = Inr False"
| "containsIdentity B i (e # iter) =
     bindE (BucketEntryIdCmp B e i) (\<lambda>less.
     bindE (if less then Inr True else BucketEntryIdCmp B i e) (\<lambda>different.
     if \<not> different then Inr True else containsIdentity B i iter))"

definition containsBucketIdentity :: "'b BucketContext \<Rightarrow> 'b Bucket \<Rightarrow> 'b BucketEntry \<Rightarrow> bool result" where
  "containsBucketIdentity B b i = containsIdentity B i (bucketEntries b)"

fun countEntries :: "'b BucketEntry list \<Rightarrow> nat \<Rightarrow> nat \<Rightarrow> nat \<times> nat" where
  "countEntries [] live dead = (live, dead)"
| "countEntries (e # iter) live dead =
     (if \<not> isDead e then countEntries iter (live + 1) dead else countEntries iter live (dead + 1))"

definition countLiveAndDeadEntries :: "'b Bucket \<Rightarrow> nat \<times> nat" where
  "countLiveAndDeadEntries b = countEntries (bucketEntries b) 0 0"

section \<open>Merging\<close>

fun advanceShadow ::
  "'b BucketContext \<Rightarrow> 'b BucketEntry \<Rightarrow> 'b BucketEntry list \<Rightarrow> 'b BucketEntry list result" where
  "advanceShadow B e [] = Inr []"
| "advanceShadow B e (s # si) =
     bindE (BucketEntryIdCmp B s e) (\<lambda>less. if less then advanceShadow B e si else Inr (s # si))"

text \<open>The loop of \<open>maybe_put\<close> over the shadow iterators: whether the entry is shadowed, and the
  iterators moved.\<close>

fun shadowLoop ::
  "'b BucketContext \<Rightarrow> 'b BucketEntry \<Rightarrow> 'b BucketEntry list list \<Rightarrow> (bool \<times> 'b BucketEntry list list) result" where
  "shadowLoop B e [] = Inr (False, [])"
| "shadowLoop B e (si # rest) =
     bindE (advanceShadow B e si) (\<lambda>si'.
     bindE (case si' of [] \<Rightarrow> Inr False | s # _ \<Rightarrow> bindE (BucketEntryIdCmp B e s) (\<lambda>less. Inr (\<not> less))) (\<lambda>shadowed.
     if shadowed then Inr (True, si' # rest)
     else bindE (shadowLoop B e rest) (\<lambda>(r, rest'). Inr (r, si' # rest'))))"

definition maybe_put ::
  "'b BucketContext \<Rightarrow> 'b BucketEntry \<Rightarrow> 'b OutputIterator \<times> 'b BucketEntry list list
   \<Rightarrow> ('b OutputIterator \<times> 'b BucketEntry list list) result" where
  "maybe_put B e st = (case st of (out, shadowIterators) \<Rightarrow>
     bindE (shadowLoop B e shadowIterators) (\<lambda>(shadowed, shadowIterators').
     if shadowed then Inr (out, shadowIterators')
     else bindE (put B e out) (\<lambda>out'. Inr (out', shadowIterators'))))"

fun mergeLoop ::
  "'b BucketContext \<Rightarrow> 'b BucketEntry list \<Rightarrow> 'b BucketEntry list \<Rightarrow>
   'b OutputIterator \<times> 'b BucketEntry list list \<Rightarrow> ('b OutputIterator \<times> 'b BucketEntry list list) result" where
  "mergeLoop B [] [] st = Inr st"
| "mergeLoop B (oe # oi) [] st = bindE (maybe_put B oe st) (mergeLoop B oi [])"
| "mergeLoop B [] (ne # ni) st = bindE (maybe_put B ne st) (mergeLoop B [] ni)"
| "mergeLoop B (oe # oi) (ne # ni) st =
     bindE (BucketEntryIdCmp B oe ne) (\<lambda>older.
     if older then bindE (maybe_put B oe st) (mergeLoop B oi (ne # ni))
     else bindE (BucketEntryIdCmp B ne oe) (\<lambda>newer.
       if newer then bindE (maybe_put B ne st) (mergeLoop B (oe # oi) ni)
       else bindE (maybe_put B ne st) (mergeLoop B oi ni)))"

definition merge ::
  "'b BucketContext \<Rightarrow> 'b Bucket \<Rightarrow> 'b Bucket \<Rightarrow> 'b Bucket list \<Rightarrow> bool \<Rightarrow> 'b Bucket result" where
  "merge B oldBucket newBucket shadows keepDeadEntries =
     bindE (mergeLoop B (bucketEntries oldBucket) (bucketEntries newBucket)
       (mkOutputIterator keepDeadEntries, map bucketEntries shadows)) (\<lambda>(out, shadowIterators).
     Inr (getBucket B out))"

section \<open>A fresh bucket\<close>

text \<open>\<open>std::sort\<close> with the comparison of identities, by insertion. Entries of one batch have
  pairwise different identities, so the sorted sequence is unique.\<close>

fun insertEntry ::
  "'b BucketContext \<Rightarrow> 'b BucketEntry \<Rightarrow> 'b BucketEntry list \<Rightarrow> 'b BucketEntry list result" where
  "insertEntry B e [] = Inr [e]"
| "insertEntry B e (x # xs) =
     bindE (BucketEntryIdCmp B x e) (\<lambda>less.
     if less then bindE (insertEntry B e xs) (\<lambda>ys. Inr (x # ys)) else Inr (e # x # xs))"

fun sortEntries :: "'b BucketContext \<Rightarrow> 'b BucketEntry list \<Rightarrow> 'b BucketEntry list result" where
  "sortEntries B [] = Inr []"
| "sortEntries B (e # es) = bindE (sortEntries B es) (insertEntry B e)"

fun putAll :: "'b BucketContext \<Rightarrow> 'b BucketEntry list \<Rightarrow> 'b OutputIterator \<Rightarrow> 'b OutputIterator result" where
  "putAll B [] out = Inr out"
| "putAll B (e # es) out = bindE (put B e out) (putAll B es)"

definition fresh ::
  "'b BucketContext \<Rightarrow> 'b LedgerEntry list \<Rightarrow> LedgerKey list \<Rightarrow> 'b Bucket result" where
  "fresh B liveEntries deadEntries =
     bindE (sortEntries B (map LIVEENTRY liveEntries)) (\<lambda>live.
     bindE (sortEntries B (map DEADENTRY deadEntries)) (\<lambda>dead.
     bindE (putAll B live (mkOutputIterator True)) (\<lambda>liveOut.
     bindE (putAll B dead (mkOutputIterator True)) (\<lambda>deadOut.
     merge B (getBucket B liveOut) (getBucket B deadOut) [] True))))"

end
