(* ===== verification/BucketMerge.thy ===== *)
theory BucketMerge
  imports Bucket
begin

text \<open>
  What the merge of buckets computes. On sorted buckets the single pass with its shadow iterators
  never trips the order assertion and produces the plain merge, the newer entry winning, without the
  shadowed identities and, where they are not kept, without the tombstones.
\<close>

section \<open>Sorted buckets\<close>

definition idOf :: "'b BucketEntry \<Rightarrow> LedgerId" where
  "idOf e = (case e of LIVEENTRY x \<Rightarrow> entryId x | DEADENTRY k \<Rightarrow> keyId k)"

definition ekey :: "'b BucketContext \<Rightarrow> 'b BucketEntry \<Rightarrow> int \<times> (int \<times> string) list" where
  "ekey B e = idkey (enumOf B) (idOf e)"

definition sortedEntries :: "'b BucketContext \<Rightarrow> 'b BucketEntry list \<Rightarrow> bool" where
  "sortedEntries B es \<longleftrightarrow> (\<forall>e\<in>set es. known (idOf e)) \<and> sorted_wrt (\<lambda>a b. ekey B a < ekey B b) es"

text \<open>The numbers of an enumeration are pairwise different.\<close>

abbreviation distinctTypes :: "'b BucketContext \<Rightarrow> bool" where
  "distinctTypes B \<equiv> inj (enumOf B)"

definition lookup :: "'b BucketEntry list \<Rightarrow> LedgerId \<Rightarrow> 'b BucketEntry option" where
  "lookup es = map_of (map (\<lambda>e. (idOf e, e)) es)"

abbreviation ids :: "'b BucketEntry list \<Rightarrow> LedgerId set" where
  "ids es \<equiv> idOf ` set es"

lemma sortedEntries_simps [simp]:
  "sortedEntries B []"
  "sortedEntries B (e # es) \<longleftrightarrow> known (idOf e) \<and> (\<forall>x\<in>set es. ekey B e < ekey B x) \<and> sortedEntries B es"
  by (auto simp: sortedEntries_def)

lemma sortedEntries_filter: "sortedEntries B es \<Longrightarrow> sortedEntries B (filter P es)"
  by (auto simp: sortedEntries_def sorted_wrt_filter)

lemma lookup_simps [simp]:
  "lookup [] = Map.empty" "lookup (e # es) = (lookup es)(idOf e \<mapsto> e)"
  by (simp_all add: lookup_def)

lemma dom_lookup [simp]: "dom (lookup es) = ids es"
  by (simp add: lookup_def dom_map_of_conv_image_fst image_image)

lemma lookup_idOf: "lookup es k = Some e \<Longrightarrow> idOf e = k \<and> e \<in> set es"
  by (induction es) (auto split: if_splits)

lemma lookup_None_iff: "lookup es k = None \<longleftrightarrow> k \<notin> ids es"
  using dom_lookup[of es] by (metis domIff)

lemma ekey_idOf: "distinctTypes B \<Longrightarrow> ekey B a = ekey B b \<longleftrightarrow> idOf a = idOf b"
  by (auto simp: ekey_def dest: idkey_inj)

lemma lookup_member: "sortedEntries B es \<Longrightarrow> e \<in> set es \<Longrightarrow> lookup es (idOf e) = Some e"
  by (induction es) (auto simp: ekey_def)

lemma ekey_image: "distinctTypes B \<Longrightarrow> ekey B e \<in> ekey B ` set es \<longleftrightarrow> idOf e \<in> ids es"
  by (auto simp: image_iff ekey_idOf)

lemma BucketEntryIdCmp_ekey:
  "distinctTypes B \<Longrightarrow> known (idOf a) \<Longrightarrow> BucketEntryIdCmp B a b = Inr (ekey B a < ekey B b)"
  by (auto simp: BucketEntryIdCmp_def idOf_def ekey_def LedgerEntryIdCmp_idkey split: BucketEntry.splits)

section \<open>The reference merge\<close>

fun smerge :: "'b BucketContext \<Rightarrow> 'b BucketEntry list \<Rightarrow> 'b BucketEntry list \<Rightarrow> 'b BucketEntry list" where
  "smerge B [] ns = ns"
| "smerge B os [] = os"
| "smerge B (oe # os) (ne # ns) =
     (if ekey B oe < ekey B ne then oe # smerge B os (ne # ns)
      else if ekey B ne < ekey B oe then ne # smerge B (oe # os) ns
      else ne # smerge B os ns)"

lemma smerge_Nil [simp]: "smerge B os [] = os"
  by (cases os) simp_all

lemma set_smerge: "set (smerge B os ns) \<subseteq> set os \<union> set ns"
  by (induction B os ns rule: smerge.induct) auto

lemma sortedEntries_smerge:
  "sortedEntries B os \<Longrightarrow> sortedEntries B ns \<Longrightarrow> sortedEntries B (smerge B os ns)"
proof (induction B os ns rule: smerge.induct)
  case (3 B oe os ne ns)
  have "\<And>x. x \<in> set (smerge B os (ne # ns)) \<Longrightarrow> x \<in> set os \<or> x = ne \<or> x \<in> set ns"
    "\<And>x. x \<in> set (smerge B (oe # os) ns) \<Longrightarrow> x = oe \<or> x \<in> set os \<or> x \<in> set ns"
    "\<And>x. x \<in> set (smerge B os ns) \<Longrightarrow> x \<in> set os \<or> x \<in> set ns"
    using set_smerge[of B os "ne # ns"] set_smerge[of B "oe # os" ns] set_smerge[of B os ns] by auto
  with 3 show ?case by (auto dest: less_trans) (metis linorder_neqE order.strict_trans)+
qed simp_all

lemma lookup_smerge:
  "distinctTypes B \<Longrightarrow> sortedEntries B os \<Longrightarrow> sortedEntries B ns \<Longrightarrow>
   lookup (smerge B os ns) = lookup os ++ lookup ns"
proof (induction B os ns rule: smerge.induct)
  case (3 B oe os ne ns)
  consider "ekey B oe < ekey B ne" | "ekey B ne < ekey B oe" | "idOf oe = idOf ne"
    using 3(4) by (metis ekey_idOf linorder_neqE)
  then show ?case
  proof cases
    case 1
    then have "idOf oe \<notin> ids (ne # ns)"
      using 3(4,6) by (auto simp: image_iff simp flip: ekey_idOf[OF 3(4)] dest: less_trans)
    then have "lookup (ne # ns) (idOf oe) = None" by (rule lookup_None_iff[THEN iffD2])
    with 1 3 show ?thesis by (auto simp: map_add_def fun_eq_iff split: option.splits if_splits)
  next
    case 2
    with 3 show ?thesis by (auto simp: map_add_def fun_eq_iff)
  next
    case 3
    then have "ekey B oe = ekey B ne" by (simp add: ekey_def)
    then show ?thesis using 3 \<open>distinctTypes B\<close>
      "3.IH"(3) "3.prems" by (auto simp: map_add_def fun_eq_iff)
  qed
qed (simp_all add: map_add_def)

section \<open>The pass over the buckets\<close>

fun foldE :: "('a \<Rightarrow> 's \<Rightarrow> 's result) \<Rightarrow> 'a list \<Rightarrow> 's \<Rightarrow> 's result" where
  "foldE f [] s = Inr s"
| "foldE f (x # xs) s = bindE (f x s) (foldE f xs)"

lemma putAll_foldE: "putAll B = foldE (put B)"
proof (intro ext)
  show "putAll B es out = foldE (put B) es out" for es out
    by (induction es arbitrary: out) (auto intro!: bindE_cong)
qed

lemma mergeLoop_foldE:
  assumes "distinctTypes B" "\<forall>e\<in>set os \<union> set ns. known (idOf e)"
  shows "mergeLoop B os ns st = foldE (maybe_put B) (smerge B os ns) st"
  using assms
proof (induction B os ns st rule: mergeLoop.induct)
  case (2 B oe oi st)
  then show ?case by (auto intro!: bindE_cong)
next
  case (3 B ne ni st)
  then show ?case by (auto intro!: bindE_cong)
next
  case (4 B oe oi ne ni st)
  have IH: "\<not> ekey B oe < ekey B ne \<Longrightarrow> \<not> ekey B ne < ekey B oe \<Longrightarrow>
      maybe_put B ne st = Inr st' \<Longrightarrow> mergeLoop B oi ni st' = foldE (maybe_put B) (smerge B oi ni) st'" for st'
    using 4(3)[of False False st'] 4(4,5) by (simp add: BucketEntryIdCmp_ekey)
  with 4 show ?case by (auto simp: BucketEntryIdCmp_ekey intro!: bindE_cong)
qed simp

definition written :: "'b OutputIterator \<Rightarrow> 'b BucketEntry list" where
  "written out = (case mBuf out of None \<Rightarrow> mOut out | Some buf \<Rightarrow> mOut out @ [buf])"

definition kept :: "bool \<Rightarrow> 'b BucketEntry \<Rightarrow> bool" where
  "kept keepDeadEntries e \<longleftrightarrow> keepDeadEntries \<or> \<not> isDead e"

lemma foldE_put:
  assumes "distinctTypes B" "sortedEntries B es" "\<forall>x\<in>set (written out). known (idOf x) \<and> (\<forall>e\<in>set es. ekey B x < ekey B e)"
    and "mBuf out = None \<Longrightarrow> mOut out = []"
  shows "\<exists>out'. foldE (put B) es out = Inr out' \<and> written out' = written out @ filter (kept (mKeepDeadEntries out)) es"
  using assms
proof (induction es arbitrary: out)
  case (Cons e es)
  show ?case
  proof (cases "kept (mKeepDeadEntries out) e")
    case False
    then have "put B e out = Inr out" by (simp add: put_def kept_def)
    then show ?thesis using False Cons by simp
  next
    case True
    let ?out = "out\<lparr>mOut := written out, mBuf := Some e\<rparr>"
    have put: "put B e out = Inr ?out"
    proof (cases "mBuf out")
      case None
      then show ?thesis using True Cons.prems(4) by (auto simp: put_def kept_def written_def)
    next
      case (Some buf)
      then have "ekey B buf < ekey B e" "\<not> ekey B e < ekey B buf" "known (idOf buf)"
        using Cons.prems(3) by (auto simp: written_def)
      then show ?thesis
        using True Some Cons.prems(1,2) by (auto simp: put_def kept_def written_def BucketEntryIdCmp_ekey)
    qed
    have w: "written ?out = written out @ [e]" by (simp add: written_def)
    show ?thesis using Cons.IH[of ?out] Cons.prems True put unfolding w by auto
  qed
qed simp

section \<open>Shadows\<close>

lemma advanceShadow_dropWhile:
  "distinctTypes B \<Longrightarrow> \<forall>s\<in>set si. known (idOf s) \<Longrightarrow>
   advanceShadow B e si = Inr (dropWhile (\<lambda>s. ekey B s < ekey B e) si)"
  by (induction si) (auto simp: BucketEntryIdCmp_ekey)

text \<open>An iterator that may have passed entries below \<open>k\<close>.\<close>

definition resumes :: "'b BucketContext \<Rightarrow> int \<times> (int \<times> string) list \<Rightarrow> 'b BucketEntry list \<Rightarrow> 'b BucketEntry list \<Rightarrow> bool" where
  "resumes B k si si' \<longleftrightarrow> sortedEntries B si' \<and> (\<forall>x. k \<le> x \<longrightarrow> x \<in> ekey B ` set si' \<longleftrightarrow> x \<in> ekey B ` set si)"

lemma resumes_dropWhile:
  "sortedEntries B si \<Longrightarrow> resumes B (ekey B e) si (dropWhile (\<lambda>s. ekey B s < ekey B e) si)"
  by (induction si) (auto simp: resumes_def)

lemma head_shadows:
  assumes "distinctTypes B" "known (idOf e)" "sortedEntries B si'" "\<forall>s si''. si' = s # si'' \<longrightarrow> \<not> ekey B s < ekey B e"
  shows "(case si' of [] \<Rightarrow> Inr False | s # _ \<Rightarrow> bindE (BucketEntryIdCmp B e s) (\<lambda>less. Inr (\<not> less))) =
    Inr (ekey B e \<in> ekey B ` set si')"
  using assms by (cases si') (auto simp: BucketEntryIdCmp_ekey)

lemma shadowLoop_exact:
  assumes "distinctTypes B" "known (idOf e)" "\<forall>si\<in>set sis. sortedEntries B si"
  shows "\<exists>sis'. shadowLoop B e sis = Inr (\<exists>si\<in>set sis. ekey B e \<in> ekey B ` set si, sis') \<and>
    list_all2 (resumes B (ekey B e)) sis sis'"
  using assms(3)
proof (induction sis)
  case (Cons si sis)
  let ?si = "dropWhile (\<lambda>s. ekey B s < ekey B e) si"
  have res: "resumes B (ekey B e) si ?si" using Cons.prems by (simp add: resumes_dropWhile)
  then have mem: "ekey B e \<in> ekey B ` set ?si \<longleftrightarrow> ekey B e \<in> ekey B ` set si" and sorted: "sortedEntries B ?si"
    unfolding resumes_def by blast+
  have adv: "advanceShadow B e si = Inr ?si"
    using Cons.prems assms(1) by (intro advanceShadow_dropWhile) (auto simp: sortedEntries_def)
  have hd: "\<forall>s si''. ?si = s # si'' \<longrightarrow> \<not> ekey B s < ekey B e"
    using hd_dropWhile[of "\<lambda>s. ekey B s < ekey B e" si] by force
  have refl: "list_all2 (resumes B (ekey B e)) sis sis"
    using Cons.prems by (simp add: list_all2_same resumes_def)
  show ?case
    using Cons res refl by (auto simp: adv head_shadows[OF assms(1,2) sorted hd] mem)
qed simp

lemma foldE_maybe_put:
  assumes "distinctTypes B" "sortedEntries B es" "\<forall>si\<in>set sis. sortedEntries B si"
    and "foldE (put B) (filter (\<lambda>e. \<forall>si\<in>set sis. ekey B e \<notin> ekey B ` set si) es) out = Inr out'"
  shows "\<exists>sis'. foldE (maybe_put B) es (out, sis) = Inr (out', sis')"
  using assms(2-4)
proof (induction es arbitrary: out sis)
  case (Cons e es)
  from Cons.prems obtain sis' where loop: "shadowLoop B e sis = Inr (\<exists>si\<in>set sis. ekey B e \<in> ekey B ` set si, sis')"
    and res: "list_all2 (resumes B (ekey B e)) sis sis'"
    using shadowLoop_exact[OF assms(1), of e sis] by auto
  have same: "(\<forall>si\<in>set sis'. ekey B x \<notin> ekey B ` set si) \<longleftrightarrow> (\<forall>si\<in>set sis. ekey B x \<notin> ekey B ` set si)"
    if "x \<in> set es" for x
  proof -
    have "ekey B e \<le> ekey B x" using that Cons.prems(1) by auto
    then have "list_all2 (\<lambda>si si'. ekey B x \<in> ekey B ` set si' \<longleftrightarrow> ekey B x \<in> ekey B ` set si) sis sis'"
      by (intro list_all2_mono[OF res]) (unfold resumes_def, blast)
    then show ?thesis by (induction rule: list_all2_induct) auto
  qed
  have flt: "filter (\<lambda>e. \<forall>si\<in>set sis. ekey B e \<notin> ekey B ` set si) es =
      filter (\<lambda>e. \<forall>si\<in>set sis'. ekey B e \<notin> ekey B ` set si) es"
    using same by (intro filter_cong) auto
  have sorted: "\<forall>si\<in>set sis'. sortedEntries B si"
    using res by (auto simp: resumes_def list_all2_conv_all_nth in_set_conv_nth)
  show ?case
    using Cons.prems Cons.IH[of sis'] sorted
    by (auto simp: maybe_put_def loop flt bindE_Inr_iff split: if_splits)
qed simp

section \<open>What a merge returns\<close>

definition mkBucket :: "'b BucketContext \<Rightarrow> 'b BucketEntry list \<Rightarrow> 'b Bucket" where
  "mkBucket B es = (if es = [] then emptyBucket else \<lparr>bucketEntries = es, mHash = hashOf B es\<rparr>)"

lemma bucketEntries_mkBucket [simp]: "bucketEntries (mkBucket B es) = es"
  by (simp add: mkBucket_def emptyBucket_def)

lemma getBucket_written: "getBucket B out = mkBucket B (written out)"
  by (simp add: getBucket_def mkBucket_def written_def Let_def split: option.split)

definition sortedBucket :: "'b BucketContext \<Rightarrow> 'b Bucket \<Rightarrow> bool" where
  "sortedBucket B b \<longleftrightarrow> sortedEntries B (bucketEntries b)"

definition shadowIds :: "'b Bucket list \<Rightarrow> LedgerId set" where
  "shadowIds shadows = (\<Union>b\<in>set shadows. ids (bucketEntries b))"

definition mergeSpec :: "'b BucketContext \<Rightarrow> 'b Bucket \<Rightarrow> 'b Bucket \<Rightarrow> 'b Bucket list \<Rightarrow> bool \<Rightarrow> 'b Bucket" where
  "mergeSpec B old new shadows keep =
     mkBucket B (filter (kept keep) (filter (\<lambda>e. idOf e \<notin> shadowIds shadows)
       (smerge B (bucketEntries old) (bucketEntries new))))"

lemma merge_spec:
  assumes B: "distinctTypes B" and old: "sortedBucket B old" and new: "sortedBucket B new"
    and shadows: "\<forall>b\<in>set shadows. sortedBucket B b"
  shows "merge B old new shadows keep = Inr (mergeSpec B old new shadows keep)"
proof -
  let ?es = "smerge B (bucketEntries old) (bucketEntries new)"
  let ?sis = "map bucketEntries shadows"
  let ?flt = "filter (\<lambda>e. \<forall>si\<in>set ?sis. ekey B e \<notin> ekey B ` set si) ?es"
  have sorted: "sortedEntries B ?es"
    using old new by (intro sortedEntries_smerge) (simp_all add: sortedBucket_def)
  have flt: "?flt = filter (\<lambda>e. idOf e \<notin> shadowIds shadows) ?es"
    by (intro filter_cong) (simp_all add: ekey_image[OF B] shadowIds_def)
  obtain out where out: "foldE (put B) ?flt (mkOutputIterator keep) = Inr out"
    "written out = filter (kept keep) ?flt"
    using foldE_put[OF B sortedEntries_filter[OF sorted], of "mkOutputIterator keep"]
    by (auto simp: mkOutputIterator_def written_def)
  obtain sis' where "foldE (maybe_put B) ?es (mkOutputIterator keep, ?sis) = Inr (out, sis')"
    using foldE_maybe_put[OF B sorted _ out(1)] shadows by (auto simp: sortedBucket_def)
  moreover have "\<forall>e\<in>set (bucketEntries old) \<union> set (bucketEntries new). known (idOf e)"
    using old new by (auto simp: sortedBucket_def sortedEntries_def)
  moreover have "written out = filter (kept keep) (filter (\<lambda>e. idOf e \<notin> shadowIds shadows) ?es)"
    using out(2) unfolding flt .
  ultimately show ?thesis
    by (simp add: merge_def mergeLoop_foldE[OF B] getBucket_written mergeSpec_def)
qed

lemma sortedBucket_mergeSpec:
  "sortedBucket B old \<Longrightarrow> sortedBucket B new \<Longrightarrow> sortedBucket B (mergeSpec B old new shadows keep)"
  unfolding sortedBucket_def mergeSpec_def bucketEntries_mkBucket
  by (intro sortedEntries_filter sortedEntries_smerge)

lemma lookup_filter:
  "sortedEntries B es \<Longrightarrow> lookup (filter P es) k = (case lookup es k of Some e \<Rightarrow> if P e then Some e else None | None \<Rightarrow> None)"
proof (induction es)
  case (Cons e es)
  have "idOf e \<notin> ids es" using Cons.prems by (auto simp: ekey_def)
  then have "lookup (filter P es) (idOf e) = None" by (auto simp: lookup_None_iff)
  then show ?case using Cons by auto
qed simp

lemma lookup_mergeSpec:
  assumes "distinctTypes B" "sortedBucket B old" "sortedBucket B new"
  shows "lookup (bucketEntries (mergeSpec B old new shadows keep)) k =
    (if k \<in> shadowIds shadows then None
     else case (lookup (bucketEntries old) ++ lookup (bucketEntries new)) k of
       Some e \<Rightarrow> if kept keep e then Some e else None | None \<Rightarrow> None)"
proof -
  have sorted: "sortedEntries B (smerge B (bucketEntries old) (bucketEntries new))"
    using assms by (intro sortedEntries_smerge) (simp_all add: sortedBucket_def)
  show ?thesis
    using assms lookup_idOf[of "smerge B (bucketEntries old) (bucketEntries new)" k]
    unfolding mergeSpec_def bucketEntries_mkBucket lookup_filter[OF sortedEntries_filter[OF sorted]]
      lookup_filter[OF sorted]
    by (auto simp: lookup_smerge sortedBucket_def split: option.splits)
qed

section \<open>Fresh buckets\<close>

lemma insertEntry_sorted:
  assumes "distinctTypes B" "known (idOf e)" "sortedEntries B xs" "idOf e \<notin> ids xs"
  shows "\<exists>ys. insertEntry B e xs = Inr ys \<and> sortedEntries B ys \<and> set ys = insert e (set xs)"
  using assms(3,4)
proof (induction xs)
  case (Cons x xs)
  have cmp: "BucketEntryIdCmp B x e = Inr (ekey B x < ekey B e)"
    using Cons.prems assms(1) by (simp add: BucketEntryIdCmp_ekey)
  show ?case
  proof (cases "ekey B x < ekey B e")
    case True
    obtain ys where "insertEntry B e xs = Inr ys" "sortedEntries B ys" "set ys = insert e (set xs)"
      using Cons by auto
    then show ?thesis using True cmp Cons.prems by auto
  next
    case False
    then have "ekey B e < ekey B x" using Cons.prems(2) ekey_idOf[OF assms(1), of e x] by auto
    then show ?thesis using False cmp Cons.prems assms(2) by (auto dest: less_trans)
  qed
qed (simp add: assms)

lemma sortEntries_sorted:
  assumes "distinctTypes B" "\<forall>e\<in>set es. known (idOf e)" "distinct (map idOf es)"
  shows "\<exists>ys. sortEntries B es = Inr ys \<and> sortedEntries B ys \<and> set ys = set es"
  using assms(2,3)
proof (induction es)
  case (Cons e es)
  then obtain ys where ys: "sortEntries B es = Inr ys" "sortedEntries B ys" "set ys = set es" by auto
  with insertEntry_sorted[OF assms(1), of e ys] Cons.prems show ?case by auto
qed simp

lemma putAll_sorted:
  assumes "distinctTypes B" "sortedEntries B es"
  shows "\<exists>out. putAll B es (mkOutputIterator True) = Inr out \<and> getBucket B out = mkBucket B es"
  using foldE_put[OF assms, of "mkOutputIterator True"]
  by (auto simp: putAll_foldE getBucket_written mkOutputIterator_def written_def kept_def)

text \<open>A batch names each entry once, live or dead, and only entries of the listed types.\<close>

definition batch :: "'b LedgerEntry list \<Rightarrow> LedgerKey list \<Rightarrow> bool" where
  "batch live dead \<longleftrightarrow> distinct (map entryId live @ map keyId dead) \<and> (\<forall>k\<in>set (map entryId live @ map keyId dead). known k)"

definition batchMap :: "'b LedgerEntry list \<Rightarrow> LedgerKey list \<Rightarrow> LedgerId \<Rightarrow> 'b BucketEntry option" where
  "batchMap live dead = lookup (map LIVEENTRY live) ++ lookup (map DEADENTRY dead)"

lemma lookup_sorted_set:
  assumes "sortedEntries B ys" "set ys = set es" "distinct (map idOf es)"
  shows "lookup ys = lookup es"
proof
  fix k
  have uniq: "lookup es (idOf e) = Some e" if "e \<in> set es" for e
    using that assms(3) by (auto simp: lookup_def intro!: map_of_is_SomeI simp: comp_def)
  show "lookup ys k = lookup es k"
  proof (cases "lookup ys k")
    case None
    then show ?thesis using assms(2) lookup_None_iff[of es k] lookup_None_iff[of ys k] by simp
  next
    case (Some e)
    then show ?thesis using uniq[of e] lookup_idOf[OF Some] assms(2) by simp
  qed
qed

lemma fresh_spec:
  assumes B: "distinctTypes B" and "batch live dead"
  shows "\<exists>es. fresh B live dead = Inr (mkBucket B es) \<and> sortedEntries B es \<and> lookup es = batchMap live dead"
proof -
  let ?l = "map LIVEENTRY live" and ?d = "map DEADENTRY dead"
  have l: "\<forall>e\<in>set ?l. known (idOf e)" "distinct (map idOf ?l)"
    and d: "\<forall>e\<in>set ?d. known (idOf e)" "distinct (map idOf ?d)"
    using assms(2) by (auto simp: batch_def idOf_def comp_def)
  obtain ls ds where ls: "sortEntries B ?l = Inr ls" "sortedEntries B ls" "set ls = set ?l"
    and ds: "sortEntries B ?d = Inr ds" "sortedEntries B ds" "set ds = set ?d"
    using sortEntries_sorted[OF B l] sortEntries_sorted[OF B d] by blast
  let ?ml = "mkBucket B ls" and ?md = "mkBucket B ds"
  have sorted: "sortedBucket B ?ml" "sortedBucket B ?md" using ls ds by (simp_all add: sortedBucket_def)
  have "fresh B live dead = Inr (mergeSpec B ?ml ?md [] True)"
    using putAll_sorted[OF B ls(2)] putAll_sorted[OF B ds(2)] ls(1) ds(1) merge_spec[OF B sorted, of "[]"]
    by (auto simp: fresh_def)
  moreover have "lookup (bucketEntries (mergeSpec B ?ml ?md [] True)) = batchMap live dead"
    by (rule ext) (simp add: lookup_mergeSpec[OF B sorted] lookup_sorted_set[OF ls(2,3) l(2)]
        lookup_sorted_set[OF ds(2,3) d(2)] shadowIds_def kept_def batchMap_def map_add_def split: option.split)
  ultimately show ?thesis
    using sortedBucket_mergeSpec[OF sorted] unfolding mergeSpec_def sortedBucket_def bucketEntries_mkBucket by blast
qed

section \<open>An example\<close>

text \<open>A numbering of the types, and a hash that tells buckets apart by their length; two balances
  and an asset.\<close>

primrec demoEnum :: "LedgerEntryType \<Rightarrow> int" where
  "demoEnum ACCOUNT = 0"
| "demoEnum FEE = 1"
| "demoEnum BALANCE = 2"
| "demoEnum ASSET = 3"
| "demoEnum ACCOUNT_TYPE_LIMITS = 4"
| "demoEnum STATISTICS = 5"
| "demoEnum REFERENCE_ENTRY = 6"
| "demoEnum TRUST = 7"
| "demoEnum ACCOUNT_LIMITS = 8"
| "demoEnum ASSET_PAIR = 9"
| "demoEnum OFFER_ENTRY = 10"
| "demoEnum REVIEWABLE_REQUEST = 11"
| "demoEnum EXTERNAL_SYSTEM_ACCOUNT_ID = 12"
| "demoEnum SALE = 13"
| "demoEnum KEY_VALUE = 14"
| "demoEnum ACCOUNT_KYC = 15"
| "demoEnum EXTERNAL_SYSTEM_ACCOUNT_ID_POOL_ENTRY = 16"
| "demoEnum LIMITS_V2 = 17"
| "demoEnum STATISTICS_V2 = 18"
| "demoEnum PENDING_STATISTICS = 19"
| "demoEnum SALE_ANTE = 20"
| "demoEnum CONTRACT = 21"
| "demoEnum ACCOUNT_ROLE = 22"
| "demoEnum ACCOUNT_ROLE_PERMISSION = 23"
| "demoEnum OTHER_TYPE = 24"

lemma inj_demoEnum: "inj demoEnum"
proof (rule injI)
  show "x = y" if "demoEnum x = demoEnum y" for x y
    using that by (cases x; cases y; simp)
qed

definition demoContext :: "nat BucketContext" where
  "demoContext = \<lparr>enumOf = demoEnum, hashOf = (\<lambda>es. replicate 32 (char_of (length es))),
     sha256 = (\<lambda>bs. replicate 32 (char_of (length bs)))\<rparr>"

lemma distinct_demo [simp]: "distinctTypes demoContext"
  by (simp add: demoContext_def inj_demoEnum)

abbreviation demoKey :: "LedgerId \<Rightarrow> LedgerKey" where
  "demoKey k \<equiv> \<lparr>keyId = k, keyRest = []\<rparr>"

abbreviation demoEntry :: "LedgerId \<Rightarrow> nat \<Rightarrow> nat LedgerEntry" where
  "demoEntry k n \<equiv> \<lparr>lastModifiedLedgerSeq = 1, entryKey = demoKey k, entryBody = n\<rparr>"

definition demoOld :: "nat Bucket" where
  "demoOld = mkBucket demoContext [LIVEENTRY (demoEntry (BalanceId ''a'') 1), LIVEENTRY (demoEntry (BalanceId ''b'') 2)]"

definition demoNew :: "nat Bucket" where
  "demoNew = mkBucket demoContext [DEADENTRY (demoKey (BalanceId ''a'')), LIVEENTRY (demoEntry (AssetId ''x'') 3)]"

lemmas demo_bucket = demoContext_def demoOld_def demoNew_def idOf_def ekey_def idkey_def known_def

lemma demo_sorted: "sortedBucket demoContext demoOld" "sortedBucket demoContext demoNew"
  by (simp_all add: sortedBucket_def demo_bucket)

section \<open>Properties\<close>

text \<open>C23. Merging sorted buckets never fails and gives a sorted bucket that answers every lookup as
  meant: nothing for a shadowed identity, else the newer entry, else the older one, and no tombstone
  where they are not kept.\<close>

theorem merge_lookup:
  assumes "distinctTypes B" "sortedBucket B old" "sortedBucket B new" "\<forall>b\<in>set shadows. sortedBucket B b"
  shows "\<exists>b. merge B old new shadows keep = Inr b \<and> sortedBucket B b \<and>
    (\<forall>k. lookup (bucketEntries b) k =
      (if k \<in> shadowIds shadows then None
       else case (lookup (bucketEntries old) ++ lookup (bucketEntries new)) k of
         Some e \<Rightarrow> if keep \<or> \<not> isDead e then Some e else None | None \<Rightarrow> None))"
  using merge_spec[OF assms] sortedBucket_mergeSpec[OF assms(2,3)] lookup_mergeSpec[OF assms(1-3)]
  unfolding kept_def by blast

theorem merge_lookup_witness:
  "\<exists>b. merge demoContext demoOld demoNew [] False = Inr b \<and> lookup (bucketEntries b) (BalanceId ''a'') = None \<and>
    lookup (bucketEntries b) (BalanceId ''b'') = Some (LIVEENTRY (demoEntry (BalanceId ''b'') 2)) \<and>
    lookup (bucketEntries b) (AssetId ''x'') = Some (LIVEENTRY (demoEntry (AssetId ''x'') 3))"
proof -
  have none: "\<forall>b\<in>set []. sortedBucket demoContext b" by simp
  obtain b where b: "merge demoContext demoOld demoNew [] False = Inr b"
    and look: "\<forall>k. lookup (bucketEntries b) k = (if k \<in> shadowIds ([] :: nat Bucket list) then None
       else case (lookup (bucketEntries demoOld) ++ lookup (bucketEntries demoNew)) k of
         Some e \<Rightarrow> if False \<or> \<not> isDead e then Some e else None | None \<Rightarrow> None)"
    using merge_lookup[OF distinct_demo demo_sorted none, of False] by blast
  show ?thesis using b by (intro exI[of _ b]) (simp add: look shadowIds_def demo_bucket isDead_def)
qed

text \<open>A fresh bucket holds exactly the batch, sorted.\<close>

theorem fresh_holds_batch:
  assumes "distinctTypes B" "batch live dead"
  shows "\<exists>b. fresh B live dead = Inr b \<and> sortedBucket B b \<and>
    (\<forall>k. lookup (bucketEntries b) k = (lookup (map LIVEENTRY live) ++ lookup (map DEADENTRY dead)) k)"
  using fresh_spec[OF assms] by (auto simp: batchMap_def sortedBucket_def)

theorem fresh_holds_batch_witness:
  "\<exists>b. fresh demoContext [demoEntry (BalanceId ''b'') 2] [demoKey (BalanceId ''a'')] = Inr b \<and>
    lookup (bucketEntries b) (BalanceId ''a'') = Some (DEADENTRY (demoKey (BalanceId ''a'')))"
proof -
  have "batch [demoEntry (BalanceId ''b'') 2] [demoKey (BalanceId ''a'')]" by (simp add: batch_def known_def)
  from fresh_holds_batch[OF distinct_demo this] show ?thesis by (auto simp: idOf_def)
qed

end
