(* ===== verification/FutureBucket.thy ===== *)
theory FutureBucket
  imports BucketMerge
begin

text \<open>
  A bucket that is being merged, \<^verbatim>\<open>bucket/FutureBucket.cpp\<close> and \<^verbatim>\<open>FutureBucket.h\<close>. The merge runs on a
  worker thread over immutable buckets, so the future is modelled by the outcome it will deliver, a
  failed merge included; \<open>mergeComplete\<close>, which asks whether the outcome is there yet, is taken to
  have waited. The bucket manager is the function \<open>getBucketByHash\<close>. The archive holds what \<open>save\<close>
  writes.
\<close>

section \<open>Hexadecimal strings\<close>

definition hexValue :: "char \<Rightarrow> nat result" where
  "hexValue c = (let n = of_char c in
     if 48 \<le> n \<and> n \<le> 57 then Inr (n - 48)
     else if 97 \<le> n \<and> n \<le> 102 then Inr (n - 87)
     else if 65 \<le> n \<and> n \<le> 70 then Inr (n - 55)
     else Inl (RuntimeError ''error in stellar::hexToBin(std::string)''))"

fun hexToBin :: "string \<Rightarrow> bytes result" where
  "hexToBin [] = Inr []"
| "hexToBin [_] = Inl (RuntimeError ''error in stellar::hexToBin(std::string)'')"
| "hexToBin (a # b # hex) =
     bindE (hexValue a) (\<lambda>x. bindE (hexValue b) (\<lambda>y. bindE (hexToBin hex) (\<lambda>bin.
     Inr (char_of (16 * x + y) # bin))))"

definition hexToBin256 :: "string \<Rightarrow> Hash result" where
  "hexToBin256 hex = bindE (hexToBin hex) (\<lambda>bin.
     if length bin \<noteq> 32 then Inl (RuntimeError ''wrong number of hex bytes when decoding uint256'')
     else Inr bin)"

section \<open>The state of a future bucket\<close>

datatype FBState = FB_CLEAR | FB_HASH_OUTPUT | FB_HASH_INPUTS | FB_LIVE_OUTPUT | FB_LIVE_INPUTS

record 'b FutureBucket =
  mState :: FBState
  mInputCurrBucket :: "'b Bucket option"
  mInputSnapBucket :: "'b Bucket option"
  mInputShadowBuckets :: "'b Bucket list"
  mOutputBucket :: "'b Bucket result option"
  mInputCurrBucketHash :: string
  mInputSnapBucketHash :: string
  mInputShadowBucketHashes :: "string list"
  mOutputBucketHash :: string
  mMergeKeepsDead :: bool

text \<open>The default constructor sets everything but the flag \<open>mKeepDeadEntries\<close>, whose value is
  whatever the memory holds: the argument.\<close>

definition clearFutureBucket :: "bool \<Rightarrow> 'b FutureBucket" where
  "clearFutureBucket uninitialised =
     \<lparr>mState = FB_CLEAR, mInputCurrBucket = None, mInputSnapBucket = None, mInputShadowBuckets = [],
      mOutputBucket = None, mInputCurrBucketHash = [], mInputSnapBucketHash = [],
      mInputShadowBucketHashes = [], mOutputBucketHash = [], mMergeKeepsDead = uninitialised\<rparr>"

definition isLive :: "'b FutureBucket \<Rightarrow> bool" where
  "isLive fb \<longleftrightarrow> mState fb = FB_LIVE_INPUTS \<or> mState fb = FB_LIVE_OUTPUT"

definition isMerging :: "'b FutureBucket \<Rightarrow> bool" where
  "isMerging fb \<longleftrightarrow> mState fb = FB_LIVE_INPUTS"

definition hasHashes :: "'b FutureBucket \<Rightarrow> bool" where
  "hasHashes fb \<longleftrightarrow> mState fb = FB_HASH_INPUTS \<or> mState fb = FB_HASH_OUTPUT"

definition mergeComplete :: "'b FutureBucket \<Rightarrow> bool result" where
  "mergeComplete fb = bindE (assertE (isLive fb)) (\<lambda>_. Inr True)"

definition futureGet :: "'b FutureBucket \<Rightarrow> 'b Bucket result" where
  "futureGet fb = (case mOutputBucket fb of None \<Rightarrow> Inl (RuntimeError ''no state'') | Some r \<Rightarrow> r)"

section \<open>Consistency checks\<close>

definition checkHashEq :: "'b Bucket \<Rightarrow> string \<Rightarrow> unit result" where
  "checkHashEq b h = bindE (hexToBin256 h) (\<lambda>bin. assertE (mHash b = bin))"

fun checkShadowHashes :: "'b Bucket list \<Rightarrow> string list \<Rightarrow> unit result" where
  "checkShadowHashes (b # bs) (h # hs) = bindE (checkHashEq b h) (\<lambda>_. checkShadowHashes bs hs)"
| "checkShadowHashes _ _ = Inr ()"

definition checkHashesMatch :: "'b FutureBucket \<Rightarrow> unit result" where
  "checkHashesMatch fb =
     bindE (if mInputShadowBuckets fb \<noteq> []
       then bindE (assertE (length (mInputShadowBuckets fb) = length (mInputShadowBucketHashes fb))) (\<lambda>_.
            checkShadowHashes (mInputShadowBuckets fb) (mInputShadowBucketHashes fb))
       else Inr ()) (\<lambda>_.
     bindE (case mInputSnapBucket fb of None \<Rightarrow> Inr () | Some b \<Rightarrow> checkHashEq b (mInputSnapBucketHash fb)) (\<lambda>_.
     bindE (case mInputCurrBucket fb of None \<Rightarrow> Inr () | Some b \<Rightarrow> checkHashEq b (mInputCurrBucketHash fb)) (\<lambda>_.
     if mOutputBucket fb = None then Inr ()
     else bindE (mergeComplete fb) (\<lambda>complete.
       if complete \<and> mOutputBucketHash fb \<noteq> []
       then bindE (futureGet fb) (\<lambda>b. checkHashEq b (mOutputBucketHash fb))
       else Inr ()))))"

definition checkState :: "'b FutureBucket \<Rightarrow> unit result" where
  "checkState fb = (case mState fb of
     FB_CLEAR \<Rightarrow>
       assertE (mInputShadowBuckets fb = [] \<and> mInputSnapBucket fb = None \<and> mInputCurrBucket fb = None \<and>
         mOutputBucket fb = None \<and> mInputShadowBucketHashes fb = [] \<and> mInputSnapBucketHash fb = [] \<and>
         mInputCurrBucketHash fb = [] \<and> mOutputBucketHash fb = [])
   | FB_LIVE_INPUTS \<Rightarrow>
       bindE (assertE (mInputSnapBucket fb \<noteq> None \<and> mInputCurrBucket fb \<noteq> None \<and> mOutputBucket fb \<noteq> None \<and>
         mOutputBucketHash fb = [])) (\<lambda>_. checkHashesMatch fb)
   | FB_LIVE_OUTPUT \<Rightarrow>
       bindE (mergeComplete fb) (\<lambda>complete.
       bindE (assertE (complete \<and> mOutputBucket fb \<noteq> None \<and> mOutputBucketHash fb \<noteq> [])) (\<lambda>_. checkHashesMatch fb))
   | FB_HASH_INPUTS \<Rightarrow>
       assertE (mInputSnapBucket fb = None \<and> mInputCurrBucket fb = None \<and> mOutputBucket fb = None \<and>
         mInputSnapBucketHash fb \<noteq> [] \<and> mInputCurrBucketHash fb \<noteq> [] \<and> mOutputBucketHash fb = [])
   | FB_HASH_OUTPUT \<Rightarrow>
       assertE (mInputSnapBucket fb = None \<and> mInputCurrBucket fb = None \<and> mOutputBucket fb = None \<and>
         mInputSnapBucketHash fb = [] \<and> mInputCurrBucketHash fb = [] \<and> mOutputBucketHash fb \<noteq> []))"

section \<open>Operations\<close>

definition clearInputs :: "'b FutureBucket \<Rightarrow> 'b FutureBucket" where
  "clearInputs fb = fb\<lparr>mInputShadowBuckets := [], mInputSnapBucket := None, mInputCurrBucket := None,
     mInputShadowBucketHashes := [], mInputSnapBucketHash := [], mInputCurrBucketHash := []\<rparr>"

definition clearOutput :: "'b FutureBucket \<Rightarrow> 'b FutureBucket" where
  "clearOutput fb = fb\<lparr>mOutputBucket := None, mOutputBucketHash := []\<rparr>"

definition clear :: "'b FutureBucket \<Rightarrow> 'b FutureBucket" where
  "clear fb = clearOutput (clearInputs (fb\<lparr>mState := FB_CLEAR\<rparr>))"

definition startMerge :: "'b BucketContext \<Rightarrow> 'b FutureBucket \<Rightarrow> 'b FutureBucket result" where
  "startMerge B fb =
     bindE (assertE (mState fb = FB_LIVE_INPUTS)) (\<lambda>_.
     case (mInputCurrBucket fb, mInputSnapBucket fb) of
       (Some currBucket, Some snapBucket) \<Rightarrow>
         bindE (assertE (mOutputBucket fb = None)) (\<lambda>_.
         let fb' = fb\<lparr>mOutputBucket := Some (merge B currBucket snapBucket (mInputShadowBuckets fb) (mMergeKeepsDead fb))\<rparr>
         in bindE (checkState fb') (\<lambda>_. Inr fb'))
     | _ \<Rightarrow> Inl AssertFailed)"

definition mkFutureBucket ::
  "'b BucketContext \<Rightarrow> 'b Bucket \<Rightarrow> 'b Bucket \<Rightarrow> 'b Bucket list \<Rightarrow> bool \<Rightarrow> 'b FutureBucket result" where
  "mkFutureBucket B currBucket snapBucket shadows keepDeadEntries =
     startMerge B \<lparr>mState = FB_LIVE_INPUTS, mInputCurrBucket = Some currBucket, mInputSnapBucket = Some snapBucket,
       mInputShadowBuckets = shadows, mOutputBucket = None, mInputCurrBucketHash = binToHex (mHash currBucket),
       mInputSnapBucketHash = binToHex (mHash snapBucket), mInputShadowBucketHashes = map (binToHex \<circ> mHash) shadows,
       mOutputBucketHash = [], mMergeKeepsDead = keepDeadEntries\<rparr>"

definition setLiveOutput :: "'b FutureBucket \<Rightarrow> 'b Bucket option \<Rightarrow> 'b FutureBucket result" where
  "setLiveOutput fb output =
     bindE (deref output) (\<lambda>b.
     let fb' = fb\<lparr>mState := FB_LIVE_OUTPUT, mOutputBucketHash := binToHex (mHash b), mOutputBucket := Some (Inr b)\<rparr>
     in bindE (checkState fb') (\<lambda>_. Inr fb'))"

definition resolve :: "'b FutureBucket \<Rightarrow> ('b Bucket \<times> 'b FutureBucket) result" where
  "resolve fb =
     bindE (checkState fb) (\<lambda>_.
     bindE (assertE (isLive fb)) (\<lambda>_.
     let fb1 = clearInputs fb in
     bindE (futureGet fb1) (\<lambda>bucket.
     bindE (if mOutputBucketHash fb1 = [] then Inr (fb1\<lparr>mOutputBucketHash := binToHex (mHash bucket)\<rparr>)
            else bindE (checkHashEq bucket (mOutputBucketHash fb1)) (\<lambda>_. Inr fb1)) (\<lambda>fb2.
     let fb3 = fb2\<lparr>mState := FB_LIVE_OUTPUT\<rparr> in
     bindE (checkState fb3) (\<lambda>_. Inr (bucket, fb3))))))"

definition hasOutputHash :: "'b FutureBucket \<Rightarrow> bool result" where
  "hasOutputHash fb =
     (if mState fb = FB_LIVE_OUTPUT \<or> mState fb = FB_HASH_OUTPUT
      then bindE (assertE (mOutputBucketHash fb \<noteq> [])) (\<lambda>_. Inr True)
      else Inr False)"

definition getOutputHash :: "'b FutureBucket \<Rightarrow> string result" where
  "getOutputHash fb =
     bindE (assertE (mState fb = FB_LIVE_OUTPUT \<or> mState fb = FB_HASH_OUTPUT)) (\<lambda>_.
     bindE (assertE (mOutputBucketHash fb \<noteq> [])) (\<lambda>_. Inr (mOutputBucketHash fb)))"

fun liveShadows :: "(Hash \<Rightarrow> 'b Bucket option) \<Rightarrow> string list \<Rightarrow> 'b Bucket list result" where
  "liveShadows getBucketByHash [] = Inr []"
| "liveShadows getBucketByHash (h # hs) =
     bindE (hexToBin256 h) (\<lambda>bin.
     bindE (assertE (getBucketByHash bin \<noteq> None)) (\<lambda>_.
     bindE (deref (getBucketByHash bin)) (\<lambda>b.
     bindE (liveShadows getBucketByHash hs) (\<lambda>bs. Inr (b # bs)))))"

definition makeLive ::
  "'b BucketContext \<Rightarrow> (Hash \<Rightarrow> 'b Bucket option) \<Rightarrow> 'b FutureBucket \<Rightarrow> 'b FutureBucket result" where
  "makeLive B getBucketByHash fb =
     bindE (checkState fb) (\<lambda>_.
     bindE (assertE (\<not> isLive fb)) (\<lambda>_.
     bindE (assertE (hasHashes fb)) (\<lambda>_.
     bindE (hasOutputHash fb) (\<lambda>output.
     if output
     then bindE (getOutputHash fb) (\<lambda>h. bindE (hexToBin256 h) (\<lambda>bin. setLiveOutput fb (getBucketByHash bin)))
     else
       bindE (assertE (mState fb = FB_HASH_INPUTS)) (\<lambda>_.
       bindE (hexToBin256 (mInputCurrBucketHash fb)) (\<lambda>ch.
       bindE (hexToBin256 (mInputSnapBucketHash fb)) (\<lambda>sh.
       bindE (assertE (mInputShadowBuckets fb = [])) (\<lambda>_.
       bindE (liveShadows getBucketByHash (mInputShadowBucketHashes fb)) (\<lambda>shadows.
       bindE (startMerge B (fb\<lparr>mInputCurrBucket := getBucketByHash ch, mInputSnapBucket := getBucketByHash sh,
         mInputShadowBuckets := shadows, mState := FB_LIVE_INPUTS\<rparr>)) (\<lambda>fb'.
       bindE (assertE (isLive fb')) (\<lambda>_. Inr fb')))))))))))"

definition getHashes :: "'b FutureBucket \<Rightarrow> string list" where
  "getHashes fb =
     (if mInputCurrBucketHash fb \<noteq> [] then [mInputCurrBucketHash fb] else []) @
     (if mInputSnapBucketHash fb \<noteq> [] then [mInputSnapBucketHash fb] else []) @
     mInputShadowBucketHashes fb @
     (if mOutputBucketHash fb \<noteq> [] then [mOutputBucketHash fb] else [])"

section \<open>Saving and loading\<close>

datatype FBArchive = SavedClear | SavedInputs string string "string list" | SavedOutput string

definition fb_save :: "'b FutureBucket \<Rightarrow> FBArchive result" where
  "fb_save fb = bindE (checkState fb) (\<lambda>_. Inr (case mState fb of
     FB_LIVE_INPUTS \<Rightarrow> SavedInputs (mInputCurrBucketHash fb) (mInputSnapBucketHash fb) (mInputShadowBucketHashes fb)
   | FB_HASH_INPUTS \<Rightarrow> SavedInputs (mInputCurrBucketHash fb) (mInputSnapBucketHash fb) (mInputShadowBucketHashes fb)
   | FB_LIVE_OUTPUT \<Rightarrow> SavedOutput (mOutputBucketHash fb)
   | FB_HASH_OUTPUT \<Rightarrow> SavedOutput (mOutputBucketHash fb)
   | FB_CLEAR \<Rightarrow> SavedClear))"

definition fb_load :: "FBArchive \<Rightarrow> 'b FutureBucket \<Rightarrow> 'b FutureBucket result" where
  "fb_load ar fb = (let fb0 = clear fb; fb1 = (case ar of
       SavedInputs currBucket snapBucket shadow \<Rightarrow> fb0\<lparr>mState := FB_HASH_INPUTS, mInputCurrBucketHash := currBucket,
         mInputSnapBucketHash := snapBucket, mInputShadowBucketHashes := shadow\<rparr>
     | SavedOutput output \<Rightarrow> fb0\<lparr>mState := FB_HASH_OUTPUT, mOutputBucketHash := output\<rparr>
     | SavedClear \<Rightarrow> fb0)
   in bindE (checkState fb1) (\<lambda>_. Inr fb1))"

section \<open>Hashes as strings\<close>

lemma hexValue_hexDigit: "n < 16 \<Longrightarrow> hexValue (hexDigit n) = Inr n"
  by (auto simp: hexValue_def hexDigit_def take_bit_nat_eq_self)

lemma hexToBin_binToHex [simp]: "hexToBin (binToHex bs) = Inr bs"
proof (induction bs)
  case (Cons b bs)
  have "hexValue (hexDigit (of_char b div 16)) = Inr (of_char b div 16)"
    "hexValue (hexDigit (of_char b mod 16)) = Inr (of_char b mod 16)"
    by (simp_all add: hexValue_hexDigit)
  then show ?case using Cons by simp
qed simp

text \<open>SHA-256 gives 32 bytes.\<close>

definition hashes32 :: "'b BucketContext \<Rightarrow> bool" where
  "hashes32 B \<longleftrightarrow> (\<forall>es. length (hashOf B es) = 32)"

definition hash32 :: "'b Bucket \<Rightarrow> bool" where
  "hash32 b \<longleftrightarrow> length (mHash b) = 32"

lemma hash32_mkBucket [simp]: "hashes32 B \<Longrightarrow> hash32 (mkBucket B es)"
  by (simp add: hash32_def hashes32_def mkBucket_def emptyBucket_def zeroHash_def)

lemma hash32_emptyBucket [simp]: "hash32 emptyBucket"
  by (simp add: hash32_def emptyBucket_def zeroHash_def)

lemma hash32_mergeSpec [simp]: "hashes32 B \<Longrightarrow> hash32 (mergeSpec B old new shadows keep)"
  by (simp add: mergeSpec_def)

lemma hexToBin256_hash [simp]: "hash32 b \<Longrightarrow> hexToBin256 (binToHex (mHash b)) = Inr (mHash b)"
  by (simp add: hexToBin256_def hash32_def)

lemma checkHashEq_own [simp]: "hash32 b \<Longrightarrow> checkHashEq b (binToHex (mHash b)) = Inr ()"
  by (simp add: checkHashEq_def)

lemma checkShadowHashes_own [simp]:
  "\<forall>b\<in>set bs. hash32 b \<Longrightarrow> checkShadowHashes bs (map (binToHex \<circ> mHash) bs) = Inr ()"
  by (induction bs) simp_all

lemma binToHex_hash [simp]: "hash32 b \<Longrightarrow> binToHex (mHash b) \<noteq> []"
  by (auto simp: hash32_def binToHex_def)

section \<open>The life of a merge\<close>

definition merging ::
  "'b BucketContext \<Rightarrow> 'b Bucket \<Rightarrow> 'b Bucket \<Rightarrow> 'b Bucket list \<Rightarrow> bool \<Rightarrow> 'b FutureBucket" where
  "merging B c s shadows keep =
     \<lparr>mState = FB_LIVE_INPUTS, mInputCurrBucket = Some c, mInputSnapBucket = Some s,
      mInputShadowBuckets = shadows, mOutputBucket = Some (merge B c s shadows keep),
      mInputCurrBucketHash = binToHex (mHash c), mInputSnapBucketHash = binToHex (mHash s),
      mInputShadowBucketHashes = map (binToHex \<circ> mHash) shadows, mOutputBucketHash = [],
      mMergeKeepsDead = keep\<rparr>"

lemmas futures = isLive_def isMerging_def hasHashes_def mergeComplete_def futureGet_def
  clearInputs_def clearOutput_def clear_def hasOutputHash_def getOutputHash_def

lemma merging_simps [simp]:
  "isLive (merging B c s shadows keep)" "isMerging (merging B c s shadows keep)"
  by (simp_all add: futures merging_def)

lemma checkState_merging:
  assumes "hash32 c" "hash32 s" "\<forall>b\<in>set shadows. hash32 b"
  shows "checkState (merging B c s shadows keep) = Inr ()"
  using assms by (simp add: checkState_def checkHashesMatch_def merging_def futures)

lemma mkFutureBucket_merging:
  assumes "hash32 c" "hash32 s" "\<forall>b\<in>set shadows. hash32 b"
  shows "mkFutureBucket B c s shadows keep = Inr (merging B c s shadows keep)"
  using checkState_merging[OF assms, of B keep]
  by (simp add: mkFutureBucket_def startMerge_def merging_def)

lemma resolve_merging:
  assumes "hash32 c" "hash32 s" "\<forall>b\<in>set shadows. hash32 b" "merge B c s shadows keep = Inr b" "hash32 b"
  shows "\<exists>fb. resolve (merging B c s shadows keep) = Inr (b, fb) \<and> mState fb = FB_LIVE_OUTPUT \<and>
    mOutputBucketHash fb = binToHex (mHash b)"
proof -
  have "checkState (merging B c s shadows keep) = Inr ()" by (rule checkState_merging[OF assms(1-3)])
  then show ?thesis
    using assms(4,5)
    by (simp add: resolve_def futures merging_def checkState_def checkHashesMatch_def)
qed

lemma clear_state [simp]: "mState (clear fb) = FB_CLEAR"
  by (simp add: futures)

lemma clear_not_live [simp]: "mState fb = FB_CLEAR \<Longrightarrow> \<not> isLive fb \<and> \<not> isMerging fb"
  by (simp add: futures)

end
