(* ===== verification/BucketList.thy ===== *)
theory BucketList
  imports FutureBucket
begin

text \<open>
  The list of buckets, \<^verbatim>\<open>bucket/BucketList.cpp\<close>: levels of growing size, each with a current and a
  snapshotted bucket and possibly a merge under way, and the addition of the changes of one ledger.
\<close>

section \<open>Levels\<close>

record 'b BucketLevel =
  mLevel :: nat
  mNextCurr :: "'b FutureBucket"
  mCurr :: "'b Bucket"
  mSnap :: "'b Bucket"

definition kNumLevels :: nat where
  "kNumLevels = 11"

definition levelSize :: "nat \<Rightarrow> uint32 result" where
  "levelSize level = bindE (assertE (level < kNumLevels)) (\<lambda>_. Inr (push_bit (2 * (level + 1)) 1))"

definition levelHalf :: "nat \<Rightarrow> uint32 result" where
  "levelHalf level = bindE (levelSize level) (\<lambda>size. Inr (drop_bit 1 size))"

definition mask32 :: "uint32 \<Rightarrow> uint32 \<Rightarrow> uint32" where
  "mask32 v m = v AND NOT (m - 1)"

definition levelShouldSpill :: "uint32 \<Rightarrow> nat \<Rightarrow> bool result" where
  "levelShouldSpill ledger level =
     (if level = kNumLevels - 1 then Inr False
      else bindE (levelHalf level) (\<lambda>half. bindE (levelSize level) (\<lambda>size.
        Inr (ledger = mask32 ledger half \<or> ledger = mask32 ledger size))))"

definition mkBucketLevel :: "bool \<Rightarrow> nat \<Rightarrow> 'b BucketLevel" where
  "mkBucketLevel uninitialised i =
     \<lparr>mLevel = i, mNextCurr = clearFutureBucket uninitialised, mCurr = emptyBucket, mSnap = emptyBucket\<rparr>"

definition levelHash :: "'b BucketContext \<Rightarrow> 'b BucketLevel \<Rightarrow> Hash" where
  "levelHash B l = sha256 B (mHash (mCurr l) @ mHash (mSnap l))"

definition setNext :: "'b FutureBucket \<Rightarrow> 'b BucketLevel \<Rightarrow> 'b BucketLevel" where
  "setNext fb l = l\<lparr>mNextCurr := fb\<rparr>"

definition setCurr :: "'b Bucket \<Rightarrow> 'b BucketLevel \<Rightarrow> 'b BucketLevel" where
  "setCurr b l = l\<lparr>mNextCurr := clear (mNextCurr l), mCurr := b\<rparr>"

definition setSnap :: "'b Bucket \<Rightarrow> 'b BucketLevel \<Rightarrow> 'b BucketLevel" where
  "setSnap b l = l\<lparr>mSnap := b\<rparr>"

definition commit :: "'b BucketLevel \<Rightarrow> 'b BucketLevel result" where
  "commit l =
     bindE (if isLive (mNextCurr l)
       then bindE (resolve (mNextCurr l)) (\<lambda>(b, fb). Inr (setCurr b (l\<lparr>mNextCurr := fb\<rparr>)))
       else Inr l) (\<lambda>l'.
     bindE (assertE (\<not> isMerging (mNextCurr l'))) (\<lambda>_. Inr l'))"

definition prepare ::
  "'b BucketContext \<Rightarrow> uint32 \<Rightarrow> 'b Bucket \<Rightarrow> 'b Bucket list \<Rightarrow> 'b BucketLevel \<Rightarrow> 'b BucketLevel result" where
  "prepare B currLedger snapBucket shadows l =
     bindE (assertE (\<not> isMerging (mNextCurr l))) (\<lambda>_.
     bindE (if 0 < mLevel l
       then bindE (levelHalf (mLevel l - 1)) (\<lambda>half.
            bindE (levelShouldSpill (currLedger + half) (mLevel l)) (\<lambda>spills.
            Inr (if spills then emptyBucket else mCurr l)))
       else Inr (mCurr l)) (\<lambda>currBucket.
     bindE (mkFutureBucket B currBucket snapBucket shadows (mLevel l < kNumLevels - 1)) (\<lambda>fb.
     bindE (assertE (isMerging fb)) (\<lambda>_.
     Inr (l\<lparr>mNextCurr := fb\<rparr>)))))"

text \<open>\<open>snap()\<close> returns the new \<open>mSnap\<close>.\<close>

definition snap :: "'b BucketLevel \<Rightarrow> 'b BucketLevel" where
  "snap l = l\<lparr>mSnap := mCurr l, mCurr := emptyBucket\<rparr>"

section \<open>The list\<close>

record 'b BucketList =
  mLevels :: "'b BucketLevel list"

definition mkBucketList :: "bool \<Rightarrow> 'b BucketList" where
  "mkBucketList uninitialised = \<lparr>mLevels = map (mkBucketLevel uninitialised) [0..<kNumLevels]\<rparr>"

definition bucketListHash :: "'b BucketContext \<Rightarrow> 'b BucketList \<Rightarrow> Hash" where
  "bucketListHash B bl = sha256 B (concat (map (levelHash B) (mLevels bl)))"

definition getLevel :: "nat \<Rightarrow> 'b BucketList \<Rightarrow> 'b BucketLevel result" where
  "getLevel i bl = (if i < length (mLevels bl) then Inr (mLevels bl ! i) else Inl (RuntimeError ''out_of_range''))"

fun spillLoop ::
  "'b BucketContext \<Rightarrow> uint32 \<Rightarrow> nat \<Rightarrow> 'b Bucket list \<Rightarrow> 'b BucketLevel list \<Rightarrow>
   ('b Bucket list \<times> 'b BucketLevel list) result" where
  "spillLoop B currLedger 0 shadows levels = Inr (shadows, levels)"
| "spillLoop B currLedger (Suc j) shadows levels =
     bindE (assertE (2 \<le> length shadows)) (\<lambda>_.
     let shadows' = butlast (butlast shadows) in
     bindE (levelShouldSpill currLedger j) (\<lambda>spills.
     if spills
     then let levels1 = levels[j := snap (levels ! j)]; snapBucket = mSnap (levels1 ! j) in
       bindE (commit (levels1 ! Suc j)) (\<lambda>l.
       bindE (prepare B currLedger snapBucket shadows' l) (\<lambda>l'.
       spillLoop B currLedger j shadows' (levels1[Suc j := l'])))
     else spillLoop B currLedger j shadows' levels))"

definition addBatch ::
  "'b BucketContext \<Rightarrow> uint32 \<Rightarrow> 'b LedgerEntry list \<Rightarrow> LedgerKey list \<Rightarrow> 'b BucketList \<Rightarrow> 'b BucketList result" where
  "addBatch B currLedger liveEntries deadEntries bl =
     bindE (assertE (0 < currLedger)) (\<lambda>_.
     let shadows = concat (map (\<lambda>l. [mCurr l, mSnap l]) (mLevels bl)) in
     bindE (assertE (2 \<le> length shadows)) (\<lambda>_.
     bindE (spillLoop B currLedger (length (mLevels bl) - 1) (butlast (butlast shadows)) (mLevels bl)) (\<lambda>(shadows', levels).
     bindE (assertE (length shadows' = 0)) (\<lambda>_.
     bindE (fresh B liveEntries deadEntries) (\<lambda>b.
     bindE (prepare B currLedger b shadows' (levels ! 0)) (\<lambda>l.
     bindE (commit l) (\<lambda>l'.
     Inr (bl\<lparr>mLevels := levels[0 := l']\<rparr>))))))))"

fun restartLoop ::
  "'b BucketContext \<Rightarrow> (Hash \<Rightarrow> 'b Bucket option) \<Rightarrow> 'b BucketLevel list \<Rightarrow> 'b BucketLevel list result" where
  "restartLoop B getBucketByHash [] = Inr []"
| "restartLoop B getBucketByHash (l # ls) =
     bindE (if hasHashes (mNextCurr l) \<and> \<not> isLive (mNextCurr l)
       then bindE (makeLive B getBucketByHash (mNextCurr l)) (\<lambda>fb. Inr (l\<lparr>mNextCurr := fb\<rparr>))
       else Inr l) (\<lambda>l'.
     bindE (restartLoop B getBucketByHash ls) (\<lambda>ls'. Inr (l' # ls')))"

definition restartMerges ::
  "'b BucketContext \<Rightarrow> (Hash \<Rightarrow> 'b Bucket option) \<Rightarrow> 'b BucketList \<Rightarrow> 'b BucketList result" where
  "restartMerges B getBucketByHash bl =
     bindE (restartLoop B getBucketByHash (mLevels bl)) (\<lambda>ls. Inr (bl\<lparr>mLevels := ls\<rparr>))"

end
