(* ===== verification/HistoryState.thy ===== *)
theory HistoryState
  imports BucketList
begin

text \<open>
  The description of a list of buckets by hashes that is published to archives and stored at every
  ledger, \<open>HistoryArchiveState\<close> of \<^verbatim>\<open>history/HistoryArchive.cpp\<close>. Whether the worker thread of a merge
  is done is the argument \<open>ready\<close>, by level. The JSON text is modelled by the values written
  to it; an element of a vector that is read back is default-constructed first, which leaves the flag
  \<open>mKeepDeadEntries\<close> of its future at an arbitrary value, the argument \<open>uninitialised\<close>, by level.
  Names and paths in archives are not modelled.
\<close>

record 'b HistoryStateBucket =
  hs_curr :: string
  hs_next :: "'b FutureBucket"
  hs_snap :: string

record 'b HistoryArchiveState =
  has_version :: nat
  currentLedger :: uint32
  currentBuckets :: "'b HistoryStateBucket list"

definition HISTORY_ARCHIVE_STATE_VERSION :: nat where
  "HISTORY_ARCHIVE_STATE_VERSION = 1"

section \<open>Construction\<close>

definition mkEmptyHistoryState :: "bool \<Rightarrow> 'b HistoryArchiveState" where
  "mkEmptyHistoryState uninitialised =
     \<lparr>has_version = HISTORY_ARCHIVE_STATE_VERSION, currentLedger = 0,
      currentBuckets = replicate kNumLevels
        \<lparr>hs_curr = binToHex zeroHash, hs_next = clearFutureBucket uninitialised, hs_snap = binToHex zeroHash\<rparr>\<rparr>"

fun levelStates :: "'b BucketList \<Rightarrow> nat list \<Rightarrow> 'b HistoryStateBucket list result" where
  "levelStates bl [] = Inr []"
| "levelStates bl (i # is) =
     bindE (getLevel i bl) (\<lambda>level.
     bindE (levelStates bl is) (\<lambda>bs.
     Inr (\<lparr>hs_curr = binToHex (mHash (mCurr level)), hs_next = mNextCurr level,
           hs_snap = binToHex (mHash (mSnap level))\<rparr> # bs)))"

definition mkHistoryState :: "uint32 \<Rightarrow> 'b BucketList \<Rightarrow> 'b HistoryArchiveState result" where
  "mkHistoryState ledger bl =
     bindE (levelStates bl [0..<kNumLevels]) (\<lambda>bs.
     Inr \<lparr>has_version = HISTORY_ARCHIVE_STATE_VERSION, currentLedger = ledger, currentBuckets = bs\<rparr>)"

section \<open>Futures\<close>

fun allReady :: "(nat \<Rightarrow> bool) \<Rightarrow> nat \<Rightarrow> 'b HistoryStateBucket list \<Rightarrow> bool result" where
  "allReady ready i [] = Inr True"
| "allReady ready i (level # ls) =
     (if isMerging (hs_next level)
      then bindE (mergeComplete (hs_next level)) (\<lambda>_. if \<not> ready i then Inr False else allReady ready (Suc i) ls)
      else allReady ready (Suc i) ls)"

definition futuresAllReady :: "(nat \<Rightarrow> bool) \<Rightarrow> 'b HistoryArchiveState \<Rightarrow> bool result" where
  "futuresAllReady ready has = allReady ready 0 (currentBuckets has)"

definition futuresAllResolved :: "'b HistoryArchiveState \<Rightarrow> bool" where
  "futuresAllResolved has = list_all (\<lambda>level. \<not> isMerging (hs_next level)) (currentBuckets has)"

fun resolveLevels :: "(nat \<Rightarrow> bool) \<Rightarrow> nat \<Rightarrow> 'b HistoryStateBucket list \<Rightarrow> 'b HistoryStateBucket list result" where
  "resolveLevels ready i [] = Inr []"
| "resolveLevels ready i (level # ls) =
     bindE (if isMerging (hs_next level) \<and> ready i
       then bindE (resolve (hs_next level)) (\<lambda>(b, fb). Inr (level\<lparr>hs_next := fb\<rparr>))
       else Inr level) (\<lambda>level'.
     bindE (resolveLevels ready (Suc i) ls) (\<lambda>ls'. Inr (level' # ls')))"

definition resolveAllFutures :: "'b HistoryArchiveState \<Rightarrow> 'b HistoryArchiveState result" where
  "resolveAllFutures has =
     bindE (resolveLevels (\<lambda>_. True) 0 (currentBuckets has)) (\<lambda>bs. Inr (has\<lparr>currentBuckets := bs\<rparr>))"

definition resolveAnyReadyFutures :: "(nat \<Rightarrow> bool) \<Rightarrow> 'b HistoryArchiveState \<Rightarrow> 'b HistoryArchiveState result" where
  "resolveAnyReadyFutures ready has =
     bindE (resolveLevels ready 0 (currentBuckets has)) (\<lambda>bs. Inr (has\<lparr>currentBuckets := bs\<rparr>))"

section \<open>Storing and reading back\<close>

record HasArchive =
  ar_version :: nat
  ar_ledger :: uint32
  ar_buckets :: "(string \<times> FBArchive \<times> string) list"

fun saveLevels :: "'b HistoryStateBucket list \<Rightarrow> (string \<times> FBArchive \<times> string) list result" where
  "saveLevels [] = Inr []"
| "saveLevels (level # ls) =
     bindE (fb_save (hs_next level)) (\<lambda>ar.
     bindE (saveLevels ls) (\<lambda>ars. Inr ((hs_curr level, ar, hs_snap level) # ars)))"

definition has_toString :: "'b HistoryArchiveState \<Rightarrow> HasArchive result" where
  "has_toString has =
     bindE (saveLevels (currentBuckets has)) (\<lambda>ars.
     Inr \<lparr>ar_version = has_version has, ar_ledger = currentLedger has, ar_buckets = ars\<rparr>)"

definition has_save :: "'b HistoryArchiveState \<Rightarrow> HasArchive result" where
  "has_save has = bindE (assertE (futuresAllResolved has)) (\<lambda>_. has_toString has)"

fun loadLevels :: "(nat \<Rightarrow> bool) \<Rightarrow> nat \<Rightarrow> (string \<times> FBArchive \<times> string) list \<Rightarrow> 'b HistoryStateBucket list result" where
  "loadLevels uninitialised i [] = Inr []"
| "loadLevels uninitialised i ((c, ar, s) # ars) =
     bindE (fb_load ar (clearFutureBucket (uninitialised i))) (\<lambda>fb.
     bindE (loadLevels uninitialised (Suc i) ars) (\<lambda>ls.
     Inr (\<lparr>hs_curr = c, hs_next = fb, hs_snap = s\<rparr> # ls)))"

definition has_fromString :: "(nat \<Rightarrow> bool) \<Rightarrow> HasArchive \<Rightarrow> 'b HistoryArchiveState result" where
  "has_fromString uninitialised ar =
     bindE (loadLevels uninitialised 0 (ar_buckets ar)) (\<lambda>ls.
     let has = \<lparr>has_version = ar_version ar, currentLedger = ar_ledger ar, currentBuckets = ls\<rparr> in
     bindE (assertE (futuresAllResolved has)) (\<lambda>_. Inr has))"

definition has_load :: "(nat \<Rightarrow> bool) \<Rightarrow> HasArchive \<Rightarrow> 'b HistoryArchiveState result" where
  "has_load uninitialised ar =
     bindE (loadLevels uninitialised 0 (ar_buckets ar)) (\<lambda>ls.
     let has = \<lparr>has_version = ar_version ar, currentLedger = ar_ledger ar, currentBuckets = ls\<rparr> in
     if has_version has \<noteq> HISTORY_ARCHIVE_STATE_VERSION
     then Inl (RuntimeError ''unexpected history archive state version'')
     else bindE (assertE (futuresAllResolved has)) (\<lambda>_. Inr has))"

section \<open>Hashes\<close>

fun levelHashes :: "'b BucketContext \<Rightarrow> 'b HistoryStateBucket list \<Rightarrow> bytes result" where
  "levelHashes B [] = Inr []"
| "levelHashes B (level # ls) =
     bindE (hexToBin (hs_curr level)) (\<lambda>c.
     bindE (hexToBin (hs_snap level)) (\<lambda>s.
     bindE (levelHashes B ls) (\<lambda>rest.
     Inr (sha256 B (c @ s) @ rest))))"

definition getBucketListHash :: "'b BucketContext \<Rightarrow> 'b HistoryArchiveState \<Rightarrow> Hash result" where
  "getBucketListHash B has = bindE (levelHashes B (currentBuckets has)) (\<lambda>total. Inr (sha256 B total))"

fun inhibitLoop :: "'b HistoryStateBucket list \<Rightarrow> string list \<Rightarrow> string list result" where
  "inhibitLoop [] inhibit = Inr inhibit"
| "inhibitLoop (b # bs) inhibit =
     bindE (if isLive (hs_next b) then bindE (resolve (hs_next b)) (\<lambda>(_, fb). Inr fb) else Inr (hs_next b)) (\<lambda>fb.
     bindE (hasOutputHash fb) (\<lambda>has_out.
     bindE (if has_out then bindE (getOutputHash fb) (\<lambda>h. Inr [h]) else Inr []) (\<lambda>out.
     inhibitLoop bs (inhibit @ [hs_curr b] @ out @ [hs_snap b]))))"

fun keepNew :: "string list \<Rightarrow> string list \<times> string list \<Rightarrow> string list \<times> string list" where
  "keepNew [] st = st"
| "keepNew (j # js) (ret, inhibit) =
     (if j \<notin> set inhibit then keepNew js (ret @ [j], inhibit @ [j]) else keepNew js (ret, inhibit))"

fun differLoop :: "'b HistoryStateBucket list \<Rightarrow> string list \<times> string list \<Rightarrow> (string list \<times> string list) result" where
  "differLoop [] st = Inr st"
| "differLoop (b # bs) st =
     bindE (hasOutputHash (hs_next b)) (\<lambda>has_out.
     bindE (if has_out then getOutputHash (hs_next b) else Inr (hs_snap b)) (\<lambda>n.
     differLoop bs (keepNew [hs_snap b, n, hs_curr b] st)))"

text \<open>The code indexes \<open>kNumLevels\<close> elements of \<open>currentBuckets\<close>, from the last to the first.\<close>

definition differingBuckets :: "'b HistoryArchiveState \<Rightarrow> 'b HistoryArchiveState \<Rightarrow> string list result" where
  "differingBuckets has other =
     bindE (assertE (futuresAllResolved has)) (\<lambda>_.
     bindE (inhibitLoop (currentBuckets other) [binToHex zeroHash]) (\<lambda>inhibit.
     bindE (differLoop (rev (take kNumLevels (currentBuckets has))) ([], inhibit)) (\<lambda>(ret, _).
     Inr ret)))"

definition allBuckets :: "'b HistoryArchiveState \<Rightarrow> string list" where
  "allBuckets has =
     sort (remdups (concat (map (\<lambda>level. [hs_curr level, hs_snap level] @ getHashes (hs_next level)) (currentBuckets has))))"

end
