(* ===== verification/LedgerDelta.thy ===== *)
theory LedgerDelta
  imports Bucket
begin

text \<open>
  The record of the changes made to the ledger, \<^verbatim>\<open>ledger/LedgerDeltaImpl.cpp\<close>, and the header it works
  on, \<^verbatim>\<open>ledger/LedgerHeaderFrameImpl.cpp\<close>. A delta is opened on a header or inside another delta
  and committed into it or rolled back. Its maps are \<^verbatim>\<open>std::map\<close>s ordered by
  \<open>LedgerEntryIdCmp\<close>: association lists kept in that order, whose operations fail when the comparison
  throws. What a commit goes to is an argument of it (\<open>Target\<close>), since the code holds a pointer.
  A header has the fields the modelled code uses and the rest.
\<close>

section \<open>Ordered maps with a comparison that may throw\<close>

abbreviation keyCmp :: "(LedgerEntryType \<Rightarrow> int) \<Rightarrow> LedgerKey \<Rightarrow> LedgerKey \<Rightarrow> bool result" where
  "keyCmp enum a b \<equiv> LedgerEntryIdCmp enum (keyId a) (keyId b)"

type_synonym 'v keyMap = "(LedgerKey \<times> 'v) list"

fun keyFind :: "(LedgerEntryType \<Rightarrow> int) \<Rightarrow> LedgerKey \<Rightarrow> 'v keyMap \<Rightarrow> 'v option result" where
  "keyFind enum k [] = Inr None"
| "keyFind enum k ((k', v) # m) =
     bindE (keyCmp enum k' k) (\<lambda>before.
     if before then keyFind enum k m
     else bindE (keyCmp enum k k') (\<lambda>after. Inr (if after then None else Some v)))"

text \<open>Assignment keeps the key object of an entry that is there already.\<close>

fun keyPut :: "(LedgerEntryType \<Rightarrow> int) \<Rightarrow> LedgerKey \<Rightarrow> 'v \<Rightarrow> 'v keyMap \<Rightarrow> 'v keyMap result" where
  "keyPut enum k v [] = Inr [(k, v)]"
| "keyPut enum k v ((k', v') # m) =
     bindE (keyCmp enum k' k) (\<lambda>before.
     if before then bindE (keyPut enum k v m) (\<lambda>m'. Inr ((k', v') # m'))
     else bindE (keyCmp enum k k') (\<lambda>after.
       Inr (if after then (k, v) # (k', v') # m else (k', v) # m)))"

fun keyErase :: "(LedgerEntryType \<Rightarrow> int) \<Rightarrow> LedgerKey \<Rightarrow> 'v keyMap \<Rightarrow> 'v keyMap result" where
  "keyErase enum k [] = Inr []"
| "keyErase enum k ((k', v') # m) =
     bindE (keyCmp enum k' k) (\<lambda>before.
     if before then bindE (keyErase enum k m) (\<lambda>m'. Inr ((k', v') # m'))
     else bindE (keyCmp enum k k') (\<lambda>after. Inr (if after then (k', v') # m else m)))"

section \<open>Headers\<close>

text \<open>The value consensus agreed on: the set of transactions, the time, and the upgrades with the rest.\<close>

record StellarValue =
  txSetHash :: Hash
  closeTime :: uint64
  valueRest :: bytes

record LedgerHeader =
  ledgerSeq :: uint32
  previousLedgerHash :: Hash
  scpValue :: StellarValue
  bucketListHash_of :: Hash
  skipList :: "Hash list"
  idGenerators :: "(LedgerEntryType \<times> uint64) list"
  headerRest :: bytes

fun lastGenerated :: "LedgerEntryType \<Rightarrow> (LedgerEntryType \<times> uint64) list \<Rightarrow> uint64" where
  "lastGenerated ty [] = 0"
| "lastGenerated ty ((ty', n) # gs) = (if ty' = ty then n else lastGenerated ty gs)"

definition getLastGeneratedID :: "LedgerEntryType \<Rightarrow> LedgerHeader \<Rightarrow> uint64" where
  "getLastGeneratedID ty h = lastGenerated ty (idGenerators h)"

fun incrementGenerator :: "LedgerEntryType \<Rightarrow> (LedgerEntryType \<times> uint64) list \<Rightarrow>
    uint64 \<times> (LedgerEntryType \<times> uint64) list" where
  "incrementGenerator ty [] = (1, [(ty, 1)])"
| "incrementGenerator ty ((ty', n) # gs) =
     (if ty' = ty then (n + 1, (ty', n + 1) # gs)
      else let (r, gs') = incrementGenerator ty gs in (r, (ty', n) # gs'))"

definition generateID :: "LedgerEntryType \<Rightarrow> LedgerHeader \<Rightarrow> uint64 \<times> LedgerHeader" where
  "generateID ty h = (let (n, gs) = incrementGenerator ty (idGenerators h) in (n, h\<lparr>idGenerators := gs\<rparr>))"

section \<open>The delta\<close>

datatype 'b LedgerEntryChange =
  CREATED "'b LedgerEntry" | UPDATED "'b LedgerEntry" | REMOVED LedgerKey | STATE "'b LedgerEntry"

record 'b LedgerDelta =
  mHeaderSet :: bool
  mCurrentHeader :: LedgerHeader
  mPreviousHeaderValue :: LedgerHeader
  mNew :: "'b LedgerEntry keyMap"
  mMod :: "'b LedgerEntry keyMap"
  mDelete :: "unit keyMap"
  mAllChanges :: "'b LedgerEntryChange list"
  mPrevious :: "'b LedgerEntry keyMap"
  mUpdateLastModified :: bool

definition mkLedgerDelta :: "LedgerHeader \<Rightarrow> bool \<Rightarrow> 'b LedgerDelta" where
  "mkLedgerDelta header updateLast =
     \<lparr>mHeaderSet = True, mCurrentHeader = header, mPreviousHeaderValue = header, mNew = [], mMod = [],
      mDelete = [], mAllChanges = [], mPrevious = [], mUpdateLastModified = updateLast\<rparr>"

definition mkNestedDelta :: "'b LedgerDelta \<Rightarrow> 'b LedgerDelta" where
  "mkNestedDelta outer = mkLedgerDelta (mCurrentHeader outer) (mUpdateLastModified outer)"

definition delta_checkState :: "'b LedgerDelta \<Rightarrow> unit result" where
  "delta_checkState d =
     (if \<not> mHeaderSet d then Inl (RuntimeError ''Invalid operation: delta is already committed'') else Inr ())"

text \<open>The key of an entry, \<open>LedgerEntryKey\<close> of \<^verbatim>\<open>ledger/EntryHelperLegacy.cpp\<close>: every type but an unknown one has it.\<close>

definition LedgerEntryKey :: "'b LedgerEntry \<Rightarrow> LedgerKey result" where
  "LedgerEntryKey e =
     (if typeOf (entryId e) = OTHER_TYPE then Inl (RuntimeError ''There's no legacy helper for this entry.'')
      else Inr (entryKey e))"

definition addEntry :: "(LedgerEntryType \<Rightarrow> int) \<Rightarrow> 'b LedgerEntry \<Rightarrow> 'b LedgerDelta \<Rightarrow> 'b LedgerDelta result" where
  "addEntry enum entry d =
     bindE (delta_checkState d) (\<lambda>_.
     bindE (LedgerEntryKey entry) (\<lambda>k.
     bindE (keyFind enum k (mDelete d)) (\<lambda>del_it.
     bindE (if del_it \<noteq> None
       then bindE (keyErase enum k (mDelete d)) (\<lambda>del'.
            bindE (keyPut enum k entry (mMod d)) (\<lambda>mod'.
            Inr (d\<lparr>mDelete := del', mMod := mod'\<rparr>)))
       else bindE (keyFind enum k (mNew d)) (\<lambda>n.
            bindE (assertE (n = None)) (\<lambda>_.
            bindE (keyFind enum k (mMod d)) (\<lambda>m.
            bindE (assertE (m = None)) (\<lambda>_.
            bindE (keyPut enum k entry (mNew d)) (\<lambda>new'.
            Inr (d\<lparr>mNew := new'\<rparr>))))))) (\<lambda>d'.
     Inr (d'\<lparr>mAllChanges := mAllChanges d' @ [CREATED entry]\<rparr>)))))"

definition deleteEntry :: "(LedgerEntryType \<Rightarrow> int) \<Rightarrow> LedgerKey \<Rightarrow> 'b LedgerDelta \<Rightarrow> 'b LedgerDelta result" where
  "deleteEntry enum k d =
     bindE (delta_checkState d) (\<lambda>_.
     bindE (keyFind enum k (mNew d)) (\<lambda>new_it.
     bindE (if new_it \<noteq> None
       then bindE (keyErase enum k (mNew d)) (\<lambda>new'. Inr (d\<lparr>mNew := new'\<rparr>))
       else bindE (keyFind enum k (mDelete d)) (\<lambda>del_it.
            bindE (if del_it = None then keyPut enum k () (mDelete d) else Inr (mDelete d)) (\<lambda>del'.
            bindE (keyErase enum k (mMod d)) (\<lambda>mod'.
            Inr (d\<lparr>mDelete := del', mMod := mod'\<rparr>))))) (\<lambda>d'.
     Inr (d'\<lparr>mAllChanges := mAllChanges d' @ [REMOVED k]\<rparr>))))"

definition modEntry :: "(LedgerEntryType \<Rightarrow> int) \<Rightarrow> 'b LedgerEntry \<Rightarrow> 'b LedgerDelta \<Rightarrow> 'b LedgerDelta result" where
  "modEntry enum entry d =
     bindE (delta_checkState d) (\<lambda>_.
     bindE (LedgerEntryKey entry) (\<lambda>k.
     bindE (keyFind enum k (mMod d)) (\<lambda>mod_it.
     bindE (if mod_it \<noteq> None
       then bindE (keyPut enum k entry (mMod d)) (\<lambda>mod'. Inr (d\<lparr>mMod := mod'\<rparr>))
       else bindE (keyFind enum k (mNew d)) (\<lambda>new_it.
            if new_it \<noteq> None
            then bindE (keyPut enum k entry (mNew d)) (\<lambda>new'. Inr (d\<lparr>mNew := new'\<rparr>))
            else bindE (keyFind enum k (mDelete d)) (\<lambda>del_it.
                 bindE (assertE (del_it = None)) (\<lambda>_.
                 bindE (keyPut enum k entry (mMod d)) (\<lambda>mod'. Inr (d\<lparr>mMod := mod'\<rparr>)))))) (\<lambda>d'.
     Inr (d'\<lparr>mAllChanges := mAllChanges d' @ [UPDATED entry]\<rparr>)))))"

text \<open>\<^verbatim>\<open>std::map::insert\<close> leaves an entry that is there alone.\<close>

definition recordEntry :: "(LedgerEntryType \<Rightarrow> int) \<Rightarrow> 'b LedgerEntry \<Rightarrow> 'b LedgerDelta \<Rightarrow> 'b LedgerDelta result" where
  "recordEntry enum entry d =
     bindE (delta_checkState d) (\<lambda>_.
     bindE (LedgerEntryKey entry) (\<lambda>k.
     bindE (keyFind enum k (mPrevious d)) (\<lambda>p.
     if p \<noteq> None then Inr d
     else bindE (keyPut enum k entry (mPrevious d)) (\<lambda>prev'. Inr (d\<lparr>mPrevious := prev'\<rparr>)))))"

section \<open>Merging, commit and rollback\<close>

definition recordPrevious :: "(LedgerEntryType \<Rightarrow> int) \<Rightarrow> LedgerKey \<Rightarrow> 'b LedgerDelta \<Rightarrow> 'b LedgerDelta \<Rightarrow>
    'b LedgerDelta result" where
  "recordPrevious enum k other d =
     bindE (keyFind enum k (mPrevious other)) (\<lambda>it.
     case it of None \<Rightarrow> Inr d | Some e \<Rightarrow> recordEntry enum e d)"

fun mergeDeleted :: "(LedgerEntryType \<Rightarrow> int) \<Rightarrow> 'b LedgerDelta \<Rightarrow> unit keyMap \<Rightarrow> 'b LedgerDelta \<Rightarrow> 'b LedgerDelta result" where
  "mergeDeleted enum other [] d = Inr d"
| "mergeDeleted enum other ((k, _) # ks) d =
     bindE (deleteEntry enum k d) (\<lambda>d1.
     bindE (recordPrevious enum k other d1) (\<lambda>d2.
     mergeDeleted enum other ks d2))"

fun mergeNew :: "(LedgerEntryType \<Rightarrow> int) \<Rightarrow> 'b LedgerEntry keyMap \<Rightarrow> 'b LedgerDelta \<Rightarrow> 'b LedgerDelta result" where
  "mergeNew enum [] d = Inr d"
| "mergeNew enum ((k, e) # m) d = bindE (addEntry enum e d) (mergeNew enum m)"

fun mergeMod :: "(LedgerEntryType \<Rightarrow> int) \<Rightarrow> 'b LedgerDelta \<Rightarrow> 'b LedgerEntry keyMap \<Rightarrow> 'b LedgerDelta \<Rightarrow> 'b LedgerDelta result" where
  "mergeMod enum other [] d = Inr d"
| "mergeMod enum other ((k, e) # m) d =
     bindE (modEntry enum e d) (\<lambda>d1.
     bindE (recordPrevious enum k other d1) (\<lambda>d2.
     mergeMod enum other m d2))"

definition mergeEntries :: "(LedgerEntryType \<Rightarrow> int) \<Rightarrow> 'b LedgerDelta \<Rightarrow> 'b LedgerDelta \<Rightarrow> 'b LedgerDelta result" where
  "mergeEntries enum other d =
     bindE (delta_checkState d) (\<lambda>_.
     bindE (mergeDeleted enum other (mDelete other) d) (\<lambda>d1.
     bindE (mergeNew enum (mNew other) d1) (\<lambda>d2.
     mergeMod enum other (mMod other) d2)))"

datatype 'b Target = ToHeader LedgerHeader | ToOuter "'b LedgerDelta"

primrec targetHeader :: "'b Target \<Rightarrow> LedgerHeader" where
  "targetHeader (ToHeader h) = h"
| "targetHeader (ToOuter d) = mCurrentHeader d"

definition delta_commit :: "(LedgerEntryType \<Rightarrow> int) \<Rightarrow> 'b LedgerDelta \<Rightarrow> 'b Target \<Rightarrow> ('b LedgerDelta \<times> 'b Target) result" where
  "delta_commit enum d target =
     bindE (delta_checkState d) (\<lambda>_.
     if mPreviousHeaderValue d \<noteq> targetHeader target then Inl (RuntimeError ''unexpected header state'')
     else bindE (case target of
         ToHeader h \<Rightarrow> Inr (ToHeader (mCurrentHeader d))
       | ToOuter outer \<Rightarrow> bindE (mergeEntries enum d outer) (\<lambda>outer'.
           Inr (ToOuter (outer'\<lparr>mCurrentHeader := mCurrentHeader d\<rparr>)))) (\<lambda>target'.
     Inr (d\<lparr>mHeaderSet := False\<rparr>, target')))"

text \<open>The keys whose cached entries \<open>rollback\<close> flushes. The types of roles have no helper to call.\<close>

definition getHelper :: "LedgerEntryType \<Rightarrow> unit option" where
  "getHelper ty =
     (if ty \<in> {ACCOUNT_ROLE, ACCOUNT_ROLE_PERMISSION, OTHER_TYPE} then None else Some ())"

fun flushKeys :: "LedgerKey list \<Rightarrow> LedgerKey list result" where
  "flushKeys [] = Inr []"
| "flushKeys (k # ks) =
     bindE (deref (getHelper (typeOf (keyId k)))) (\<lambda>_. bindE (flushKeys ks) (\<lambda>r. Inr (k # r)))"

definition rollback :: "'b LedgerDelta \<Rightarrow> (LedgerKey list \<times> 'b LedgerDelta) result" where
  "rollback d =
     bindE (delta_checkState d) (\<lambda>_.
     bindE (flushKeys (map fst (mDelete d) @ map fst (mNew d) @ map fst (mMod d))) (\<lambda>flushed.
     Inr (flushed, d\<lparr>mHeaderSet := False\<rparr>)))"

section \<open>What a delta reports\<close>

definition addCurrentMeta :: "(LedgerEntryType \<Rightarrow> int) \<Rightarrow> 'b LedgerDelta \<Rightarrow> LedgerKey \<Rightarrow> 'b LedgerEntryChange list result" where
  "addCurrentMeta enum d k =
     bindE (keyFind enum k (mPrevious d)) (\<lambda>it.
     Inr (case it of
         None \<Rightarrow> []
       | Some e \<Rightarrow> if lastModifiedLedgerSeq e \<noteq> ledgerSeq (mCurrentHeader d) then [STATE e] else []))"

fun changesMod :: "(LedgerEntryType \<Rightarrow> int) \<Rightarrow> 'b LedgerDelta \<Rightarrow> 'b LedgerEntry keyMap \<Rightarrow> 'b LedgerEntryChange list result" where
  "changesMod enum d [] = Inr []"
| "changesMod enum d ((k, e) # m) =
     bindE (addCurrentMeta enum d k) (\<lambda>meta.
     bindE (changesMod enum d m) (\<lambda>r. Inr (meta @ [UPDATED e] @ r)))"

fun changesDelete :: "(LedgerEntryType \<Rightarrow> int) \<Rightarrow> 'b LedgerDelta \<Rightarrow> unit keyMap \<Rightarrow> 'b LedgerEntryChange list result" where
  "changesDelete enum d [] = Inr []"
| "changesDelete enum d ((k, _) # m) =
     bindE (addCurrentMeta enum d k) (\<lambda>meta.
     bindE (changesDelete enum d m) (\<lambda>r. Inr (meta @ [REMOVED k] @ r)))"

definition getChanges :: "(LedgerEntryType \<Rightarrow> int) \<Rightarrow> 'b LedgerDelta \<Rightarrow> 'b LedgerEntryChange list result" where
  "getChanges enum d =
     bindE (changesMod enum d (mMod d)) (\<lambda>ms.
     bindE (changesDelete enum d (mDelete d)) (\<lambda>ds.
     Inr (map (\<lambda>(k, e). CREATED e) (mNew d) @ ms @ ds)))"

definition getLiveEntries :: "'b LedgerDelta \<Rightarrow> 'b LedgerEntry list" where
  "getLiveEntries d = map snd (mNew d) @ map snd (mMod d)"

definition getDeadEntries :: "'b LedgerDelta \<Rightarrow> LedgerKey list" where
  "getDeadEntries d = map fst (mDelete d)"

end
