(* ===== verification/BucketManager.thy ===== *)
theory BucketManager
  imports HistoryState LedgerDelta
begin

text \<open>
  The keeper of buckets, \<^verbatim>\<open>bucket/BucketManagerImpl.cpp\<close>, and the end of closing a ledger,
  \<open>closeLedgerHelper\<close> and \<open>advanceLedgerPointers\<close> of \<^verbatim>\<open>ledger/LedgerManagerImpl.cpp\<close>. The directory of
  bucket files is a map from hashes to what the files hold, since a file is named by its hash; a
  bucket nobody refers to is deleted with its file. Locks, directories and metrics are not modelled.
  SHA-256 of the encoding of a header is the argument \<open>headerHash\<close>.
\<close>

section \<open>Buckets by hash\<close>

record 'b BucketManager =
  mSharedBuckets :: "(Hash, 'b Bucket) omap"
  bucketFiles :: "(Hash, 'b BucketEntry list) omap"
  mBucketList :: "'b BucketList"

definition isZero :: "Hash \<Rightarrow> bool" where
  "isZero h = list_all (\<lambda>c. c = CHR 0x00) h"

definition getBucketByHash :: "Hash \<Rightarrow> 'b BucketManager \<Rightarrow> 'b Bucket option \<times> 'b BucketManager" where
  "getBucketByHash hash bm =
     (if isZero hash then (Some emptyBucket, bm)
      else case map_of (mSharedBuckets bm) hash of
        Some b \<Rightarrow> (Some b, bm)
      | None \<Rightarrow> (case map_of (bucketFiles bm) hash of
          Some es \<Rightarrow> let p = \<lparr>bucketEntries = es, mHash = hash\<rparr>
                     in (Some p, bm\<lparr>mSharedBuckets := map_put hash p (mSharedBuckets bm)\<rparr>)
        | None \<Rightarrow> (None, bm)))"

text \<open>The file \<open>es\<close> is moved to its canonical name unless there is a bucket with its hash.\<close>

definition adoptFileAsBucket :: "'b BucketEntry list \<Rightarrow> Hash \<Rightarrow> 'b BucketManager \<Rightarrow> ('b Bucket \<times> 'b BucketManager) result" where
  "adoptFileAsBucket es hash bm =
     (case getBucketByHash hash bm of
        (Some b, bm') \<Rightarrow> Inr (b, bm')
      | (None, bm') \<Rightarrow>
          let b = \<lparr>bucketEntries = es, mHash = hash\<rparr>
          in Inr (b, bm'\<lparr>bucketFiles := map_put hash es (bucketFiles bm'),
                        mSharedBuckets := map_put hash b (mSharedBuckets bm')\<rparr>))"

fun binHashes :: "string list \<Rightarrow> Hash list result" where
  "binHashes [] = Inr []"
| "binHashes (h # hs) = bindE (hexToBin256 h) (\<lambda>bin. bindE (binHashes hs) (\<lambda>bins. Inr (bin # bins)))"

fun referencedHashes :: "'b BucketList \<Rightarrow> nat list \<Rightarrow> Hash list result" where
  "referencedHashes bl [] = Inr []"
| "referencedHashes bl (i # is) =
     bindE (getLevel i bl) (\<lambda>level.
     bindE (binHashes (getHashes (mNextCurr level))) (\<lambda>next_hashes.
     bindE (referencedHashes bl is) (\<lambda>rest.
     Inr (mHash (mCurr level) # mHash (mSnap level) # next_hashes @ rest))))"

text \<open>\<open>inUse\<close> tells whether something besides the manager holds the bucket with this hash.\<close>

definition forgetUnreferencedBuckets :: "string list \<Rightarrow> (Hash \<Rightarrow> bool) \<Rightarrow> 'b BucketManager \<Rightarrow> 'b BucketManager result" where
  "forgetUnreferencedBuckets publishQueue inUse bm =
     bindE (referencedHashes (mBucketList bm) [0..<kNumLevels]) (\<lambda>levels.
     bindE (binHashes publishQueue) (\<lambda>pub.
     let referenced = levels @ pub;
         dropped = filter (\<lambda>h. h \<notin> set referenced \<and> \<not> inUse h) (map fst (mSharedBuckets bm))
     in Inr (bm\<lparr>mSharedBuckets := filter (\<lambda>(h, b). h \<notin> set dropped) (mSharedBuckets bm),
                bucketFiles := filter (\<lambda>(h, es). h \<notin> set dropped) (bucketFiles bm)\<rparr>)))"

fun missingFiles :: "'b BucketManager \<Rightarrow> string list \<Rightarrow> string list result" where
  "missingFiles bm [] = Inr []"
| "missingFiles bm (b # bs) =
     bindE (hexToBin256 b) (\<lambda>bin.
     bindE (missingFiles bm bs) (\<lambda>rest.
     Inr (if \<not> isZero bin \<and> map_of (bucketFiles bm) bin = None then b # rest else rest)))"

definition checkForMissingBucketsFiles :: "'b HistoryArchiveState \<Rightarrow> 'b BucketManager \<Rightarrow> string list result" where
  "checkForMissingBucketsFiles has bm = missingFiles bm (allBuckets has)"

section \<open>Assuming a saved state\<close>

abbreviation outOfRange :: "'a result" where
  "outOfRange \<equiv> Inl (RuntimeError ''out_of_range'')"

definition setLevel :: "nat \<Rightarrow> ('b BucketLevel \<Rightarrow> 'b BucketLevel) \<Rightarrow> 'b BucketManager \<Rightarrow> 'b BucketManager" where
  "setLevel i f bm = bm\<lparr>mBucketList := (mBucketList bm)\<lparr>mLevels := (mLevels (mBucketList bm))[i := f (mLevels (mBucketList bm) ! i)]\<rparr>\<rparr>"

fun assumeLevels :: "'b HistoryArchiveState \<Rightarrow> nat list \<Rightarrow> 'b BucketManager \<Rightarrow> 'b BucketManager result" where
  "assumeLevels has [] bm = Inr bm"
| "assumeLevels has (i # is) bm =
     (if length (currentBuckets has) \<le> i then outOfRange
      else let level = currentBuckets has ! i in
        bindE (hexToBin256 (hs_curr level)) (\<lambda>ch.
        let (c, bm1) = getBucketByHash ch bm in
        bindE (hexToBin256 (hs_snap level)) (\<lambda>sh.
        let (s, bm2) = getBucketByHash sh bm1 in
        case (c, s) of
          (Some cb, Some sb) \<Rightarrow>
            bindE (getLevel i (mBucketList bm2)) (\<lambda>_.
            assumeLevels has is (setLevel i (\<lambda>l. setNext (hs_next level) (setSnap sb (setCurr cb l))) bm2))
        | _ \<Rightarrow> Inl (RuntimeError ''Missing bucket files while assuming saved BucketList state''))))"

text \<open>Looking up a bucket only adds it to those held in memory, so the merges that are restarted see
  the same buckets one after the other.\<close>

definition assumeState :: "'b BucketContext \<Rightarrow> 'b HistoryArchiveState \<Rightarrow> 'b BucketManager \<Rightarrow> 'b BucketManager result" where
  "assumeState B has bm =
     bindE (assumeLevels has [0..<kNumLevels] bm) (\<lambda>bm1.
     bindE (restartMerges B (\<lambda>h. fst (getBucketByHash h bm1)) (mBucketList bm1)) (\<lambda>bl.
     Inr (bm1\<lparr>mBucketList := bl\<rparr>)))"

section \<open>Closing a ledger\<close>

definition manager_addBatch :: "'b BucketContext \<Rightarrow> uint32 \<Rightarrow> 'b LedgerEntry list \<Rightarrow> LedgerKey list \<Rightarrow>
    'b BucketManager \<Rightarrow> 'b BucketManager result" where
  "manager_addBatch B currLedger live dead bm =
     bindE (addBatch B currLedger live dead (mBucketList bm)) (\<lambda>bl. Inr (bm\<lparr>mBucketList := bl\<rparr>))"

abbreviation SKIP_1 :: uint32 where "SKIP_1 \<equiv> 50"
abbreviation SKIP_2 :: uint32 where "SKIP_2 \<equiv> 5000"
abbreviation SKIP_3 :: uint32 where "SKIP_3 \<equiv> 50000"
abbreviation SKIP_4 :: uint32 where "SKIP_4 \<equiv> 500000"

text \<open>\<open>v\<close> is an \<^verbatim>\<open>int\<close> assigned from unsigned arithmetic; its remainders by positive divisors are those
  of the number when it is positive.\<close>

definition calculateSkipValues :: "LedgerHeader \<Rightarrow> LedgerHeader" where
  "calculateSkipValues h =
     (if ledgerSeq h mod SKIP_1 = 0
      then let
        v = ledgerSeq h - SKIP_1;
        s0 = skipList h;
        s1 = (if 0 < sint v \<and> sint v mod uint SKIP_2 = 0
          then let
            v2 = ledgerSeq h - SKIP_2 - SKIP_1;
            t1 = (if 0 < sint v2 \<and> sint v2 mod uint SKIP_3 = 0
              then let
                v3 = ledgerSeq h - SKIP_3 - SKIP_2 - SKIP_1;
                u1 = (if 0 < sint v3 \<and> sint v3 mod uint SKIP_4 = 0 then s0[3 := s0 ! 2] else s0)
              in u1[2 := u1 ! 1]
              else s0)
          in t1[1 := t1 ! 0]
          else s0)
      in h\<lparr>skipList := s1[0 := bucketListHash_of h]\<rparr>
      else h)"

definition snapshotLedger :: "'b BucketContext \<Rightarrow> LedgerHeader \<Rightarrow> 'b BucketManager \<Rightarrow> LedgerHeader" where
  "snapshotLedger B h bm = calculateSkipValues (h\<lparr>bucketListHash_of := bucketListHash B (mBucketList bm)\<rparr>)"

record 'b LedgerManager =
  mCurrentLedger :: LedgerHeader
  mLastClosedHash :: Hash
  mLastClosedHeader :: LedgerHeader
  mBuckets :: "'b BucketManager"
  persistedLastClosed :: string
  persistedState :: "HasArchive option"

definition advanceLedgerPointers :: "(LedgerHeader \<Rightarrow> Hash) \<Rightarrow> 'b LedgerManager \<Rightarrow> 'b LedgerManager" where
  "advanceLedgerPointers headerHash lm =
     (let h = mCurrentLedger lm; lcl = headerHash h in
      lm\<lparr>mLastClosedHash := lcl, mLastClosedHeader := h,
         mCurrentLedger := h\<lparr>ledgerSeq := ledgerSeq h + 1, previousLedgerHash := lcl\<rparr>\<rparr>)"

definition closeLedgerHelper :: "'b BucketContext \<Rightarrow> (LedgerHeader \<Rightarrow> Hash) \<Rightarrow> bool \<Rightarrow> (nat \<Rightarrow> bool) \<Rightarrow>
    'b LedgerDelta \<Rightarrow> 'b LedgerManager \<Rightarrow> 'b LedgerManager result" where
  "closeLedgerHelper B headerHash pessimize ready delta lm =
     bindE (manager_addBatch B (ledgerSeq (mCurrentLedger lm)) (getLiveEntries delta) (getDeadEntries delta) (mBuckets lm)) (\<lambda>bm.
     let h = snapshotLedger B (mCurrentLedger lm) bm in
     bindE (mkHistoryState (ledgerSeq h) (mBucketList bm)) (\<lambda>has.
     bindE (if pessimize then Inr has else resolveAnyReadyFutures ready has) (\<lambda>has'.
     bindE (has_toString has') (\<lambda>ar.
     Inr (advanceLedgerPointers headerHash
       (lm\<lparr>mBuckets := bm, mCurrentLedger := h, persistedLastClosed := binToHex (headerHash h),
           persistedState := Some ar\<rparr>))))))"

end
