(* ===== verification/BucketLayers.thy ===== *)
theory BucketLayers
  imports Main
begin

text \<open>
  Why leaving out shadowed entries is harmless, on finite maps: the levels of a bucket list as pairs
  of maps, the spilling of the lower levels, and the lookup through all of them, youngest first. A
  map that arrives at a level may lose the keys that some younger map already has.
\<close>

type_synonym ('k, 'v) maps = "(('k \<rightharpoonup> 'v) \<times> ('k \<rightharpoonup> 'v)) list"

fun view :: "('k, 'v) maps \<Rightarrow> 'k \<rightharpoonup> 'v" where
  "view [] = Map.empty"
| "view ((c, s) # ls) = (view ls ++ s) ++ c"

text \<open>Levels below \<open>m\<close> spill: what arrives becomes current, the current map becomes the snapshot,
  and the former snapshot arrives at the next level. \<open>Ss\<close> are the keys left out on arrival.\<close>

fun spillMaps :: "nat \<Rightarrow> 'k set list \<Rightarrow> ('k \<rightharpoonup> 'v) \<Rightarrow> ('k, 'v) maps \<Rightarrow> ('k, 'v) maps" where
  "spillMaps 0 (S # Ss) a ((c, s) # ls) = ((c ++ a) |` (- S), s) # ls"
| "spillMaps (Suc m) (S # Ss) a ((c, s) # ls) = (a |` (- S), c) # spillMaps m Ss s ls"
| "spillMaps m Ss a ls = ls"

text \<open>Only keys of younger maps are left out; \<open>P\<close> are the keys of the maps before.\<close>

fun shadowsOk :: "'k set \<Rightarrow> nat \<Rightarrow> 'k set list \<Rightarrow> ('k \<rightharpoonup> 'v) \<Rightarrow> ('k, 'v) maps \<Rightarrow> bool" where
  "shadowsOk P 0 (S # Ss) a (_ # ls) \<longleftrightarrow> S \<subseteq> P"
| "shadowsOk P (Suc m) (S # Ss) a ((c, s) # ls) \<longleftrightarrow> S \<subseteq> P \<and> shadowsOk (P \<union> dom a \<union> dom c) m Ss s ls"
| "shadowsOk P m Ss a ls \<longleftrightarrow> False"

lemma restrict_add: "S \<subseteq> dom X \<Longrightarrow> a |` (- S) ++ X = a ++ X"
  by (auto simp: fun_eq_iff map_add_def restrict_map_def split: option.splits)

lemma view_spillMaps:
  "shadowsOk P m Ss a ls \<Longrightarrow> P \<subseteq> dom X \<Longrightarrow> view (spillMaps m Ss a ls) ++ X = (view ls ++ a) ++ X"
proof (induction P m Ss a ls arbitrary: X rule: shadowsOk.induct)
  case (1 P S Ss a l ls)
  obtain c s where l: "l = (c, s)" by (cases l)
  have "S \<subseteq> dom X" using 1 by auto
  then have "(c ++ a) |` (- S) ++ X = (c ++ a) ++ X" by (rule restrict_add)
  then show ?case by (simp add: l flip: map_add_assoc)
next
  case (2 P m S Ss a c s ls)
  let ?X = "c ++ (a ++ X)"
  have S: "S \<subseteq> dom X" using 2 by auto
  have "view (spillMaps m Ss s ls) ++ ?X = (view ls ++ s) ++ ?X"
    by (rule "2.IH") (use 2 in auto)
  then show ?case by (simp add: restrict_add[OF S] flip: map_add_assoc)
qed simp_all

section \<open>The keys of the younger levels\<close>

fun keysBelow :: "nat \<Rightarrow> ('k, 'v) maps \<Rightarrow> 'k set" where
  "keysBelow 0 ls = {}"
| "keysBelow (Suc n) [] = {}"
| "keysBelow (Suc n) ((c, s) # ls) = dom c \<union> dom s \<union> keysBelow n ls"

text \<open>The keys of the levels below \<open>n\<close> and of the current map of level \<open>n\<close>.\<close>

fun keysUpTo :: "nat \<Rightarrow> ('k, 'v) maps \<Rightarrow> 'k set" where
  "keysUpTo n [] = {}"
| "keysUpTo 0 ((c, s) # ls) = dom c"
| "keysUpTo (Suc n) ((c, s) # ls) = dom c \<union> dom s \<union> keysUpTo n ls"

lemma keysUpTo_nth: "n < length ls \<Longrightarrow> keysUpTo n ls = keysBelow n ls \<union> dom (fst (ls ! n))"
  by (induction n ls rule: keysUpTo.induct) auto

lemma keysBelow_spillMaps:
  "shadowsOk P m Ss a ls \<Longrightarrow> n \<le> m \<Longrightarrow> P \<union> dom a \<union> keysBelow n ls \<subseteq> P \<union> keysUpTo n (spillMaps m Ss a ls)"
proof (induction P m Ss a ls arbitrary: n rule: shadowsOk.induct)
  case (1 P S Ss a l ls)
  then show ?case by (cases l) auto
next
  case (2 P m S Ss a c s ls)
  show ?case
  proof (cases n)
    case 0
    then show ?thesis using 2 by auto
  next
    case (Suc k)
    have "P \<union> dom a \<union> dom c \<union> dom s \<union> keysBelow k ls \<subseteq> P \<union> dom a \<union> dom c \<union> keysUpTo k (spillMaps m Ss s ls)"
      by (rule "2.IH") (use 2 Suc in auto)
    moreover have "P \<union> dom a \<subseteq> P \<union> dom (a |` (- S))" using 2 by auto
    ultimately show ?thesis
      unfolding Suc spillMaps.simps keysBelow.simps keysUpTo.simps by blast
  qed
qed simp_all

lemma keysUpTo_spillMaps:
  "shadowsOk P m Ss a ls \<Longrightarrow> m \<le> n \<Longrightarrow> P \<union> dom a \<union> keysUpTo n ls \<subseteq> P \<union> keysUpTo n (spillMaps m Ss a ls)"
proof (induction P m Ss a ls arbitrary: n rule: shadowsOk.induct)
  case (1 P S Ss a l ls)
  then show ?case by (cases l; cases n) auto
next
  case (2 P m S Ss a c s ls)
  then obtain k where n: "n = Suc k" by (cases n) auto
  have "P \<union> dom a \<union> dom c \<union> dom s \<union> keysUpTo k ls \<subseteq> P \<union> dom a \<union> dom c \<union> keysUpTo k (spillMaps m Ss s ls)"
    by (rule "2.IH") (use 2 n in auto)
  moreover have "P \<union> dom a \<subseteq> P \<union> dom (a |` (- S))" using 2 by auto
  ultimately show ?case
    unfolding n spillMaps.simps keysUpTo.simps by blast
qed simp_all

text \<open>The condition level by level.\<close>

lemma shadowsOk_nth:
  assumes "m < length ls" "length Ss = length ls"
    and "\<And>j. j \<le> m \<Longrightarrow> Ss ! j \<subseteq> P \<union> (if j = 0 then {} else dom a \<union> keysUpTo (j - 1) ls)"
  shows "shadowsOk P m Ss a ls"
  using assms
proof (induction m arbitrary: P Ss a ls)
  case 0
  then show ?case by (cases ls; cases Ss) auto
next
  case (Suc m)
  then obtain c s ls' S Ss' where ls: "ls = (c, s) # ls'" "Ss = S # Ss'" by (cases ls; cases Ss) auto
  have "shadowsOk (P \<union> dom a \<union> dom c) m Ss' s ls'"
  proof (rule Suc.IH)
    show "Ss' ! j \<subseteq> P \<union> dom a \<union> dom c \<union> (if j = 0 then {} else dom s \<union> keysUpTo (j - 1) ls')" if "j \<le> m" for j
      using Suc.prems(3)[of "Suc j"] that ls by (cases j) auto
  qed (use Suc.prems ls in auto)
  moreover have "S \<subseteq> P" using Suc.prems(3)[of 0] ls by auto
  ultimately show ?case using ls by simp
qed

lemma length_spillMaps [simp]: "length (spillMaps m Ss a ls) = length ls"
  by (induction m Ss a ls rule: spillMaps.induct) auto

lemma nth_spillMaps:
  assumes "shadowsOk P m Ss a ls" "j < length ls"
  shows "spillMaps m Ss a ls ! j =
    (let arrives = (if j = 0 then a else snd (ls ! (j - 1))) in
     if j < m then (arrives |` (- (Ss ! j)), fst (ls ! j))
     else if j = m then ((fst (ls ! j) ++ arrives) |` (- (Ss ! j)), snd (ls ! j))
     else ls ! j)"
  using assms
proof (induction P m Ss a ls arbitrary: j rule: shadowsOk.induct)
  case (1 P S Ss a l ls)
  then show ?case by (cases l; cases j) auto
next
  case (2 P m S Ss a c s ls)
  then show ?case by (cases j) (auto simp: Let_def nth_Cons split: nat.splits)
qed simp_all

lemma keysUpTo_cong: "take (Suc n) ls = take (Suc n) ls' \<Longrightarrow> keysUpTo n ls = keysUpTo n ls'"
proof (induction n ls arbitrary: ls' rule: keysUpTo.induct)
  case (1 n)
  then show ?case by (cases ls') auto
next
  case (2 c s ls)
  then show ?case by (cases ls') auto
next
  case (3 n c s ls)
  then obtain ls'' where "ls' = (c, s) # ls''" "take (Suc n) ls = take (Suc n) ls''" by (cases ls') auto
  then show ?case using "3.IH" by simp
qed

lemma keysUpTo_younger: "dom c \<subseteq> dom c' \<Longrightarrow> keysUpTo n ((c, s) # ls) \<subseteq> keysUpTo n ((c', s) # ls)"
  by (cases n) auto

lemma view_append: "view (xs @ ys) = view ys ++ view xs"
  by (induction xs rule: view.induct) simp_all

end
