(* ===== verification/BucketListCorrect.thy ===== *)
theory BucketListCorrect
  imports BucketList BucketLayers
begin

text \<open>
  The list of buckets answers lookups like the ledger it was fed with. Every pending merge leaves out
  only identities that a younger bucket holds, and still holds when the merge is installed, so the
  youngest entry of every identity is always found first.
\<close>

section \<open>When levels spill\<close>

definition spillsAt :: "nat \<Rightarrow> nat \<Rightarrow> bool" where
  "spillsAt ledger j \<longleftrightarrow> j < 10 \<and> 2 * 4 ^ j dvd ledger"

lemma take_bit_word_eq_0: "take_bit n (w :: 'a::len word) = 0 \<longleftrightarrow> 2 ^ n dvd unat w"
proof -
  have "take_bit n w = 0 \<longleftrightarrow> take_bit n (unat w) = 0"
    by (metis unsigned_0 unsigned_take_bit_eq word_unat_eq_iff)
  then show ?thesis by (simp add: take_bit_eq_0_iff)
qed

lemma mask32_eq: "L = mask32 L (2 ^ n) \<longleftrightarrow> 2 ^ n dvd unat L"
proof -
  have "L = L AND NOT (mask n) \<longleftrightarrow> L AND mask n = 0"
    by (auto simp: bit_eq_iff bit_simps)
  then show ?thesis
    by (simp add: mask32_def flip: mask_eq_exp_minus_1 take_bit_eq_mask take_bit_word_eq_0)
qed

lemma levelSize_exp: "j < 11 \<Longrightarrow> levelSize j = Inr (2 ^ (2 * j + 2))"
  by (simp add: levelSize_def kNumLevels_def push_bit_eq_mult)

lemma levelHalf_exp: "j < 11 \<Longrightarrow> levelHalf j = Inr (2 ^ (2 * j + 1))"
proof -
  assume "j < 11"
  then have "j = 0 \<or> j = 1 \<or> j = 2 \<or> j = 3 \<or> j = 4 \<or> j = 5 \<or> j = 6 \<or> j = 7 \<or> j = 8 \<or> j = 9 \<or> j = 10"
    by arith
  then show ?thesis by (elim disjE) (simp_all add: levelHalf_def levelSize_def kNumLevels_def)
qed

lemma exp_4: "(2 :: nat) ^ (2 * j + 1) = 2 * 4 ^ j"
  by (simp add: power_mult)

lemma levelShouldSpill_iff:
  assumes "j < 11"
  shows "levelShouldSpill L j = Inr (spillsAt (unat L) j)"
proof (cases "j = 10")
  case False
  have "(2 :: nat) ^ (2 * j + 2) dvd unat L \<Longrightarrow> 2 ^ (2 * j + 1) dvd unat L"
    by (rule dvd_trans[of _ "2 ^ (2 * j + 2)"], rule le_imp_power_dvd) simp_all
  then show ?thesis
    using False assms
    unfolding levelShouldSpill_def kNumLevels_def levelHalf_exp[OF assms] levelSize_exp[OF assms] bindE.simps mask32_eq
    by (auto simp: spillsAt_def simp flip: exp_4)
qed (simp add: levelShouldSpill_def kNumLevels_def spillsAt_def)

lemma spillsAt_down: "spillsAt l j \<Longrightarrow> i \<le> j \<Longrightarrow> spillsAt l i"
  unfolding spillsAt_def by (auto intro: dvd_trans[OF mult_dvd_mono[OF dvd_refl le_imp_power_dvd]])

text \<open>The number of levels that spill.\<close>

definition spilled :: "nat \<Rightarrow> nat" where
  "spilled l = (LEAST j. \<not> spillsAt l j)"

lemma spilled_iff: "spillsAt l j \<longleftrightarrow> j < spilled l"
proof
  have ex: "\<not> spillsAt l 10" by (simp add: spillsAt_def)
  show "j < spilled l" if "spillsAt l j"
    using that LeastI[of "\<lambda>j. \<not> spillsAt l j", OF ex] spillsAt_down
    unfolding spilled_def by (meson not_less)
  show "spillsAt l j" if "j < spilled l"
    using not_less_Least[of j "\<lambda>j. \<not> spillsAt l j"] that by (auto simp: spilled_def)
qed

lemma spilled_le: "spilled l \<le> 10"
  unfolding spilled_def by (rule Least_le) (simp add: spillsAt_def)

text \<open>The next ledger at which level \<open>i - 1\<close> spills into level \<open>i\<close>.\<close>

definition nextChange :: "nat \<Rightarrow> nat \<Rightarrow> nat" where
  "nextChange l i = (l div (2 * 4 ^ (i - 1)) + 1) * (2 * 4 ^ (i - 1))"

lemma nextChange_now: "spillsAt (Suc l) (i - 1) \<Longrightarrow> nextChange l i = Suc l"
proof -
  assume "spillsAt (Suc l) (i - 1)"
  then have d: "2 * 4 ^ (i - 1) dvd Suc l" by (simp add: spillsAt_def)
  then have "Suc l div (2 * 4 ^ (i - 1)) = l div (2 * 4 ^ (i - 1)) + 1"
    using div_Suc[of l "2 * 4 ^ (i - 1)"] by (simp add: dvd_eq_mod_eq_0)
  then show "nextChange l i = Suc l" using dvd_div_mult_self[OF d] by (simp only: nextChange_def)
qed

lemma nextChange_later: "\<not> spillsAt (Suc l) (i - 1) \<Longrightarrow> 1 \<le> i \<Longrightarrow> i \<le> 10 \<Longrightarrow> nextChange (Suc l) i = nextChange l i"
  using div_Suc[of l "2 * 4 ^ (i - 1)"] unfolding nextChange_def spillsAt_def dvd_eq_mod_eq_0
  by (simp only: if_False) simp

lemma nextChange_prepare: "spillsAt l (i - 1) \<Longrightarrow> nextChange l i = l + 2 * 4 ^ (i - 1)"
  by (auto simp: nextChange_def spillsAt_def)

text \<open>The test \<open>prepare\<close> makes, also where the addition wraps around.\<close>

lemma spills_next:
  assumes "1 \<le> i" "i \<le> 10" "spillsAt (unat L) (i - 1)"
  shows "bindE (levelHalf (i - 1)) (\<lambda>half. levelShouldSpill (L + half) i) = Inr (spillsAt (nextChange (unat L) i) i)"
proof -
  let ?h = "2 ^ (2 * (i - 1) + 1)"
  have "unat (L + ?h) = (unat L + ?h) mod 2 ^ 32"
    using unat_of_nat[of ?h, where 'a = 32] by (simp add: unat_word_ariths mod_add_right_eq del: power_Suc)
  moreover have "(2 ^ (2 * i + 1) :: nat) dvd 2 ^ 32" if "i < 10"
    using that by (intro le_imp_power_dvd) simp
  ultimately have "spillsAt (unat (L + ?h)) i \<longleftrightarrow> spillsAt (nextChange (unat L) i) i"
    unfolding nextChange_prepare[OF assms(3)] spillsAt_def exp_4[symmetric] by (auto simp only: dvd_mod_iff)
  then show ?thesis
    using assms(1,2) levelHalf_exp[of "i - 1"] levelShouldSpill_iff[of i "L + ?h"] by simp
qed

section \<open>The invariant\<close>

definition goodBucket :: "'b BucketContext \<Rightarrow> 'b Bucket \<Rightarrow> bool" where
  "goodBucket B b \<longleftrightarrow> sortedBucket B b \<and> hash32 b"

abbreviation contents :: "'b Bucket \<Rightarrow> LedgerId \<Rightarrow> 'b BucketEntry option" where
  "contents b \<equiv> lookup (bucketEntries b)"

definition maps :: "'b BucketLevel list \<Rightarrow> (LedgerId, 'b BucketEntry) maps" where
  "maps lvs = map (\<lambda>l. (contents (mCurr l), contents (mSnap l))) lvs"

text \<open>The merge under way into level \<open>i\<close> has as inputs the current bucket of the level, or nothing
  when that bucket will be snapshotted first, and the snapshot of the level below; what it leaves
  out is held by younger buckets.\<close>

definition pendingOk :: "'b BucketContext \<Rightarrow> nat \<Rightarrow> 'b BucketLevel list \<Rightarrow> nat \<Rightarrow> bool" where
  "pendingOk B l lvs i \<longleftrightarrow>
     mState (mNextCurr (lvs ! i)) = FB_CLEAR \<and> bucketEntries (mSnap (lvs ! (i - 1))) = [] \<or>
     (\<exists>shadows. mNextCurr (lvs ! i) =
        merging B (if spillsAt (nextChange l i) i then emptyBucket else mCurr (lvs ! i))
          (mSnap (lvs ! (i - 1))) shadows (i < 10) \<and>
        (\<forall>b\<in>set shadows. goodBucket B b) \<and> shadowIds shadows \<subseteq> keysUpTo (i - 1) (maps lvs))"

definition listInv :: "'b BucketContext \<Rightarrow> nat \<Rightarrow> 'b BucketLevel list \<Rightarrow> bool" where
  "listInv B l lvs \<longleftrightarrow> length lvs = 11 \<and>
     (\<forall>i<11. mLevel (lvs ! i) = i \<and> goodBucket B (mCurr (lvs ! i)) \<and> goodBucket B (mSnap (lvs ! i))) \<and>
     mState (mNextCurr (lvs ! 0)) = FB_CLEAR \<and> (\<forall>i. 1 \<le> i \<and> i \<le> 10 \<longrightarrow> pendingOk B l lvs i) \<and>
     bucketEntries (mSnap (lvs ! 10)) = [] \<and> (\<forall>e\<in>set (bucketEntries (mCurr (lvs ! 10))). \<not> isDead e)"

definition prune :: "bool \<Rightarrow> (LedgerId \<Rightarrow> 'b BucketEntry option) \<Rightarrow> LedgerId \<Rightarrow> 'b BucketEntry option" where
  "prune keep m k = (case m k of Some e \<Rightarrow> if kept keep e then Some e else None | None \<Rightarrow> None)"

lemma prune_True [simp]: "prune True m = m"
  by (auto simp: prune_def kept_def fun_eq_iff split: option.splits)

lemma prune_live: "\<forall>e\<in>set es. \<not> isDead e \<Longrightarrow> prune keep (lookup es) = lookup es"
  using lookup_idOf[of es] by (fastforce simp: prune_def kept_def fun_eq_iff split: option.splits)

lemma goodBucket_empty [simp]: "goodBucket B emptyBucket"
  by (simp add: goodBucket_def sortedBucket_def) (simp add: emptyBucket_def)

lemma contents_empty [simp]: "contents emptyBucket = Map.empty"
  by (simp add: emptyBucket_def)

lemma merge_good:
  assumes B: "distinctTypes B" "hashes32 B" and good: "goodBucket B old" "goodBucket B new" "\<forall>b\<in>set shadows. goodBucket B b"
  shows "\<exists>b. merge B old new shadows keep = Inr b \<and> goodBucket B b \<and>
    contents b = prune keep ((contents old ++ contents new) |` (- shadowIds shadows)) \<and>
    (\<not> keep \<longrightarrow> (\<forall>e\<in>set (bucketEntries b). \<not> isDead e))"
proof -
  have sorted: "sortedBucket B old" "sortedBucket B new" "\<forall>b\<in>set shadows. sortedBucket B b"
    using good by (auto simp: goodBucket_def)
  let ?b = "mergeSpec B old new shadows keep"
  have "contents ?b = prune keep ((contents old ++ contents new) |` (- shadowIds shadows))"
    by (rule ext) (simp add: lookup_mergeSpec[OF B(1) sorted(1,2)] prune_def restrict_map_def)
  moreover have "goodBucket B ?b" using sortedBucket_mergeSpec[OF sorted(1,2)] B(2) by (simp add: goodBucket_def)
  moreover have "\<not> keep \<longrightarrow> (\<forall>e\<in>set (bucketEntries ?b). \<not> isDead e)" by (auto simp: mergeSpec_def kept_def)
  ultimately show ?thesis using merge_spec[OF B(1) sorted] by blast
qed

lemma fresh_good:
  assumes "distinctTypes B" "hashes32 B" "batch live dead"
  shows "\<exists>b. fresh B live dead = Inr b \<and> goodBucket B b \<and> contents b = batchMap live dead"
  using fresh_spec[OF assms(1,3)] assms(2) by (auto simp: goodBucket_def sortedBucket_def)

section \<open>One level\<close>

lemma commit_clear: "mState (mNextCurr l) = FB_CLEAR \<Longrightarrow> commit l = Inr l"
  by (simp add: commit_def)

lemma commit_merging:
  assumes B: "distinctTypes B" "hashes32 B"
    and good: "goodBucket B c" "goodBucket B s" "\<forall>b\<in>set shadows. goodBucket B b"
    and nx: "mNextCurr l = merging B c s shadows keep"
  shows "\<exists>l'. commit l = Inr l' \<and> mLevel l' = mLevel l \<and> mSnap l' = mSnap l \<and> mState (mNextCurr l') = FB_CLEAR \<and>
    goodBucket B (mCurr l') \<and> contents (mCurr l') = prune keep ((contents c ++ contents s) |` (- shadowIds shadows)) \<and>
    (\<not> keep \<longrightarrow> (\<forall>e\<in>set (bucketEntries (mCurr l')). \<not> isDead e))"
proof -
  obtain b where b: "merge B c s shadows keep = Inr b" "goodBucket B b"
    "contents b = prune keep ((contents c ++ contents s) |` (- shadowIds shadows))"
    "\<not> keep \<longrightarrow> (\<forall>e\<in>set (bucketEntries b). \<not> isDead e)"
    using merge_good[OF B good] by blast
  have "\<forall>b\<in>set shadows. hash32 b" "hash32 c" "hash32 s" "hash32 b" using good b(2) by (auto simp: goodBucket_def)
  with resolve_merging[OF _ _ _ b(1)] obtain fb where "resolve (mNextCurr l) = Inr (b, fb)" unfolding nx by blast
  then have "commit l = Inr (setCurr b (l\<lparr>mNextCurr := fb\<rparr>))"
    by (simp add: commit_def nx setCurr_def)
  then show ?thesis using b by (simp add: setCurr_def)
qed

text \<open>The level as \<open>commit\<close> finds it: snapshotted if it spills itself.\<close>

definition snapped :: "nat \<Rightarrow> nat \<Rightarrow> 'b BucketLevel \<Rightarrow> 'b BucketLevel" where
  "snapped l i lv = (if spillsAt l i then snap lv else lv)"

lemma snapped_simps [simp]:
  "mLevel (snapped l i lv) = mLevel lv" "mNextCurr (snapped l i lv) = mNextCurr lv"
  "mCurr (snapped l i lv) = (if spillsAt l i then emptyBucket else mCurr lv)"
  "mSnap (snapped l i lv) = (if spillsAt l i then mCurr lv else mSnap lv)"
  by (simp_all add: snapped_def snap_def)

text \<open>\<open>c\<close> is level \<open>k\<close> after its merge was installed, without the identities \<open>S\<close>.\<close>

definition installedAt ::
  "'b BucketContext \<Rightarrow> nat \<Rightarrow> 'b BucketLevel list \<Rightarrow> nat \<Rightarrow> 'b BucketLevel \<Rightarrow> LedgerId set \<Rightarrow> bool" where
  "installedAt B l lvs k c S \<longleftrightarrow>
     commit (snapped (Suc l) k (lvs ! k)) = Inr c \<and> mLevel c = k \<and>
     mSnap c = mSnap (snapped (Suc l) k (lvs ! k)) \<and> mState (mNextCurr c) = FB_CLEAR \<and> goodBucket B (mCurr c) \<and>
     S \<subseteq> keysUpTo (k - 1) (maps lvs) \<and> (k = 10 \<longrightarrow> (\<forall>e\<in>set (bucketEntries (mCurr c)). \<not> isDead e)) \<and>
     contents (mCurr c) = prune (k < 10)
       ((contents (mCurr (snapped (Suc l) k (lvs ! k))) ++ contents (mSnap (lvs ! (k - 1)))) |` (- S))"

lemma commit_pending:
  assumes B: "distinctTypes B" "hashes32 B" and inv: "listInv B l lvs"
    and i: "1 \<le> i" "i \<le> 10" "spillsAt (Suc l) (i - 1)"
  shows "\<exists>c S. installedAt B l lvs i c S"
proof -
  let ?l = "snapped (Suc l) i (lvs ! i)" and ?s = "mSnap (lvs ! (i - 1))"
  have lv: "mLevel ?l = i" "goodBucket B (mCurr ?l)" "goodBucket B ?s" "pendingOk B l lvs i"
    using inv i by (auto simp: listInv_def)
  have dead: "i = 10 \<longrightarrow> (\<forall>e\<in>set (bucketEntries (mCurr ?l)). \<not> isDead e)"
    using inv by (simp add: listInv_def emptyBucket_def)
  have nc: "nextChange l i = Suc l" by (rule nextChange_now[OF i(3)])
  from lv(4) consider (clear) "mState (mNextCurr ?l) = FB_CLEAR" "bucketEntries ?s = []"
    | (merging) shadows where "mNextCurr ?l = merging B (mCurr ?l) ?s shadows (i < 10)"
      "\<forall>b\<in>set shadows. goodBucket B b" "shadowIds shadows \<subseteq> keysUpTo (i - 1) (maps lvs)"
    unfolding pendingOk_def nc by auto
  then show ?thesis
  proof cases
    case clear
    have "prune (i < 10) (contents (mCurr ?l)) = contents (mCurr ?l)"
    proof (cases "i < 10")
      case False
      then have "i = 10" using i(2) by simp
      with dead show ?thesis by (intro prune_live) blast
    qed (simp only: prune_True)
    then show ?thesis
      using clear lv dead by (intro exI[of _ ?l] exI[of _ "{}"]) (simp add: installedAt_def commit_clear restrict_map_def)
  next
    case merging
    from commit_merging[OF B lv(2,3) merging(2,1)] obtain l' where
      l': "commit ?l = Inr l'" "mLevel l' = mLevel ?l" "mSnap l' = mSnap ?l" "mState (mNextCurr l') = FB_CLEAR"
        "goodBucket B (mCurr l')" "\<not> i < 10 \<longrightarrow> (\<forall>e\<in>set (bucketEntries (mCurr l')). \<not> isDead e)"
        "contents (mCurr l') = prune (i < 10) ((contents (mCurr ?l) ++ contents ?s) |` (- shadowIds shadows))"
      by blast
    then show ?thesis using lv(1) merging(3) by (intro exI[of _ l'] exI[of _ "shadowIds shadows"]) (auto simp: installedAt_def)
  qed
qed

lemma prepare_level:
  assumes "mLevel l = i" "1 \<le> i" "i \<le> 10" "spillsAt (unat L) (i - 1)" "mState (mNextCurr l) = FB_CLEAR"
    and "hash32 (mCurr l)" "hash32 s" "\<forall>b\<in>set shadows. hash32 b"
  shows "prepare B L s shadows l = Inr (l\<lparr>mNextCurr :=
    merging B (if spillsAt (nextChange (unat L) i) i then emptyBucket else mCurr l) s shadows (i < 10)\<rparr>)"
proof -
  obtain half where half: "levelHalf (i - 1) = Inr half"
    "levelShouldSpill (L + half) i = Inr (spillsAt (nextChange (unat L) i) i)"
    using spills_next[OF assms(2-4)] levelHalf_exp[of "i - 1"] assms(2,3) by auto
  have "i < kNumLevels - 1 \<longleftrightarrow> i < 10" by (simp add: kNumLevels_def)
  then show ?thesis using assms half by (simp add: prepare_def mkFutureBucket_merging)
qed

section \<open>The loop over the levels\<close>

definition newLevel :: "nat \<Rightarrow> (nat \<Rightarrow> 'b BucketLevel) \<Rightarrow> 'b BucketLevel list \<Rightarrow> nat \<Rightarrow> 'b BucketLevel" where
  "newLevel l f lvs k =
     (if k = 0 then snapped l 0 (lvs ! 0) else if spillsAt l (k - 1) then f k else lvs ! k)"

lemma butlast_butlast: "butlast (butlast (take (2 * Suc j) xs)) = take (2 * j) xs" if "2 * Suc j \<le> length xs"
  using that by (simp add: butlast_take)

lemma spillLoop_result:
  assumes lvs: "length lvs = 11" "length shadows = 20"
    and f: "\<And>k. 1 \<le> k \<Longrightarrow> k \<le> 10 \<Longrightarrow> spillsAt (unat L) (k - 1) \<Longrightarrow>
      \<exists>l. commit (snapped (unat L) k (lvs ! k)) = Inr l \<and>
        prepare B L (mCurr (lvs ! (k - 1))) (take (2 * (k - 1)) shadows) l = Inr (f k)"
    and cur: "i \<le> 10" "length cur = 11" "\<And>k. k < i \<Longrightarrow> cur ! k = lvs ! k" "cur ! i = snapped (unat L) i (lvs ! i)"
  shows "spillLoop B L i (take (2 * i) shadows) cur =
    Inr ([], map (\<lambda>k. if i < k then cur ! k else newLevel (unat L) f lvs k) [0..<11])"
  using cur
proof (induction i arbitrary: cur)
  case 0
  then have "map (\<lambda>k. if 0 < k then cur ! k else newLevel (unat L) f lvs k) [0..<11] = cur"
    by (intro nth_equalityI) (auto simp: newLevel_def)
  then show ?case by simp
next
  case (Suc j)
  have sh: "2 \<le> length (take (2 * Suc j) shadows)"
    "butlast (butlast (take (2 * Suc j) shadows)) = take (2 * j) shadows"
    using lvs(2) Suc.prems(1) butlast_butlast[of j shadows] by simp_all
  have spill: "levelShouldSpill L j = Inr (spillsAt (unat L) j)"
    using Suc.prems(1) by (simp add: levelShouldSpill_iff)
  show ?case
  proof (cases "spillsAt (unat L) j")
    case False
    then have ns: "\<not> spillsAt (unat L) (Suc j)" using spillsAt_down[of "unat L" "Suc j" j] by auto
    have "spillLoop B L j (take (2 * j) shadows) cur =
        Inr ([], map (\<lambda>k. if j < k then cur ! k else newLevel (unat L) f lvs k) [0..<11])"
      by (rule Suc.IH) (use Suc.prems False in \<open>auto simp: snapped_def\<close>)
    moreover have "(if j < k then cur ! k else newLevel (unat L) f lvs k) =
        (if Suc j < k then cur ! k else newLevel (unat L) f lvs k)" for k
      using Suc.prems(4) False ns by (auto simp: newLevel_def snapped_def not_less less_Suc_eq_le dest: le_antisym)
    ultimately show ?thesis using sh spill False by (simp add: Let_def del: mult_Suc_right)
  next
    case True
    let ?cur = "cur[j := snap (cur ! j)]"
    from f[of "Suc j"] True Suc.prems(1) obtain l where l: "commit (snapped (unat L) (Suc j) (lvs ! Suc j)) = Inr l"
      "prepare B L (mCurr (lvs ! j)) (take (2 * j) shadows) l = Inr (f (Suc j))" by auto
    have nth: "?cur ! Suc j = snapped (unat L) (Suc j) (lvs ! Suc j)" "mSnap (?cur ! j) = mCurr (lvs ! j)"
      using Suc.prems by (simp_all add: snap_def)
    let ?cur' = "?cur[Suc j := f (Suc j)]"
    have "spillLoop B L j (take (2 * j) shadows) ?cur' =
        Inr ([], map (\<lambda>k. if j < k then ?cur' ! k else newLevel (unat L) f lvs k) [0..<11])"
      by (rule Suc.IH) (use Suc.prems True in \<open>auto simp: snapped_def nth_list_update\<close>)
    moreover have "(if j < k then ?cur' ! k else newLevel (unat L) f lvs k) =
        (if Suc j < k then cur ! k else newLevel (unat L) f lvs k)" if "k < 11" for k
      using Suc.prems True that by (cases "k = Suc j") (auto simp: newLevel_def nth_list_update)
    ultimately show ?thesis using sh spill True l nth by (simp add: Let_def del: mult_Suc_right)
  qed
qed

section \<open>The shadows of a batch\<close>

abbreviation bucketsOf :: "'b BucketLevel list \<Rightarrow> 'b Bucket list" where
  "bucketsOf lvs \<equiv> concat (map (\<lambda>l. [mCurr l, mSnap l]) lvs)"

lemma length_bucketsOf [simp]: "length (bucketsOf lvs) = 2 * length lvs"
  by (induction lvs) simp_all

lemma take_bucketsOf: "take (2 * j) (bucketsOf lvs) = bucketsOf (take j lvs)"
proof (induction j arbitrary: lvs)
  case (Suc j)
  then show ?case by (cases lvs) simp_all
qed simp

lemma shadowIds_bucketsOf: "shadowIds (bucketsOf (take j lvs)) = keysBelow j (maps lvs)"
proof (induction j arbitrary: lvs)
  case (Suc j)
  then show ?case by (cases lvs) (auto simp: shadowIds_def maps_def)
qed (simp add: shadowIds_def)

section \<open>What a batch does to the levels\<close>

definition installed ::
  "'b BucketContext \<Rightarrow> nat \<Rightarrow> 'b BucketLevel list \<Rightarrow> (nat \<Rightarrow> 'b BucketLevel) \<Rightarrow> (nat \<Rightarrow> LedgerId set) \<Rightarrow> bool" where
  "installed B l lvs C S \<longleftrightarrow>
     (\<forall>k. 1 \<le> k \<longrightarrow> k \<le> 10 \<longrightarrow> spillsAt (Suc l) (k - 1) \<longrightarrow> installedAt B l lvs k (C k) (S k))"

lemma installed_exists:
  assumes "distinctTypes B" "hashes32 B" "listInv B l lvs"
  shows "\<exists>C S. installed B l lvs C S"
proof -
  have "\<forall>k. \<exists>c S. 1 \<le> k \<longrightarrow> k \<le> 10 \<longrightarrow> spillsAt (Suc l) (k - 1) \<longrightarrow> installedAt B l lvs k c S"
    using commit_pending[OF assms] by blast
  from choice[OF this] obtain C where
    "\<forall>k. \<exists>S. 1 \<le> k \<longrightarrow> k \<le> 10 \<longrightarrow> spillsAt (Suc l) (k - 1) \<longrightarrow> installedAt B l lvs k (C k) S" by blast
  from choice[OF this] show ?thesis unfolding installed_def by blast
qed

definition prepared ::
  "'b BucketContext \<Rightarrow> nat \<Rightarrow> 'b BucketLevel list \<Rightarrow> (nat \<Rightarrow> 'b BucketLevel) \<Rightarrow> nat \<Rightarrow> 'b BucketLevel" where
  "prepared B l lvs C k = (C k)\<lparr>mNextCurr :=
     merging B (if spillsAt (nextChange (Suc l) k) k then emptyBucket else mCurr (C k))
       (mCurr (lvs ! (k - 1))) (bucketsOf (take (k - 1) lvs)) (k < 10)\<rparr>"

definition afterSpill ::
  "'b BucketContext \<Rightarrow> nat \<Rightarrow> 'b BucketLevel list \<Rightarrow> (nat \<Rightarrow> 'b BucketLevel) \<Rightarrow> 'b BucketLevel list" where
  "afterSpill B l lvs C = map (newLevel (Suc l) (prepared B l lvs C) lvs) [0..<11]"

lemma good_bucketsOf:
  assumes "listInv B l lvs" "b \<in> set (bucketsOf (take j lvs))"
  shows "goodBucket B b"
proof -
  obtain lv where "lv \<in> set lvs" "b = mCurr lv \<or> b = mSnap lv" using assms(2) by (auto dest: in_set_takeD)
  then show ?thesis using assms(1) by (auto simp: listInv_def in_set_conv_nth)
qed

lemma spillLoop_afterSpill:
  assumes inv: "listInv B l lvs" and C: "installed B l lvs C S" and L: "unat L = Suc l"
  shows "spillLoop B L 10 (butlast (butlast (bucketsOf lvs))) lvs = Inr ([], afterSpill B l lvs C)"
proof -
  have len: "length lvs = 11" using inv by (simp add: listInv_def)
  let ?sh = "take 20 (bucketsOf lvs)"
  have sh: "butlast (butlast (bucketsOf lvs)) = take (2 * 10) ?sh" by (simp add: butlast_conv_take len)
  have "\<exists>l2. commit (snapped (unat L) k (lvs ! k)) = Inr l2 \<and>
      prepare B L (mCurr (lvs ! (k - 1))) (take (2 * (k - 1)) ?sh) l2 = Inr (prepared B l lvs C k)"
    if k: "1 \<le> k" "k \<le> 10" "spillsAt (unat L) (k - 1)" for k
  proof (intro exI conjI)
    have Ck: "commit (snapped (Suc l) k (lvs ! k)) = Inr (C k)" "mLevel (C k) = k" "mState (mNextCurr (C k)) = FB_CLEAR"
      "goodBucket B (mCurr (C k))"
      using C k unfolding installed_def installedAt_def L by blast+
    show "commit (snapped (unat L) k (lvs ! k)) = Inr (C k)" using Ck(1) L by simp
    have "take (2 * (k - 1)) ?sh = bucketsOf (take (k - 1) lvs)"
      using k(2) take_bucketsOf[of "k - 1" lvs] by (simp add: min_absorb1 del: take_bucketsOf)
    moreover have "hash32 (mCurr (lvs ! (k - 1)))" using inv k(2) by (simp add: listInv_def goodBucket_def)
    moreover have "\<forall>b\<in>set (bucketsOf (take (k - 1) lvs)). hash32 b"
      using good_bucketsOf[OF inv] by (auto simp: goodBucket_def)
    ultimately show "prepare B L (mCurr (lvs ! (k - 1))) (take (2 * (k - 1)) ?sh) (C k) = Inr (prepared B l lvs C k)"
      using prepare_level[OF Ck(2) k Ck(3)] Ck(4) by (simp add: prepared_def L goodBucket_def)
  qed
  from spillLoop_result[OF len _ this, of 10 lvs]
  show ?thesis
    using len by (simp add: sh L afterSpill_def snapped_def spillsAt_def[of _ 10] del: upt.simps cong: map_cong)
qed

section \<open>The levels as maps\<close>

definition leftOut :: "nat \<Rightarrow> (nat \<Rightarrow> LedgerId set) \<Rightarrow> LedgerId set list" where
  "leftOut l S = map (\<lambda>k. if k = 0 \<or> \<not> spillsAt (Suc l) (k - 1) then {} else S k) [0..<11]"

lemma maps_nth: "k < length lvs \<Longrightarrow> maps lvs ! k = (contents (mCurr (lvs ! k)), contents (mSnap (lvs ! k)))"
  by (simp add: maps_def)

lemma length_maps [simp]: "length (maps lvs) = length lvs"
  by (simp add: maps_def)

lemma shadowsOk_leftOut:
  assumes inv: "listInv B l lvs" and C: "installed B l lvs C S"
  shows "shadowsOk {} (spilled (Suc l)) (leftOut l S) Map.empty (maps lvs)"
proof (rule shadowsOk_nth)
  show "spilled (Suc l) < length (maps lvs)" "length (leftOut l S) = length (maps lvs)"
    using spilled_le[of "Suc l"] inv by (simp_all add: listInv_def leftOut_def)
  show "leftOut l S ! j \<subseteq> {} \<union> (if j = 0 then {} else dom Map.empty \<union> keysUpTo (j - 1) (maps lvs))"
    if j: "j \<le> spilled (Suc l)" for j
  proof (cases "j = 0")
    case False
    then have "spillsAt (Suc l) (j - 1)" "j \<le> 10" using j spilled_le[of "Suc l"] by (simp_all add: spilled_iff)
    then show ?thesis using C False by (simp add: leftOut_def installed_def installedAt_def del: upt.simps)
  qed (simp add: leftOut_def del: upt.simps)
qed

lemma maps_afterSpill:
  assumes inv: "listInv B l lvs" and C: "installed B l lvs C S" and k: "k < 11"
  defines "X \<equiv> spillMaps (spilled (Suc l)) (leftOut l S) Map.empty (maps lvs) ! k"
  shows "maps (afterSpill B l lvs C) ! k = (prune (k < 10) (fst X), snd X)"
proof -
  have len: "length lvs = 11" using inv by (simp add: listInv_def)
  have X: "X = (let arrives = (if k = 0 then Map.empty else contents (mSnap (lvs ! (k - 1)))) in
     if spillsAt (Suc l) k then (arrives |` (- (leftOut l S ! k)), contents (mCurr (lvs ! k)))
     else if k = spilled (Suc l)
     then ((contents (mCurr (lvs ! k)) ++ arrives) |` (- (leftOut l S ! k)), contents (mSnap (lvs ! k)))
     else (contents (mCurr (lvs ! k)), contents (mSnap (lvs ! k))))"
    using nth_spillMaps[OF shadowsOk_leftOut[OF inv C], of k] k len
    unfolding X_def by (simp add: maps_nth spilled_iff Let_def)
  have S: "leftOut l S ! k = (if k = 0 \<or> \<not> spillsAt (Suc l) (k - 1) then {} else S k)"
    using k by (simp add: leftOut_def del: upt.simps)
  have new: "maps (afterSpill B l lvs C) ! k =
      (let n = newLevel (Suc l) (prepared B l lvs C) lvs k in (contents (mCurr n), contents (mSnap n)))"
    using k by (simp add: maps_def afterSpill_def Let_def del: upt.simps)
  show ?thesis
  proof (cases "k = 0 \<or> \<not> spillsAt (Suc l) (k - 1)")
    case True
    have "\<not> spillsAt (Suc l) k" if "k \<noteq> 0" using True that spillsAt_down[of "Suc l" k "k - 1"] by auto
    moreover have "k \<noteq> spilled (Suc l)" if "k \<noteq> 0" using True that by (auto simp: spilled_iff)
    moreover have "prune (k < 10) (contents (mCurr (lvs ! k))) = contents (mCurr (lvs ! k))"
    proof (cases "k < 10")
      case False
      then have "k = 10" using k by simp
      then show ?thesis using inv by (intro prune_live) (simp add: listInv_def)
    qed (simp only: prune_True)
    ultimately show ?thesis
      unfolding new X S using True by (auto simp: newLevel_def Let_def restrict_map_def)
  next
    case False
    then have "installedAt B l lvs k (C k) (S k)" using C k by (simp add: installed_def)
    moreover have "spillsAt (Suc l) k \<or> k = spilled (Suc l)" using False by (auto simp: spilled_iff)
    ultimately show ?thesis
      unfolding new X S using False by (auto simp: newLevel_def Let_def prepared_def installedAt_def spillsAt_def)
  qed
qed

section \<open>Lookup\<close>

definition liveOf :: "'b BucketEntry option \<Rightarrow> 'b LedgerEntry option" where
  "liveOf p = (case p of Some (LIVEENTRY e) \<Rightarrow> Some e | _ \<Rightarrow> None)"

definition liveView :: "'b BucketLevel list \<Rightarrow> LedgerId \<Rightarrow> 'b LedgerEntry option" where
  "liveView lvs k = liveOf (view (maps lvs) k)"

lemma liveOf_prune: "liveOf ((prune False c ++ V) k) = liveOf ((c ++ V) k)"
  by (auto simp: liveOf_def prune_def kept_def isDead_def map_add_def split: option.splits BucketEntry.splits)

lemma maps_afterSpill_take:
  assumes "listInv B l lvs" "installed B l lvs C S"
  defines "M \<equiv> spillMaps (spilled (Suc l)) (leftOut l S) Map.empty (maps lvs)"
  shows "maps (afterSpill B l lvs C) = take 10 M @ [(prune False (fst (M ! 10)), Map.empty)]"
proof (rule nth_equalityI)
  have len: "length lvs = 11" "length M = 11" using assms(1) by (simp_all add: listInv_def M_def)
  show "length (maps (afterSpill B l lvs C)) = length (take 10 M @ [(prune False (fst (M ! 10)), Map.empty)])"
    using len by (simp add: afterSpill_def del: upt.simps)
  fix k assume "k < length (maps (afterSpill B l lvs C))"
  then have k: "k < 11" by (simp add: afterSpill_def del: upt.simps)
  note nth = maps_afterSpill[OF assms(1,2) k, folded M_def]
  show "maps (afterSpill B l lvs C) ! k = (take 10 M @ [(prune False (fst (M ! 10)), Map.empty)]) ! k"
  proof (cases "k < 10")
    case True
    then show ?thesis using nth len by (simp add: nth_append)
  next
    case False
    then have k10: "k = 10" using k by simp
    have "\<not> 10 < spilled (Suc l)" using spilled_le[of "Suc l"] by simp
    then have "snd (M ! 10) = snd (maps lvs ! 10)"
      using nth_spillMaps[OF shadowsOk_leftOut[OF assms(1,2)], of 10] len unfolding M_def by (simp add: Let_def)
    also have "\<dots> = Map.empty" using assms(1) len by (simp add: maps_nth listInv_def)
    finally show ?thesis using nth len by (simp add: nth_append k10)
  qed
qed

lemma liveView_afterSpill:
  assumes "listInv B l lvs" "installed B l lvs C S"
  shows "liveOf ((view (maps (afterSpill B l lvs C)) ++ X) k) = liveOf ((view (maps lvs) ++ X) k)"
proof -
  let ?M = "spillMaps (spilled (Suc l)) (leftOut l S) Map.empty (maps lvs)"
  let ?c = "fst (?M ! 10)"
  have len: "length ?M = 11" using assms(1) by (simp add: listInv_def)
  have s: "snd (?M ! 10) = Map.empty"
    using maps_afterSpill_take[OF assms] maps_afterSpill[OF assms, of 10] len by (simp add: nth_append)
  have "?M = take 10 ?M @ [(?c, snd (?M ! 10))]"
    using len take_Suc_conv_app_nth[of 10 ?M] by simp
  then have "?M = take 10 ?M @ [(?c, Map.empty)]" unfolding s .
  then have "view ?M = view (take 10 ?M @ [(?c, Map.empty)])" by (rule arg_cong)
  then have "view ?M = ?c ++ view (take 10 ?M)" unfolding view_append by simp
  moreover have "view ?M = view (maps lvs)"
    using view_spillMaps[OF shadowsOk_leftOut[OF assms], of Map.empty] by simp
  moreover have "view (maps (afterSpill B l lvs C)) = prune False ?c ++ view (take 10 ?M)"
    unfolding maps_afterSpill_take[OF assms] by (simp add: view_append)
  ultimately show ?thesis using liveOf_prune[of ?c "view (take 10 ?M) ++ X" k] by simp
qed

end
