(* ===== verification/BucketListRefines.thy ===== *)
theory BucketListRefines
  imports BucketListCorrect
begin

text \<open>
  The list of buckets refines the ledger as a map from identities to live entries: adding the batch
  of the next ledger to a list that satisfies the invariant succeeds, keeps the invariant and changes
  the answers to lookups by exactly the batch.
\<close>

section \<open>The invariant after the levels have spilled\<close>

lemma keysUpTo_afterSpill:
  assumes "listInv B l lvs" "installed B l lvs C S" "n \<le> 9"
  shows "keysUpTo n (maps (afterSpill B l lvs C)) =
    keysUpTo n (spillMaps (spilled (Suc l)) (leftOut l S) Map.empty (maps lvs))"
  using assms(1,3) unfolding maps_afterSpill_take[OF assms(1,2)]
  by (intro keysUpTo_cong) (simp add: listInv_def min_def)

lemma afterSpill_nth: "k < 11 \<Longrightarrow> afterSpill B l lvs C ! k = newLevel (Suc l) (prepared B l lvs C) lvs k"
  by (simp add: afterSpill_def del: upt.simps)

lemma mSnap_afterSpill:
  assumes "installed B l lvs C S" "k \<le> 10"
  shows "mSnap (afterSpill B l lvs C ! k) = (if spillsAt (Suc l) k then mCurr (lvs ! k) else mSnap (lvs ! k))"
proof (cases "k = 0 \<or> \<not> spillsAt (Suc l) (k - 1)")
  case True
  then show ?thesis using assms(2) spillsAt_down[of "Suc l" k "k - 1"] by (auto simp: afterSpill_nth newLevel_def)
next
  case False
  then show ?thesis
    using assms by (simp add: afterSpill_nth newLevel_def prepared_def installed_def installedAt_def)
qed

lemma pendingOk_afterSpill:
  assumes inv: "listInv B l lvs" and C: "installed B l lvs C S" and i: "1 \<le> i" "i \<le> 10"
  shows "pendingOk B (Suc l) (afterSpill B l lvs C) i"
proof (cases "spillsAt (Suc l) (i - 1)")
  case True
  let ?sh = "bucketsOf (take (i - 1) lvs)"
  have lv: "afterSpill B l lvs C ! i = prepared B l lvs C i"
    using i True by (simp add: afterSpill_nth newLevel_def)
  have "i - 1 \<le> spilled (Suc l)" using True by (simp add: spilled_iff)
  then have "shadowIds ?sh \<subseteq> keysUpTo (i - 1) (maps (afterSpill B l lvs C))"
    using keysBelow_spillMaps[OF shadowsOk_leftOut[OF inv C], of "i - 1"] i keysUpTo_afterSpill[OF inv C, of "i - 1"]
    by (auto simp: shadowIds_bucketsOf)
  moreover have "\<forall>b\<in>set ?sh. goodBucket B b" using good_bucketsOf[OF inv] by blast
  moreover have "mSnap (afterSpill B l lvs C ! (i - 1)) = mCurr (lvs ! (i - 1))"
    using mSnap_afterSpill[OF C, of "i - 1"] i True by simp
  ultimately show ?thesis
    unfolding pendingOk_def lv by (intro disjI2 exI[of _ ?sh]) (simp add: prepared_def)
next
  case False
  have lv: "afterSpill B l lvs C ! i = lvs ! i" "mSnap (afterSpill B l lvs C ! (i - 1)) = mSnap (lvs ! (i - 1))"
    using i False mSnap_afterSpill[OF C, of "i - 1"] by (simp_all add: afterSpill_nth newLevel_def)
  have "spilled (Suc l) \<le> i - 1" using False by (simp add: spilled_iff)
  then have "keysUpTo (i - 1) (maps lvs) \<subseteq> keysUpTo (i - 1) (maps (afterSpill B l lvs C))"
    using keysUpTo_spillMaps[OF shadowsOk_leftOut[OF inv C], of "i - 1"] i keysUpTo_afterSpill[OF inv C, of "i - 1"]
    by auto
  moreover have "pendingOk B l lvs i" using inv i by (simp add: listInv_def)
  ultimately show ?thesis
    unfolding pendingOk_def lv nextChange_later[OF False i] by blast
qed

lemma good_afterSpill:
  assumes inv: "listInv B l lvs" and C: "installed B l lvs C S" and k: "k < 11"
  shows "mLevel (afterSpill B l lvs C ! k) = k \<and> goodBucket B (mCurr (afterSpill B l lvs C ! k)) \<and>
    goodBucket B (mSnap (afterSpill B l lvs C ! k))"
proof (cases "k = 0 \<or> \<not> spillsAt (Suc l) (k - 1)")
  case True
  then show ?thesis using inv k by (auto simp: afterSpill_nth newLevel_def listInv_def)
next
  case False
  then show ?thesis
    using inv C k by (auto simp: afterSpill_nth newLevel_def listInv_def prepared_def installed_def installedAt_def)
qed

lemma listInv_afterSpill:
  assumes inv: "listInv B l lvs" and C: "installed B l lvs C S"
  shows "listInv B (Suc l) (afterSpill B l lvs C)"
proof -
  have "length (afterSpill B l lvs C) = 11" by (simp add: afterSpill_def del: upt.simps)
  moreover have "mState (mNextCurr (afterSpill B l lvs C ! 0)) = FB_CLEAR"
    using inv by (simp add: afterSpill_nth newLevel_def listInv_def)
  moreover have "bucketEntries (mSnap (afterSpill B l lvs C ! 10)) = []"
    using inv mSnap_afterSpill[OF C, of 10] by (simp add: listInv_def spillsAt_def)
  moreover have "\<forall>e\<in>set (bucketEntries (mCurr (afterSpill B l lvs C ! 10))). \<not> isDead e"
    using inv C by (auto simp: afterSpill_nth newLevel_def listInv_def prepared_def installed_def installedAt_def)
  ultimately show ?thesis
    using good_afterSpill[OF inv C] pendingOk_afterSpill[OF inv C] unfolding listInv_def by blast
qed

section \<open>The youngest level\<close>

lemma maps_update: "lvs \<noteq> [] \<Longrightarrow> maps (lvs[0 := lv]) = (contents (mCurr lv), contents (mSnap lv)) # tl (maps lvs)"
  by (cases lvs) (simp_all add: maps_def)

lemma maps_split: "lvs \<noteq> [] \<Longrightarrow> maps lvs = (contents (mCurr (lvs ! 0)), contents (mSnap (lvs ! 0))) # tl (maps lvs)"
  by (cases lvs) (simp_all add: maps_def)

lemma listInv_first:
  assumes inv: "listInv B l lvs" and lv: "mLevel lv = 0" "goodBucket B (mCurr lv)" "mSnap lv = mSnap (lvs ! 0)"
    "mState (mNextCurr lv) = FB_CLEAR" "dom (contents (mCurr (lvs ! 0))) \<subseteq> dom (contents (mCurr lv))"
  shows "listInv B l (lvs[0 := lv])"
proof -
  have len: "length lvs = 11" using inv by (simp add: listInv_def)
  then have ne: "lvs \<noteq> []" by auto
  have keys: "keysUpTo n (maps lvs) \<subseteq> keysUpTo n (maps (lvs[0 := lv]))" for n
    using keysUpTo_younger[OF lv(5)] by (subst maps_split[OF ne], subst maps_update[OF ne]) (simp add: lv(3))
  have "pendingOk B l (lvs[0 := lv]) i" if i: "1 \<le> i" "i \<le> 10" for i
  proof -
    have same: "mSnap (lvs[0 := lv] ! (i - 1)) = mSnap (lvs ! (i - 1))" "lvs[0 := lv] ! i = lvs ! i"
      using i len lv(3) by (auto simp: nth_list_update)
    have "pendingOk B l lvs i" using inv i by (simp add: listInv_def)
    then show ?thesis using keys[of "i - 1"] unfolding pendingOk_def same by blast
  qed
  then show ?thesis using inv lv len by (auto simp: listInv_def nth_list_update)
qed

section \<open>Adding a batch\<close>

lemma addBatch_step:
  assumes B: "distinctTypes B" "hashes32 B" and inv: "listInv B l (mLevels bl)"
    and L: "unat L = Suc l" and batch: "batch live dead"
  shows "\<exists>bl'. addBatch B L live dead bl = Inr bl' \<and> listInv B (Suc l) (mLevels bl') \<and>
    (\<forall>k. liveView (mLevels bl') k = liveOf ((view (maps (mLevels bl)) ++ batchMap live dead) k))"
proof -
  let ?lvs = "mLevels bl"
  obtain C S where C: "installed B l ?lvs C S" using installed_exists[OF B inv] by blast
  let ?aS = "afterSpill B l ?lvs C"
  have inv1: "listInv B (Suc l) ?aS" by (rule listInv_afterSpill[OF inv C])
  have len: "length ?lvs = 11" "length ?aS = 11" using inv inv1 by (simp_all add: listInv_def)
  then have ne: "?aS \<noteq> []" by auto
  obtain b where b: "fresh B live dead = Inr b" "goodBucket B b" "contents b = batchMap live dead"
    using fresh_good[OF B batch] by blast
  let ?l = "?aS ! 0"
  have l: "mLevel ?l = 0" "goodBucket B (mCurr ?l)" "mState (mNextCurr ?l) = FB_CLEAR" using inv1 by (auto simp: listInv_def)
  have prep: "prepare B L b [] ?l = Inr (?l\<lparr>mNextCurr := merging B (mCurr ?l) b [] True\<rparr>)"
    using l b(2) by (simp add: prepare_def mkFutureBucket_merging goodBucket_def kNumLevels_def)
  obtain l' where l': "commit (?l\<lparr>mNextCurr := merging B (mCurr ?l) b [] True\<rparr>) = Inr l'" "mLevel l' = 0"
    "mSnap l' = mSnap ?l" "mState (mNextCurr l') = FB_CLEAR" "goodBucket B (mCurr l')"
    "contents (mCurr l') = contents (mCurr ?l) ++ batchMap live dead"
    using commit_merging[OF B l(2) b(2), of "[]" "?l\<lparr>mNextCurr := merging B (mCurr ?l) b [] True\<rparr>" True] l b(3)
    by (auto simp: shadowIds_def restrict_map_def)
  have "0 < L" using L by (simp add: word_less_nat_alt)
  then have run: "addBatch B L live dead bl = Inr (bl\<lparr>mLevels := ?aS[0 := l']\<rparr>)"
    using spillLoop_afterSpill[OF inv C L] len b(1) prep l'(1) by (simp add: addBatch_def Let_def)
  have "listInv B (Suc l) (?aS[0 := l'])" by (rule listInv_first[OF inv1 l'(2,5,3,4)]) (simp add: l'(6))
  moreover have "view (maps (?aS[0 := l'])) = view (maps ?aS) ++ batchMap live dead"
    by (subst maps_update[OF ne], subst maps_split[OF ne]) (simp add: l'(3,6))
  ultimately show ?thesis
    using run liveView_afterSpill[OF inv C] by (simp add: liveView_def)
qed

section \<open>Sequences of ledgers\<close>

text \<open>The ledger as a map, and what a batch does to it.\<close>

type_synonym 'b ledger = "LedgerId \<Rightarrow> 'b LedgerEntry option"

definition applyBatch :: "'b LedgerEntry list \<Rightarrow> LedgerKey list \<Rightarrow> 'b ledger \<Rightarrow> 'b ledger" where
  "applyBatch live dead M k =
     (if k \<in> keyId ` set dead then None
      else case map_of (map (\<lambda>e. (entryId e, e)) live) k of Some e \<Rightarrow> Some e | None \<Rightarrow> M k)"

text \<open>A list of buckets after the batches of ledgers \<open>1\<close> to \<open>l\<close>.\<close>

inductive closed :: "'b BucketContext \<Rightarrow> nat \<Rightarrow> 'b ledger \<Rightarrow> 'b BucketList \<Rightarrow> bool" for B where
  start: "closed B 0 Map.empty (mkBucketList uninitialised)"
| close: "closed B l M bl \<Longrightarrow> unat L = Suc l \<Longrightarrow> batch live dead \<Longrightarrow> addBatch B L live dead bl = Inr bl' \<Longrightarrow>
    closed B (Suc l) (applyBatch live dead M) bl'"

lemma lookup_live: "lookup (map LIVEENTRY live) k = map_option LIVEENTRY (map_of (map (\<lambda>e. (entryId e, e)) live) k)"
  by (induction live) (simp_all add: idOf_def)

lemma lookup_dead:
  "k \<notin> keyId ` set dead \<Longrightarrow> lookup (map DEADENTRY dead) k = None"
  "k \<in> keyId ` set dead \<Longrightarrow> \<exists>d. lookup (map DEADENTRY dead) k = Some (DEADENTRY d)"
  by (induction dead) (auto simp: idOf_def)

lemma liveOf_batch:
  "liveOf ((V ++ batchMap live dead) k) = applyBatch live dead (\<lambda>k. liveOf (V k)) k"
proof (cases "k \<in> keyId ` set dead")
  case True
  then obtain d where "lookup (map DEADENTRY dead) k = Some (DEADENTRY d :: 'a BucketEntry)"
    using lookup_dead(2) by blast
  with True show ?thesis by (simp add: batchMap_def map_add_def applyBatch_def liveOf_def)
next
  case False
  then show ?thesis
    by (simp add: batchMap_def map_add_def lookup_live lookup_dead(1) applyBatch_def liveOf_def split: option.splits)
qed

lemma maps_init: "maps (map (mkBucketLevel uninitialised) [0..<11]) = replicate 11 (Map.empty, Map.empty)"
  unfolding maps_def by (rule nth_equalityI) (simp_all add: mkBucketLevel_def del: upt.simps)

lemma listInv_init: "listInv B 0 (mLevels (mkBucketList uninitialised))"
  by (auto simp: mkBucketList_def kNumLevels_def listInv_def pendingOk_def mkBucketLevel_def
      clearFutureBucket_def emptyBucket_def[symmetric] simp del: upt.simps)
     (simp_all add: emptyBucket_def)

lemma view_empty: "view (replicate n (Map.empty, Map.empty)) = Map.empty"
  by (induction n) simp_all

lemma liveView_init: "liveView (mLevels (mkBucketList uninitialised)) k = None"
  unfolding liveView_def mkBucketList_def kNumLevels_def BucketList.select_convs maps_init view_empty
  by (simp add: liveOf_def)

lemma closed_inv:
  assumes "distinctTypes B" "hashes32 B"
  shows "closed B l M bl \<Longrightarrow> listInv B l (mLevels bl) \<and> (\<forall>k. liveView (mLevels bl) k = M k)"
proof (induction rule: closed.induct)
  case (start uninitialised)
  show ?case using listInv_init liveView_init by blast
next
  case (close l M bl L live dead bl')
  from addBatch_step[OF assms _ close(2,3), of bl] close have inv: "listInv B (Suc l) (mLevels bl')"
    and view: "\<And>k. liveView (mLevels bl') k = liveOf ((view (maps (mLevels bl)) ++ batchMap live dead) k)" by auto
  have "(\<lambda>k. liveOf (view (maps (mLevels bl)) k)) = M" using close by (auto simp: liveView_def)
  with inv view show ?case by (simp add: liveOf_batch)
qed

lemma hashes32_demo [simp]: "hashes32 demoContext"
  by (simp add: hashes32_def demoContext_def)

lemma demo_closed:
  "\<exists>bl. closed demoContext 1 (applyBatch [demoEntry (BalanceId ''b'') 2] [] Map.empty) bl"
proof -
  have b: "batch [demoEntry (BalanceId ''b'') 2] []" by (simp add: batch_def known_def)
  have one: "unat (1 :: uint32) = Suc 0" by simp
  obtain bl where "addBatch demoContext 1 [demoEntry (BalanceId ''b'') 2] [] (mkBucketList True) = Inr bl"
    using addBatch_step[OF distinct_demo hashes32_demo listInv_init one b] by blast
  from closed.close[OF closed.start one b this] show ?thesis by auto
qed

section \<open>Properties\<close>

text \<open>The list of buckets refines the ledger: after the batches of any sequence of ledgers, the
  youngest entry found in it for an identity, when it is live, is what the ledger holds, and where
  the ledger holds nothing none or a tombstone is found, whatever merges are under way and whatever
  they leave out.\<close>

theorem bucketlist_refines_ledger:
  assumes "distinctTypes B" "hashes32 B" "closed B l M bl"
  shows "liveView (mLevels bl) k = M k"
  using closed_inv[OF assms] by simp

theorem bucketlist_refines_ledger_witness:
  "\<exists>bl :: nat BucketList. liveView (mLevels bl) (BalanceId ''b'') = Some (demoEntry (BalanceId ''b'') 2)"
proof -
  obtain bl where "closed demoContext 1 (applyBatch [demoEntry (BalanceId ''b'') 2] [] Map.empty) bl"
    using demo_closed by blast
  from bucketlist_refines_ledger[OF distinct_demo hashes32_demo this, of "BalanceId ''b''"]
  show ?thesis by (auto simp: applyBatch_def)
qed

text \<open>Closing the next ledger always succeeds: no assertion of the list of buckets, its levels, its
  merges or the output iterator ever fails, up to the last ledger number.\<close>

theorem addBatch_succeeds:
  assumes "distinctTypes B" "hashes32 B" "closed B l M bl" "unat L = Suc l" "batch live dead"
  shows "\<exists>bl'. addBatch B L live dead bl = Inr bl'"
  using addBatch_step[OF assms(1,2) _ assms(4,5)] closed_inv[OF assms(1-3)] by blast

theorem addBatch_succeeds_witness:
  "\<exists>bl. addBatch demoContext 1 [] [demoKey (AssetId ''x'')] (mkBucketList True) = Inr bl"
proof -
  have b: "batch ([] :: nat LedgerEntry list) [demoKey (AssetId ''x'')]" by (simp add: batch_def known_def)
  have one: "unat (1 :: uint32) = Suc 0" by simp
  from addBatch_succeeds[OF distinct_demo hashes32_demo closed.start one b] show ?thesis by blast
qed

text \<open>C24. Every bucket of the list stays sorted without repeated identities, and the last level never
  holds a tombstone and is never snapshotted.\<close>

theorem buckets_sorted:
  assumes "distinctTypes B" "hashes32 B" "closed B l M bl" "i < kNumLevels"
  shows "sortedBucket B (mCurr (mLevels bl ! i)) \<and> sortedBucket B (mSnap (mLevels bl ! i)) \<and>
    bucketEntries (mSnap (mLevels bl ! 10)) = [] \<and> (\<forall>e\<in>set (bucketEntries (mCurr (mLevels bl ! 10))). \<not> isDead e)"
  using closed_inv[OF assms(1-3)] assms(4) by (auto simp: listInv_def goodBucket_def kNumLevels_def)

theorem buckets_sorted_witness: "\<exists>bl :: nat BucketList. sortedBucket demoContext (mCurr (mLevels bl ! 0)) \<and> mLevels bl \<noteq> []"
proof -
  have "0 < kNumLevels" by (simp add: kNumLevels_def)
  from buckets_sorted[OF distinct_demo hashes32_demo closed.start this]
  show ?thesis by (intro exI[of _ "mkBucketList True"]) (simp add: mkBucketList_def kNumLevels_def)
qed

end
