(* ===== verification/BucketRestart.thy ===== *)
theory BucketRestart
  imports BucketManager BucketListRefines
begin

text \<open>
  A node that stops and starts again. The list of buckets is stored by hashes at every ledger and
  rebuilt from the files. Two lists with the same buckets whose pending merges have the same outcomes
  stay so under any batches; the list rebuilt from the stored state is such a twin, provided the merges
  that were still running keep tombstones as before.
\<close>

lemma bindE_assoc: "bindE (bindE m f) g = bindE m (\<lambda>x. bindE (f x) g)"
  by (cases m) simp_all

section \<open>Lists that behave alike\<close>

definition futureEquiv :: "'b FutureBucket \<Rightarrow> 'b FutureBucket \<Rightarrow> bool" where
  "futureEquiv fb fb' \<longleftrightarrow> fb = fb' \<or> isLive fb = isLive fb' \<and> (isMerging fb' \<longrightarrow> isMerging fb) \<and>
     (isLive fb \<longrightarrow> (\<exists>b x y. resolve fb = Inr (b, x) \<and> resolve fb' = Inr (b, y)))"

definition levelEquiv :: "'b BucketLevel \<Rightarrow> 'b BucketLevel \<Rightarrow> bool" where
  "levelEquiv l l' \<longleftrightarrow> mLevel l = mLevel l' \<and> mCurr l = mCurr l' \<and> mSnap l = mSnap l' \<and>
     futureEquiv (mNextCurr l) (mNextCurr l')"

abbreviation levelsEquiv :: "'b BucketLevel list \<Rightarrow> 'b BucketLevel list \<Rightarrow> bool" where
  "levelsEquiv \<equiv> list_all2 levelEquiv"

lemma futureEquiv_clear: "mState fb = FB_CLEAR \<Longrightarrow> mState fb' = FB_CLEAR \<Longrightarrow> futureEquiv fb fb'"
  by (simp add: futureEquiv_def)

lemma commit_equiv:
  assumes "levelEquiv l l'" "commit l = Inr r"
  shows "\<exists>r'. commit l' = Inr r' \<and> levelEquiv r r'"
proof (cases "isLive (mNextCurr l)")
  case True
  then have live: "isLive (mNextCurr l')" using assms(1) by (auto simp: levelEquiv_def futureEquiv_def)
  obtain b x where x: "resolve (mNextCurr l) = Inr (b, x)"
    using assms(2) True by (auto simp: commit_def bindE_Inr_iff)
  then obtain y where "resolve (mNextCurr l') = Inr (b, y)"
    using assms(1) True by (auto simp: levelEquiv_def futureEquiv_def)
  then show ?thesis
    using assms True live x by (auto simp: commit_def setCurr_def levelEquiv_def bindE_Inr_iff assertE_def intro: futureEquiv_clear)
next
  case False
  then have "\<not> isLive (mNextCurr l')" using assms(1) by (auto simp: levelEquiv_def futureEquiv_def)
  moreover from this have "\<not> isMerging (mNextCurr l')" by (simp add: futures)
  ultimately show ?thesis using assms False by (auto simp: commit_def bindE_Inr_iff assertE_def)
qed

lemma prepare_equiv:
  assumes "levelEquiv l l'" "prepare B L b shadows l = Inr r"
  shows "\<exists>r'. prepare B L b shadows l' = Inr r' \<and> levelEquiv r r'"
proof -
  have "\<not> isMerging (mNextCurr l)" using assms(2) by (auto simp: prepare_def assertE_def split: if_splits)
  then have "\<not> isMerging (mNextCurr l')" using assms(1) by (auto simp: levelEquiv_def futureEquiv_def)
  moreover have same: "mCurr l' = mCurr l" "mLevel l' = mLevel l" "mSnap l' = mSnap l"
    using assms(1) by (simp_all add: levelEquiv_def)
  ultimately have eq: "prepare B L b shadows l' =
      bindE (prepare B L b shadows l) (\<lambda>r. Inr (l'\<lparr>mNextCurr := mNextCurr r\<rparr>))"
    using \<open>\<not> isMerging (mNextCurr l)\<close> by (simp add: prepare_def assertE_def bindE_assoc cong: if_cong)
  have "mCurr r = mCurr l" "mLevel r = mLevel l" "mSnap r = mSnap l"
    using assms(2) by (auto simp: prepare_def bindE_Inr_iff)
  then show ?thesis
    using assms(2) eq same by (auto simp: levelEquiv_def futureEquiv_def)
qed

lemma buckets_equiv: "levelEquiv l l' \<Longrightarrow> mCurr l = mCurr l' \<and> mSnap l = mSnap l'"
  by (simp add: levelEquiv_def)

lemma snap_equiv: "levelEquiv l l' \<Longrightarrow> levelEquiv (snap l) (snap l')"
  by (simp add: levelEquiv_def snap_def)

text \<open>What has to be known of a relation between levels so that lists related level by level stay so
  under batches: the operations of a level keep it, and related levels have the same buckets.\<close>

locale level_simulation =
  fixes R :: "'b BucketLevel \<Rightarrow> 'b BucketLevel \<Rightarrow> bool"
  assumes buckets: "R l l' \<Longrightarrow> mCurr l = mCurr l' \<and> mSnap l = mSnap l'"
    and snap_related: "R l l' \<Longrightarrow> R (snap l) (snap l')"
    and commit_related: "R l l' \<Longrightarrow> commit l = Inr r \<Longrightarrow> \<exists>r'. commit l' = Inr r' \<and> R r r'"
    and prepare_related: "R l l' \<Longrightarrow> prepare B L b shadows l = Inr r \<Longrightarrow> \<exists>r'. prepare B L b shadows l' = Inr r' \<and> R r r'"
begin

lemma spillLoop_related:
  "list_all2 R lvs lvs' \<Longrightarrow> j < length lvs \<Longrightarrow> spillLoop B L j shadows lvs = Inr (sh, r) \<Longrightarrow>
    \<exists>r'. spillLoop B L j shadows lvs' = Inr (sh, r') \<and> list_all2 R r r' \<and> length r = length lvs"
proof (induction j arbitrary: shadows lvs lvs')
  case (Suc j)
  obtain spills where sp: "levelShouldSpill L j = Inr spills" "2 \<le> length shadows"
    using Suc.prems(3) by (auto simp: bindE_Inr_iff assertE_def Let_def split: if_splits)
  let ?sh = "butlast (butlast shadows)"
  show ?case
  proof (cases spills)
    case False
    then show ?thesis using Suc sp by (simp add: assertE_def)
  next
    case True
    let ?l1 = "lvs[j := snap (lvs ! j)]" and ?l1' = "lvs'[j := snap (lvs' ! j)]"
    have len: "length lvs' = length lvs" using Suc.prems(1) by (simp add: list_all2_lengthD)
    have "R (lvs ! j) (lvs' ! j)" using Suc.prems(1,2) by (simp add: list_all2_nthD)
    then have l1: "list_all2 R ?l1 ?l1'" using Suc.prems(1) by (intro list_all2_update_cong) (auto intro: snap_related)
    then have at1: "R (?l1 ! i) (?l1' ! i)" if "i < length lvs" for i
      using that by (simp add: list_all2_nthD)
    obtain l l2 where l: "commit (?l1 ! Suc j) = Inr l" "prepare B L (mSnap (?l1 ! j)) ?sh l = Inr l2"
      "spillLoop B L j ?sh (?l1[Suc j := l2]) = Inr (sh, r)"
      using Suc.prems(3) sp True by (auto simp: bindE_Inr_iff assertE_def Let_def)
    obtain l' where l': "commit (?l1' ! Suc j) = Inr l'" "R l l'"
      using commit_related[OF at1[OF Suc.prems(2)] l(1)] by blast
    obtain l2' where l2': "prepare B L (mSnap (?l1 ! j)) ?sh l' = Inr l2'" "R l2 l2'"
      using prepare_related[OF l'(2) l(2)] by blast
    have "mSnap (?l1' ! j) = mSnap (?l1 ! j)" using buckets[OF at1[of j]] Suc.prems(2) by simp
    moreover have "list_all2 R (?l1[Suc j := l2]) (?l1'[Suc j := l2'])"
      by (rule list_all2_update_cong[OF l1 l2'(2)])
    ultimately show ?thesis
      using Suc.IH[OF _ _ l(3)] Suc.prems(2) sp True l'(1) l2'(1) by (simp add: assertE_def Let_def)
  qed
qed simp

lemma addBatch_related:
  assumes "list_all2 R (mLevels bl) (mLevels bl')" "addBatch B L live dead bl = Inr r"
  shows "\<exists>r'. addBatch B L live dead bl' = Inr r' \<and> list_all2 R (mLevels r) (mLevels r')"
proof -
  let ?shadows = "\<lambda>ls. concat (map (\<lambda>l. [mCurr l, mSnap l]) ls)"
  have sh: "?shadows (mLevels bl') = ?shadows (mLevels bl)"
    using assms(1) by (induction rule: list_all2_induct) (auto dest: buckets)
  have len: "length (mLevels bl') = length (mLevels bl)" using assms(1) by (simp add: list_all2_lengthD)
  from assms(2) obtain s lvs b l l2 where r: "0 < L" "2 \<le> length (?shadows (mLevels bl))"
    "spillLoop B L (length (mLevels bl) - 1) (butlast (butlast (?shadows (mLevels bl)))) (mLevels bl) = Inr (s, lvs)"
    "length s = 0" "fresh B live dead = Inr b" "prepare B L b s (lvs ! 0) = Inr l" "commit l = Inr l2"
    "r = bl\<lparr>mLevels := lvs[0 := l2]\<rparr>"
    by (auto simp: addBatch_def bindE_Inr_iff assertE_def Let_def split: if_splits)
  have pos: "0 < length (mLevels bl)" using r(2) by (cases "mLevels bl") auto
  then obtain lvs' where lvs': "spillLoop B L (length (mLevels bl) - 1)
      (butlast (butlast (?shadows (mLevels bl)))) (mLevels bl') = Inr (s, lvs')" "list_all2 R lvs lvs'" "length lvs = length (mLevels bl)"
    using spillLoop_related[OF assms(1) _ r(3)] by auto
  then have "R (lvs ! 0) (lvs' ! 0)" using pos by (simp add: list_all2_nthD)
  then obtain l' where l': "prepare B L b s (lvs' ! 0) = Inr l'" "R l l'"
    using prepare_related[OF _ r(6)] by blast
  obtain l2' where l2': "commit l' = Inr l2'" "R l2 l2'"
    using commit_related[OF l'(2) r(7)] by blast
  have "list_all2 R (lvs[0 := l2]) (lvs'[0 := l2'])" by (rule list_all2_update_cong[OF lvs'(2) l2'(2)])
  then show ?thesis
    using r lvs'(1) l'(1) l2'(1) len by (simp add: addBatch_def assertE_def sh Let_def)
qed

end

interpretation alike: level_simulation levelEquiv
  by unfold_locales (blast intro: snap_equiv dest: buckets_equiv commit_equiv prepare_equiv)+

lemma bucketListHash_equiv: "levelsEquiv (mLevels bl) (mLevels bl') \<Longrightarrow> bucketListHash B bl = bucketListHash B bl'"
proof -
  assume "levelsEquiv (mLevels bl) (mLevels bl')"
  then have "map (levelHash B) (mLevels bl) = map (levelHash B) (mLevels bl')"
    by (induction rule: list_all2_induct) (simp_all add: levelEquiv_def levelHash_def)
  then show ?thesis by (simp add: bucketListHash_def)
qed

section \<open>Futures that are stored and read back\<close>

text \<open>What a future of a list in use looks like: untouched, or a merge that has an outcome.\<close>

definition tidy :: "'b FutureBucket \<Rightarrow> bool" where
  "tidy fb \<longleftrightarrow> (mState fb = FB_CLEAR \<longrightarrow> checkState fb = Inr ())"

lemma tidy_clear [simp]: "tidy (clear fb)" "tidy (clearFutureBucket u)"
  by (simp_all add: tidy_def checkState_def futures assertE_def clearFutureBucket_def)

lemma tidy_merging [simp]: "isMerging fb \<Longrightarrow> tidy fb"
  by (simp add: tidy_def futures)

definition stored :: "'b FutureBucket \<Rightarrow> bool \<Rightarrow> FBArchive result" where
  "stored fb ready = bindE (if isMerging fb \<and> ready then bindE (resolve fb) (\<lambda>(b, fb'). Inr fb') else Inr fb) fb_save"

definition revived :: "'b BucketContext \<Rightarrow> (Hash \<Rightarrow> 'b Bucket option) \<Rightarrow> 'b FutureBucket \<Rightarrow> 'b FutureBucket result" where
  "revived B look fb = (if hasHashes fb \<and> \<not> isLive fb then makeLive B look fb else Inr fb)"

lemma stored_clear:
  assumes "mState fb = FB_CLEAR" "tidy fb"
  shows "stored fb ready = Inr SavedClear" "fb_load SavedClear (clearFutureBucket u) = Inr (clearFutureBucket u)"
    "revived B look (clearFutureBucket u) = Inr (clearFutureBucket u)" "futureEquiv fb (clearFutureBucket u)"
proof -
  show "stored fb ready = Inr SavedClear" using assms by (simp add: stored_def tidy_def fb_save_def)
  show "fb_load SavedClear (clearFutureBucket u) = Inr (clearFutureBucket u)"
    by (simp add: fb_load_def futures clearFutureBucket_def checkState_def assertE_def)
  show "revived B look (clearFutureBucket u) = Inr (clearFutureBucket u)"
    by (simp add: revived_def futures clearFutureBucket_def)
  show "futureEquiv fb (clearFutureBucket u)"
    using assms(1) by (intro futureEquiv_clear) (simp_all add: clearFutureBucket_def)
qed

definition hashedInputs :: "'b Bucket \<Rightarrow> 'b Bucket \<Rightarrow> 'b Bucket list \<Rightarrow> bool \<Rightarrow> 'b FutureBucket" where
  "hashedInputs c s shadows u = (clearFutureBucket u)\<lparr>mState := FB_HASH_INPUTS, mInputCurrBucketHash := binToHex (mHash c),
     mInputSnapBucketHash := binToHex (mHash s), mInputShadowBucketHashes := map (binToHex \<circ> mHash) shadows\<rparr>"

lemma liveShadows_found:
  "\<forall>b\<in>set bs. hash32 b \<and> look (mHash b) = Some b \<Longrightarrow> liveShadows look (map (binToHex \<circ> mHash) bs) = Inr bs"
  by (induction bs) (simp_all add: assertE_def deref_def)

lemma stored_running:
  assumes "hash32 c" "hash32 s" "\<forall>b\<in>set shadows. hash32 b"
  shows "stored (merging B c s shadows keep) False =
      Inr (SavedInputs (binToHex (mHash c)) (binToHex (mHash s)) (map (binToHex \<circ> mHash) shadows))"
    "fb_load (SavedInputs (binToHex (mHash c)) (binToHex (mHash s)) (map (binToHex \<circ> mHash) shadows)) (clearFutureBucket u) =
      Inr (hashedInputs c s shadows u)"
proof -
  show "stored (merging B c s shadows keep) False =
      Inr (SavedInputs (binToHex (mHash c)) (binToHex (mHash s)) (map (binToHex \<circ> mHash) shadows))"
    using checkState_merging[OF assms, of B keep] by (simp add: stored_def fb_save_def) (simp add: merging_def)
  show "fb_load (SavedInputs (binToHex (mHash c)) (binToHex (mHash s)) (map (binToHex \<circ> mHash) shadows)) (clearFutureBucket u) =
      Inr (hashedInputs c s shadows u)"
    using assms by (simp add: fb_load_def futures clearFutureBucket_def checkState_def assertE_def hashedInputs_def)
qed

lemma revived_running:
  assumes "hash32 c" "hash32 s" "\<forall>b\<in>set shadows. hash32 b"
    "look (mHash c) = Some c" "look (mHash s) = Some s" "\<forall>b\<in>set shadows. look (mHash b) = Some b"
  shows "revived B look (hashedInputs c s shadows u) = Inr (merging B c s shadows u)"
proof -
  have sh: "liveShadows look (map (binToHex \<circ> mHash) shadows) = Inr shadows"
    using assms(3,6) by (intro liveShadows_found) auto
  have "startMerge B \<lparr>mState = FB_LIVE_INPUTS, mInputCurrBucket = Some c, mInputSnapBucket = Some s,
       mInputShadowBuckets = shadows, mOutputBucket = None, mInputCurrBucketHash = binToHex (mHash c),
       mInputSnapBucketHash = binToHex (mHash s), mInputShadowBucketHashes = map (binToHex \<circ> mHash) shadows,
       mOutputBucketHash = [], mMergeKeepsDead = u\<rparr> = Inr (merging B c s shadows u)"
    using mkFutureBucket_merging[OF assms(1-3), of B u] by (simp add: mkFutureBucket_def)
  moreover have "isLive (merging B c s shadows u)" by simp
  ultimately show ?thesis
    using assms(1,2,4,5) sh
    by (simp add: revived_def makeLive_def hashedInputs_def clearFutureBucket_def checkState_def assertE_def
        hasHashes_def isLive_def hasOutputHash_def)
qed

definition hashedOutput :: "'b Bucket \<Rightarrow> bool \<Rightarrow> 'b FutureBucket" where
  "hashedOutput b u = (clearFutureBucket u)\<lparr>mState := FB_HASH_OUTPUT, mOutputBucketHash := binToHex (mHash b)\<rparr>"

definition liveOutput :: "'b Bucket \<Rightarrow> bool \<Rightarrow> 'b FutureBucket" where
  "liveOutput b u = (clearFutureBucket u)\<lparr>mState := FB_LIVE_OUTPUT, mOutputBucketHash := binToHex (mHash b),
     mOutputBucket := Some (Inr b)\<rparr>"

lemma stored_done:
  assumes "hash32 c" "hash32 s" "\<forall>b\<in>set shadows. hash32 b" "merge B c s shadows keep = Inr b" "hash32 b"
    "look (mHash b) = Some b"
  shows "stored (merging B c s shadows keep) True = Inr (SavedOutput (binToHex (mHash b)))"
    "fb_load (SavedOutput (binToHex (mHash b))) (clearFutureBucket u) = Inr (hashedOutput b u)"
    "revived B look (hashedOutput b u) = Inr (liveOutput b u)"
    "futureEquiv (merging B c s shadows keep) (liveOutput b u)"
proof -
  have "checkState (merging B c s shadows keep) = Inr ()" by (rule checkState_merging[OF assms(1-3)])
  then show "stored (merging B c s shadows keep) True = Inr (SavedOutput (binToHex (mHash b)))"
    using assms(4,5)
    by (simp add: stored_def resolve_def futures merging_def checkState_def checkHashesMatch_def fb_save_def assertE_def)
  show "fb_load (SavedOutput (binToHex (mHash b))) (clearFutureBucket u) = Inr (hashedOutput b u)"
    using assms(5) by (simp add: fb_load_def futures clearFutureBucket_def checkState_def assertE_def hashedOutput_def)
  show "revived B look (hashedOutput b u) = Inr (liveOutput b u)"
    using assms(5,6)
    by (simp add: revived_def makeLive_def hashedOutput_def liveOutput_def clearFutureBucket_def checkState_def assertE_def
        futures setLiveOutput_def deref_def checkHashesMatch_def)
  have "resolve (liveOutput b u) = Inr (b, liveOutput b u)"
    using assms(5)
    by (simp add: resolve_def futures liveOutput_def clearFutureBucket_def checkState_def checkHashesMatch_def assertE_def)
  moreover have "isLive (liveOutput b u)" "\<not> isMerging (liveOutput b u)" by (simp_all add: liveOutput_def futures)
  moreover obtain x where "resolve (merging B c s shadows keep) = Inr (b, x)"
    using resolve_merging[OF assms(1-5)] by blast
  ultimately show "futureEquiv (merging B c s shadows keep) (liveOutput b u)"
    by (simp add: futureEquiv_def)
qed

definition goodFuture :: "'b BucketContext \<Rightarrow> bool \<Rightarrow> 'b FutureBucket \<Rightarrow> bool" where
  "goodFuture B keep fb \<longleftrightarrow> mState fb = FB_CLEAR \<and> tidy fb \<or>
     (\<exists>c s shadows b. fb = merging B c s shadows keep \<and> hash32 c \<and> hash32 s \<and> (\<forall>b\<in>set shadows. hash32 b) \<and>
        merge B c s shadows keep = Inr b \<and> hash32 b)"

text \<open>The buckets a stored future refers to by hash.\<close>

definition neededBy :: "bool \<Rightarrow> 'b FutureBucket \<Rightarrow> 'b Bucket set" where
  "neededBy ready fb =
     (if \<not> isMerging fb then {}
      else if ready then {b. futureGet fb = Inr b}
      else set_option (mInputCurrBucket fb) \<union> set_option (mInputSnapBucket fb) \<union> set (mInputShadowBuckets fb))"

lemma restore_future:
  assumes "goodFuture B keep fb" "\<forall>b\<in>neededBy ready fb. look (mHash b) = Some b" "isMerging fb \<longrightarrow> ready \<or> u = keep"
  shows "\<exists>ar fb1 fb2. stored fb ready = Inr ar \<and> fb_load ar (clearFutureBucket u) = Inr fb1 \<and> \<not> isMerging fb1 \<and>
    revived B look fb1 = Inr fb2 \<and> futureEquiv fb fb2"
proof (cases "mState fb = FB_CLEAR")
  case True
  then have "tidy fb" using assms(1) by (auto simp: goodFuture_def merging_def)
  have "\<not> isMerging (clearFutureBucket u)" by (simp add: clearFutureBucket_def futures)
  with stored_clear[OF True \<open>tidy fb\<close>] show ?thesis by blast
next
  case False
  then obtain c s shadows b where fb: "fb = merging B c s shadows keep"
    and h: "hash32 c" "hash32 s" "\<forall>b\<in>set shadows. hash32 b" "merge B c s shadows keep = Inr b" "hash32 b"
    using assms(1) by (auto simp: goodFuture_def)
  show ?thesis
  proof (cases ready)
    case True
    have "look (mHash b) = Some b" using assms(2) fb h(4) True by (simp add: neededBy_def) (simp add: futures merging_def)
    note fin = stored_done[OF h, where look = look, OF this]
    have "\<not> isMerging (hashedOutput b u)" by (simp add: hashedOutput_def clearFutureBucket_def futures)
    moreover have "stored fb ready = Inr (SavedOutput (binToHex (mHash b)))" "futureEquiv fb (liveOutput b u)"
      using fin(1,4) True fb by simp_all
    ultimately show ?thesis using fin(2,3) by blast
  next
    case False
    have found: "look (mHash c) = Some c" "look (mHash s) = Some s" "\<forall>b\<in>set shadows. look (mHash b) = Some b"
      using assms(2) fb False by (simp_all add: neededBy_def) (simp_all add: merging_def)
    have "u = keep" using assms(3) fb False by simp
    have "\<not> isMerging (hashedInputs c s shadows u)" by (simp add: hashedInputs_def clearFutureBucket_def futures)
    moreover have "futureEquiv fb (merging B c s shadows u)" using fb \<open>u = keep\<close> by (simp add: futureEquiv_def)
    moreover have "revived B look (hashedInputs c s shadows u) = Inr (merging B c s shadows u)"
      by (rule revived_running[OF h(1-3) found])
    moreover have "stored fb ready = Inr (SavedInputs (binToHex (mHash c)) (binToHex (mHash s)) (map (binToHex \<circ> mHash) shadows))"
      using stored_running(1)[OF h(1-3)] False fb by simp
    ultimately show ?thesis using stored_running(2)[OF h(1-3)] by blast
  qed
qed

section \<open>Lists that are stored and read back\<close>

definition hashesOf :: "'b BucketLevel \<Rightarrow> 'b HistoryStateBucket" where
  "hashesOf l = \<lparr>hs_curr = binToHex (mHash (mCurr l)), hs_next = mNextCurr l, hs_snap = binToHex (mHash (mSnap l))\<rparr>"

lemma levelStates_map:
  "\<forall>i\<in>set is. i < length (mLevels bl) \<Longrightarrow> levelStates bl is = Inr (map (\<lambda>i. hashesOf (mLevels bl ! i)) is)"
  by (induction "is") (simp_all add: getLevel_def hashesOf_def)

lemma mkHistoryState_map:
  assumes "length (mLevels bl) = kNumLevels"
  shows "mkHistoryState L bl = Inr \<lparr>has_version = HISTORY_ARCHIVE_STATE_VERSION, currentLedger = L,
    currentBuckets = map hashesOf (mLevels bl)\<rparr>"
proof -
  have "map (\<lambda>i. hashesOf (mLevels bl ! i)) [0..<kNumLevels] = map hashesOf (mLevels bl)"
    by (rule nth_equalityI) (simp_all add: assms)
  then show ?thesis using levelStates_map[of "[0..<kNumLevels]" bl] assms by (simp add: mkHistoryState_def)
qed

lemma save_load_levels:
  "\<forall>j<length ls. \<exists>ar fb. stored (hs_next (ls ! j)) (ready (k + j)) = Inr ar \<and>
      fb_load ar (clearFutureBucket (u (k + j))) = Inr fb \<and> P (k + j) (ls ! j) fb \<Longrightarrow>
   \<exists>ls1 ars ls2. resolveLevels ready k ls = Inr ls1 \<and> saveLevels ls1 = Inr ars \<and> loadLevels u k ars = Inr ls2 \<and>
     length ls2 = length ls \<and>
     (\<forall>j<length ls. hs_curr (ls2 ! j) = hs_curr (ls ! j) \<and> hs_snap (ls2 ! j) = hs_snap (ls ! j) \<and>
        P (k + j) (ls ! j) (hs_next (ls2 ! j)))"
proof (induction ls arbitrary: k)
  case (Cons l ls)
  have "\<forall>j<length ls. \<exists>ar fb. stored (hs_next (ls ! j)) (ready (Suc k + j)) = Inr ar \<and>
      fb_load ar (clearFutureBucket (u (Suc k + j))) = Inr fb \<and> P (Suc k + j) (ls ! j) fb"
    using Cons.prems by (metis add_Suc_shift length_Cons not_less_eq nth_Cons_Suc)
  from Cons.IH[OF this] obtain ls1 ars ls2 where r: "resolveLevels ready (Suc k) ls = Inr ls1" "saveLevels ls1 = Inr ars"
      "loadLevels u (Suc k) ars = Inr ls2" "length ls2 = length ls"
      "\<forall>j<length ls. hs_curr (ls2 ! j) = hs_curr (ls ! j) \<and> hs_snap (ls2 ! j) = hs_snap (ls ! j) \<and>
        P (Suc k + j) (ls ! j) (hs_next (ls2 ! j))"
    by blast
  obtain ar fb where l: "stored (hs_next l) (ready k) = Inr ar" "fb_load ar (clearFutureBucket (u k)) = Inr fb" "P k l fb"
    using Cons.prems by force
  obtain l1 where l1: "(if isMerging (hs_next l) \<and> ready k
      then bindE (resolve (hs_next l)) (\<lambda>(b, fb). Inr (l\<lparr>hs_next := fb\<rparr>)) else Inr l) = Inr l1"
      "fb_save (hs_next l1) = Inr ar" "hs_curr l1 = hs_curr l" "hs_snap l1 = hs_snap l"
    using l(1) by (auto simp: stored_def bindE_Inr_iff split: if_splits)
  have "resolveLevels ready k (l # ls) = Inr (l1 # ls1)" using l1(1) r(1) by simp
  moreover have "saveLevels (l1 # ls1) = Inr ((hs_curr l, ar, hs_snap l) # ars)" using l1 r(2) by simp
  moreover have "loadLevels u k ((hs_curr l, ar, hs_snap l) # ars) = Inr (\<lparr>hs_curr = hs_curr l, hs_next = fb, hs_snap = hs_snap l\<rparr> # ls2)"
    using l(2) r(3) by simp
  moreover have "\<forall>j<length (l # ls). let x = (\<lparr>hs_curr = hs_curr l, hs_next = fb, hs_snap = hs_snap l\<rparr> # ls2) ! j in
      hs_curr x = hs_curr ((l # ls) ! j) \<and> hs_snap x = hs_snap ((l # ls) ! j) \<and> P (k + j) ((l # ls) ! j) (hs_next x)"
    using r(4,5) l(3) by (auto simp: Let_def less_Suc_eq_0_disj)
  ultimately show ?case using r(4) unfolding Let_def by (metis length_Cons)
qed simp

section \<open>Finding buckets\<close>

lemma getBucketByHash_keeps:
  assumes "omap_wf (mSharedBuckets bm)"
  shows "omap_wf (mSharedBuckets (snd (getBucketByHash h bm)))"
    "fst (getBucketByHash h' (snd (getBucketByHash h bm))) = fst (getBucketByHash h' bm)"
    "mBucketList (snd (getBucketByHash h bm)) = mBucketList bm"
    "bucketFiles (snd (getBucketByHash h bm)) = bucketFiles bm"
  using assms by (auto simp: getBucketByHash_def Let_def split: option.splits)

lemma setLevel_simps [simp]:
  "mSharedBuckets (setLevel i f bm) = mSharedBuckets bm"
  "fst (getBucketByHash h (setLevel i f bm)) = fst (getBucketByHash h bm)"
  "mLevels (mBucketList (setLevel i f bm)) = (mLevels (mBucketList bm))[i := f (mLevels (mBucketList bm) ! i)]"
  by (auto simp: setLevel_def getBucketByHash_def Let_def split: option.splits)

definition restoredLevel :: "'b HistoryStateBucket \<Rightarrow> 'b Bucket \<Rightarrow> 'b Bucket \<Rightarrow> 'b BucketLevel \<Rightarrow> 'b BucketLevel" where
  "restoredLevel level cb sb l = setNext (hs_next level) (setSnap sb (setCurr cb l))"

lemma assumeLevels_ok:
  "distinct is \<Longrightarrow> omap_wf (mSharedBuckets bm) \<Longrightarrow>
   \<forall>i\<in>set is. i < length (currentBuckets has) \<and> i < length (mLevels (mBucketList bm)) \<and>
     hs_curr (currentBuckets has ! i) = binToHex (mHash (C i)) \<and> hash32 (C i) \<and> fst (getBucketByHash (mHash (C i)) bm) = Some (C i) \<and>
     hs_snap (currentBuckets has ! i) = binToHex (mHash (S i)) \<and> hash32 (S i) \<and> fst (getBucketByHash (mHash (S i)) bm) = Some (S i) \<Longrightarrow>
   \<exists>bm'. assumeLevels has is bm = Inr bm' \<and> (\<forall>h. fst (getBucketByHash h bm') = fst (getBucketByHash h bm)) \<and>
     length (mLevels (mBucketList bm')) = length (mLevels (mBucketList bm)) \<and>
     (\<forall>j<length (mLevels (mBucketList bm)). mLevels (mBucketList bm') ! j =
        (if j \<in> set is then restoredLevel (currentBuckets has ! j) (C j) (S j) (mLevels (mBucketList bm) ! j)
         else mLevels (mBucketList bm) ! j))"
proof (induction "is" arbitrary: bm)
  case (Cons i "is")
  let ?level = "currentBuckets has ! i"
  obtain c bm1 where c: "getBucketByHash (mHash (C i)) bm = (c, bm1)" by fastforce
  obtain s bm2 where s: "getBucketByHash (mHash (S i)) bm1 = (s, bm2)" by fastforce
  have k1: "omap_wf (mSharedBuckets bm1)" "\<And>h. fst (getBucketByHash h bm1) = fst (getBucketByHash h bm)" "mBucketList bm1 = mBucketList bm"
    using getBucketByHash_keeps[OF Cons.prems(2), where h = "mHash (C i)"] c by simp_all
  have k2: "omap_wf (mSharedBuckets bm2)" "\<And>h. fst (getBucketByHash h bm2) = fst (getBucketByHash h bm)" "mBucketList bm2 = mBucketList bm"
    using getBucketByHash_keeps[OF k1(1), where h = "mHash (S i)"] s k1 by simp_all
  have cs: "c = Some (C i)" "s = Some (S i)"
    using Cons.prems(3) c s k1(2)[of "mHash (S i)"] by auto
  let ?bm = "setLevel i (restoredLevel ?level (C i) (S i)) bm2"
  have step: "assumeLevels has (i # is) bm = assumeLevels has is ?bm"
    using Cons.prems(3) c s cs k2(3) by (simp add: restoredLevel_def[abs_def] getLevel_def)
  have "\<forall>j\<in>set is. j < length (currentBuckets has) \<and> j < length (mLevels (mBucketList ?bm)) \<and>
     hs_curr (currentBuckets has ! j) = binToHex (mHash (C j)) \<and> hash32 (C j) \<and> fst (getBucketByHash (mHash (C j)) ?bm) = Some (C j) \<and>
     hs_snap (currentBuckets has ! j) = binToHex (mHash (S j)) \<and> hash32 (S j) \<and> fst (getBucketByHash (mHash (S j)) ?bm) = Some (S j)"
    using Cons.prems(3) k2 by simp
  from Cons.IH[OF _ _ this] Cons.prems(1) k2(1) obtain bm' where
    bm': "assumeLevels has is ?bm = Inr bm'" "\<forall>h. fst (getBucketByHash h bm') = fst (getBucketByHash h ?bm)"
      "length (mLevels (mBucketList bm')) = length (mLevels (mBucketList ?bm))"
      "\<forall>j<length (mLevels (mBucketList ?bm)). mLevels (mBucketList bm') ! j =
        (if j \<in> set is then restoredLevel (currentBuckets has ! j) (C j) (S j) (mLevels (mBucketList ?bm) ! j)
         else mLevels (mBucketList ?bm) ! j)"
    by auto
  have "mLevels (mBucketList bm') ! j =
      (if j \<in> set (i # is) then restoredLevel (currentBuckets has ! j) (C j) (S j) (mLevels (mBucketList bm) ! j)
       else mLevels (mBucketList bm) ! j)" if "j < length (mLevels (mBucketList bm))" for j
    using bm'(4) that Cons.prems(1) k2(3) by (cases "j = i") simp_all
  moreover have "assumeLevels has (i # is) bm = Inr bm'" using step bm'(1) by (rule trans)
  ultimately show ?case using bm'(2,3) k2(2,3) by (simp del: assumeLevels.simps)
qed simp

text \<open>The level \<open>l1\<close> has the buckets of \<open>l\<close> and a future that becomes like the one of \<open>l\<close> when its
  hashes are looked up.\<close>

definition revivable :: "'b BucketContext \<Rightarrow> (Hash \<Rightarrow> 'b Bucket option) \<Rightarrow> 'b BucketLevel \<Rightarrow> 'b BucketLevel \<Rightarrow> bool" where
  "revivable B look l l1 \<longleftrightarrow> mLevel l1 = mLevel l \<and> mCurr l1 = mCurr l \<and> mSnap l1 = mSnap l \<and>
     (\<exists>fb. revived B look (mNextCurr l1) = Inr fb \<and> futureEquiv (mNextCurr l) fb)"

lemma restartLoop_equiv:
  "list_all2 (revivable B look) lvs lvs1 \<Longrightarrow> \<exists>lvs'. restartLoop B look lvs1 = Inr lvs' \<and> levelsEquiv lvs lvs'"
proof (induction rule: list_all2_induct)
  case (Cons l lvs l1 lvs1)
  then obtain lvs' where lvs': "restartLoop B look lvs1 = Inr lvs'" "levelsEquiv lvs lvs'" by blast
  obtain fb where fb: "revived B look (mNextCurr l1) = Inr fb" "futureEquiv (mNextCurr l) fb"
    using Cons.hyps(1) by (auto simp: revivable_def)
  then have "restartLoop B look (l1 # lvs1) = Inr (l1\<lparr>mNextCurr := fb\<rparr> # lvs')"
    using lvs'(1) by (auto simp: revived_def split: if_splits)
  moreover have "levelEquiv l (l1\<lparr>mNextCurr := fb\<rparr>)"
    using Cons.hyps(1) fb(2) by (simp add: levelEquiv_def revivable_def)
  ultimately show ?case using lvs'(2) by simp
qed simp

section \<open>Restarting a node\<close>

abbreviation tidyLevels :: "'b BucketLevel list \<Rightarrow> bool" where
  "tidyLevels lvs \<equiv> \<forall>l\<in>set lvs. tidy (mNextCurr l)"

lemma commit_tidy: "commit l = Inr r \<Longrightarrow> tidy (mNextCurr l) \<Longrightarrow> tidy (mNextCurr r)"
  by (auto simp: commit_def setCurr_def bindE_Inr_iff split: if_splits)

lemma prepare_tidy: "prepare B L b shadows l = Inr r \<Longrightarrow> tidy (mNextCurr r)"
  by (auto simp: prepare_def bindE_Inr_iff assertE_def split: if_splits)

interpretation tidied: level_simulation "\<lambda>l l'. l = l' \<and> tidy (mNextCurr l)"
  by unfold_locales (auto simp: snap_def intro: commit_tidy prepare_tidy)

lemma addBatch_tidy:
  assumes "addBatch B L live dead bl = Inr r" "tidyLevels (mLevels bl)"
  shows "tidyLevels (mLevels r)"
proof -
  have "list_all2 (\<lambda>l l'. l = l' \<and> tidy (mNextCurr l)) (mLevels bl) (mLevels bl)"
    using assms(2) by (simp add: list_all2_same)
  from tidied.addBatch_related[OF this assms(1)] assms(1)
  have "list_all2 (\<lambda>l l'. l = l' \<and> tidy (mNextCurr l)) (mLevels r) (mLevels r)" by simp
  then show ?thesis by (simp add: list_all2_same)
qed

lemma closed_tidy: "closed B l M bl \<Longrightarrow> tidyLevels (mLevels bl)"
proof (induction rule: closed.induct)
  case (start uninitialised)
  show ?case by (auto simp: mkBucketList_def mkBucketLevel_def)
next
  case (close l M bl L live dead bl')
  then show ?case using addBatch_tidy by blast
qed

lemma closed_goodFuture:
  assumes "distinctTypes B" "hashes32 B" "closed B l M bl" "i < 11"
  shows "goodFuture B (i < 10) (mNextCurr (mLevels bl ! i))"
proof -
  let ?lvs = "mLevels bl" and ?fb = "mNextCurr (mLevels bl ! i)"
  have inv: "listInv B l ?lvs" using closed_inv[OF assms(1-3)] by simp
  have tidy: "tidy ?fb" using closed_tidy[OF assms(3)] inv assms(4) by (simp add: listInv_def)
  show ?thesis
  proof (cases "mState ?fb = FB_CLEAR")
    case True
    then show ?thesis using tidy by (simp add: goodFuture_def)
  next
    case False
    then have "1 \<le> i" using inv by (cases i) (auto simp: listInv_def)
    then have "pendingOk B l ?lvs i" using inv assms(4) by (simp add: listInv_def)
    with False obtain shadows where fb: "?fb = merging B (if spillsAt (nextChange l i) i then emptyBucket else mCurr (?lvs ! i))
          (mSnap (?lvs ! (i - 1))) shadows (i < 10)" "\<forall>b\<in>set shadows. goodBucket B b"
      by (auto simp: pendingOk_def)
    let ?c = "if spillsAt (nextChange l i) i then emptyBucket else mCurr (?lvs ! i)" and ?s = "mSnap (?lvs ! (i - 1))"
    have good: "goodBucket B ?c" "goodBucket B ?s" using inv assms(4) by (auto simp: listInv_def)
    obtain b where "merge B ?c ?s shadows (i < 10) = Inr b" "goodBucket B b"
      using merge_good[OF assms(1,2) good fb(2)] by blast
    then show ?thesis
      using fb good unfolding goodFuture_def goodBucket_def by blast
  qed
qed

text \<open>What happens between two runs of a node: the list is stored, with merges that are done resolved, and
  a new manager assumes the stored state.\<close>

definition restart :: "'b BucketContext \<Rightarrow> (nat \<Rightarrow> bool) \<Rightarrow> (nat \<Rightarrow> bool) \<Rightarrow> uint32 \<Rightarrow> 'b BucketList \<Rightarrow>
    'b BucketManager \<Rightarrow> 'b BucketManager result" where
  "restart B ready uninitialised L bl bm =
     bindE (mkHistoryState L bl) (\<lambda>has.
     bindE (resolveAnyReadyFutures ready has) (\<lambda>has1.
     bindE (has_toString has1) (\<lambda>ar.
     bindE (has_fromString uninitialised ar) (\<lambda>has2.
     assumeState B has2 bm))))"

text \<open>Every bucket the stored state refers to is found by its hash.\<close>

definition filesPresent :: "(nat \<Rightarrow> bool) \<Rightarrow> 'b BucketList \<Rightarrow> 'b BucketManager \<Rightarrow> bool" where
  "filesPresent ready bl bm \<longleftrightarrow> omap_wf (mSharedBuckets bm) \<and>
     (\<forall>i<kNumLevels. let level = mLevels bl ! i in
        \<forall>b\<in>{mCurr level, mSnap level} \<union> neededBy (ready i) (mNextCurr level). fst (getBucketByHash (mHash b) bm) = Some b)"

text \<open>The merges that are started again keep tombstones as before, on all levels but the last.\<close>

definition flagsKept :: "(nat \<Rightarrow> bool) \<Rightarrow> (nat \<Rightarrow> bool) \<Rightarrow> 'b BucketList \<Rightarrow> bool" where
  "flagsKept ready uninitialised bl \<longleftrightarrow>
     (\<forall>i<kNumLevels. isMerging (mNextCurr (mLevels bl ! i)) \<longrightarrow> ready i \<or> uninitialised i = (i < kNumLevels - 1))"

lemma restart_history:
  assumes "distinctTypes B" "hashes32 B" "closed B l M bl" "filesPresent ready bl bm" "flagsKept ready u bl"
  shows "\<exists>ls2 has1 ar. mkHistoryState L bl = Inr \<lparr>has_version = 1, currentLedger = L, currentBuckets = map hashesOf (mLevels bl)\<rparr> \<and>
    resolveAnyReadyFutures ready \<lparr>has_version = 1, currentLedger = L, currentBuckets = map hashesOf (mLevels bl)\<rparr> = Inr has1 \<and>
    has_toString has1 = Inr ar \<and>
    has_fromString u ar = Inr \<lparr>has_version = 1, currentLedger = L, currentBuckets = ls2\<rparr> \<and> length ls2 = 11 \<and>
    (\<forall>i<11. hs_curr (ls2 ! i) = binToHex (mHash (mCurr (mLevels bl ! i))) \<and>
       hs_snap (ls2 ! i) = binToHex (mHash (mSnap (mLevels bl ! i))) \<and>
       (\<exists>fb2. revived B (\<lambda>h. fst (getBucketByHash h bm)) (hs_next (ls2 ! i)) = Inr fb2 \<and> futureEquiv (mNextCurr (mLevels bl ! i)) fb2))"
proof -
  let ?look = "\<lambda>h. fst (getBucketByHash h bm)" and ?ls = "map hashesOf (mLevels bl)"
  define P where "P = (\<lambda>(i :: nat) (l :: 'a HistoryStateBucket) fb. \<not> isMerging fb \<and>
    (\<exists>fb2. revived B ?look fb = Inr fb2 \<and> futureEquiv (hs_next l) fb2))"
  have len: "length (mLevels bl) = 11" using closed_inv[OF assms(1-3)] by (simp add: listInv_def)
  have nxt: "hs_next (?ls ! j) = mNextCurr (mLevels bl ! j)" if "j < 11" for j
    using that len by (simp add: hashesOf_def)
  have "\<forall>j<length ?ls. \<exists>ar fb. stored (hs_next (?ls ! j)) (ready (0 + j)) = Inr ar \<and>
      fb_load ar (clearFutureBucket (u (0 + j))) = Inr fb \<and> P (0 + j) (?ls ! j) fb"
  proof (intro allI impI)
    fix j assume "j < length ?ls"
    then have j: "j < 11" using len by simp
    have "\<forall>b\<in>neededBy (ready j) (mNextCurr (mLevels bl ! j)). ?look (mHash b) = Some b"
      using assms(4) j by (auto simp: filesPresent_def kNumLevels_def Let_def)
    moreover have "isMerging (mNextCurr (mLevels bl ! j)) \<longrightarrow> ready j \<or> u j = (j < 10)"
      using assms(5) j by (simp add: flagsKept_def kNumLevels_def)
    ultimately show "\<exists>ar fb. stored (hs_next (?ls ! j)) (ready (0 + j)) = Inr ar \<and>
      fb_load ar (clearFutureBucket (u (0 + j))) = Inr fb \<and> P (0 + j) (?ls ! j) fb"
      using restore_future[OF closed_goodFuture[OF assms(1-3) j], where look = ?look and ready = "ready j" and u = "u j"]
      unfolding nxt[OF j] P_def add_0 by blast
  qed
  from save_load_levels[OF this] obtain ls1 ars ls2 where r: "resolveLevels ready 0 ?ls = Inr ls1" "saveLevels ls1 = Inr ars"
    "loadLevels u 0 ars = Inr ls2" "length ls2 = 11"
    "\<forall>j<11. hs_curr (ls2 ! j) = hs_curr (?ls ! j) \<and> hs_snap (ls2 ! j) = hs_snap (?ls ! j) \<and> P j (?ls ! j) (hs_next (ls2 ! j))"
    using len by auto
  have "futuresAllResolved \<lparr>has_version = 1, currentLedger = L, currentBuckets = ls2\<rparr>"
    using r(4,5) by (auto simp: futuresAllResolved_def list_all_length P_def)
  moreover have "mkHistoryState L bl = Inr \<lparr>has_version = 1, currentLedger = L, currentBuckets = ?ls\<rparr>"
    using mkHistoryState_map[of bl L] len by (simp add: kNumLevels_def HISTORY_ARCHIVE_STATE_VERSION_def)
  moreover have "\<forall>i<11. hs_curr (ls2 ! i) = binToHex (mHash (mCurr (mLevels bl ! i))) \<and>
       hs_snap (ls2 ! i) = binToHex (mHash (mSnap (mLevels bl ! i))) \<and>
       (\<exists>fb2. revived B ?look (hs_next (ls2 ! i)) = Inr fb2 \<and> futureEquiv (mNextCurr (mLevels bl ! i)) fb2)"
    using r(5) len nxt by (auto simp: P_def hashesOf_def)
  ultimately show ?thesis
    using r(1-4) by (simp add: resolveAnyReadyFutures_def has_toString_def has_fromString_def assertE_def)
qed

lemma restart_equiv:
  assumes "distinctTypes B" "hashes32 B" "closed B l M bl" "filesPresent ready bl bm" "flagsKept ready u bl"
    "mBucketList bm = mkBucketList v"
  shows "\<exists>bm'. restart B ready u L bl bm = Inr bm' \<and> levelsEquiv (mLevels bl) (mLevels (mBucketList bm'))"
proof -
  let ?look = "\<lambda>h. fst (getBucketByHash h bm)"
  obtain ls2 has1 ar where h: "mkHistoryState L bl = Inr \<lparr>has_version = 1, currentLedger = L, currentBuckets = map hashesOf (mLevels bl)\<rparr>"
    "resolveAnyReadyFutures ready \<lparr>has_version = 1, currentLedger = L, currentBuckets = map hashesOf (mLevels bl)\<rparr> = Inr has1"
    "has_toString has1 = Inr ar"
    "has_fromString u ar = Inr \<lparr>has_version = 1, currentLedger = L, currentBuckets = ls2\<rparr>" "length ls2 = 11"
    "\<forall>i<11. hs_curr (ls2 ! i) = binToHex (mHash (mCurr (mLevels bl ! i))) \<and>
       hs_snap (ls2 ! i) = binToHex (mHash (mSnap (mLevels bl ! i))) \<and>
       (\<exists>fb2. revived B ?look (hs_next (ls2 ! i)) = Inr fb2 \<and> futureEquiv (mNextCurr (mLevels bl ! i)) fb2)"
    using restart_history[OF assms(1-5)] by blast
  let ?has = "\<lparr>has_version = 1, currentLedger = L, currentBuckets = ls2\<rparr>"
  let ?C = "\<lambda>i. mCurr (mLevels bl ! i)" and ?S = "\<lambda>i. mSnap (mLevels bl ! i)"
  have inv: "listInv B l (mLevels bl)" using closed_inv[OF assms(1-3)] by simp
  have lv: "mLevels (mBucketList bm) = map (mkBucketLevel v) [0..<11]" by (simp add: assms(6) mkBucketList_def kNumLevels_def)
  have "\<forall>i\<in>set [0..<kNumLevels]. i < length (currentBuckets ?has) \<and> i < length (mLevels (mBucketList bm)) \<and>
     hs_curr (currentBuckets ?has ! i) = binToHex (mHash (?C i)) \<and> hash32 (?C i) \<and> ?look (mHash (?C i)) = Some (?C i) \<and>
     hs_snap (currentBuckets ?has ! i) = binToHex (mHash (?S i)) \<and> hash32 (?S i) \<and> ?look (mHash (?S i)) = Some (?S i)"
    using h(5,6) inv assms(4) lv by (auto simp: listInv_def goodBucket_def filesPresent_def Let_def kNumLevels_def)
  from assumeLevels_ok[OF _ _ this] assms(4) obtain bm1 where
    bm1: "assumeLevels ?has [0..<kNumLevels] bm = Inr bm1" "\<forall>h. fst (getBucketByHash h bm1) = ?look h"
      "length (mLevels (mBucketList bm1)) = 11"
      "\<forall>j<11. mLevels (mBucketList bm1) ! j = restoredLevel (ls2 ! j) (?C j) (?S j) (mkBucketLevel v j)"
    by (auto simp: filesPresent_def lv kNumLevels_def simp del: upt.simps)
  have "\<forall>j<11. mLevel (mLevels bl ! j) = j" "length (mLevels bl) = 11" using inv by (simp_all add: listInv_def)
  then have "list_all2 (revivable B (\<lambda>h. fst (getBucketByHash h bm1))) (mLevels bl) (mLevels (mBucketList bm1))"
    using h(6) bm1(2-4) by (simp add: list_all2_conv_all_nth revivable_def restoredLevel_def setNext_def setSnap_def
        setCurr_def mkBucketLevel_def)
  from restartLoop_equiv[OF this] obtain lvs' where
    "restartLoop B (\<lambda>h. fst (getBucketByHash h bm1)) (mLevels (mBucketList bm1)) = Inr lvs'" "levelsEquiv (mLevels bl) lvs'" by blast
  moreover from this have "restart B ready u L bl bm = Inr (bm1\<lparr>mBucketList := (mBucketList bm1)\<lparr>mLevels := lvs'\<rparr>\<rparr>)"
    using h(1-4) bm1(1) by (simp add: restart_def assumeState_def restartMerges_def)
  ultimately show ?thesis by simp
qed

section \<open>Batches after a restart\<close>

fun addBatches :: "'b BucketContext \<Rightarrow> uint32 \<Rightarrow> ('b LedgerEntry list \<times> LedgerKey list) list \<Rightarrow> 'b BucketList \<Rightarrow> 'b BucketList result" where
  "addBatches B L [] bl = Inr bl"
| "addBatches B L ((live, dead) # bs) bl = bindE (addBatch B L live dead bl) (addBatches B (L + 1) bs)"

lemma addBatches_equiv:
  "levelsEquiv (mLevels bl) (mLevels bl') \<Longrightarrow> addBatches B L bs bl = Inr r \<Longrightarrow>
    \<exists>r'. addBatches B L bs bl' = Inr r' \<and> levelsEquiv (mLevels r) (mLevels r')"
proof (induction bs arbitrary: L bl bl')
  case (Cons b bs)
  obtain live dead where b: "b = (live, dead)" by force
  obtain bl1 where bl1: "addBatch B L live dead bl = Inr bl1" "addBatches B (L + 1) bs bl1 = Inr r"
    using Cons.prems(2) b by (auto simp: bindE_Inr_iff)
  obtain bl1' where bl1': "addBatch B L live dead bl' = Inr bl1'" "levelsEquiv (mLevels bl1) (mLevels bl1')"
    using alike.addBatch_related[OF Cons.prems(1) bl1(1)] by blast
  from Cons.IH[OF bl1'(2) bl1(2)] b bl1'(1) show ?case by simp
qed simp

lemma liveView_equiv: "levelsEquiv lvs lvs' \<Longrightarrow> liveView lvs = liveView lvs'"
proof -
  assume "levelsEquiv lvs lvs'"
  then have "maps lvs = maps lvs'"
    unfolding maps_def by (induction rule: list_all2_induct) (simp_all add: levelEquiv_def)
  then show ?thesis by (simp add: liveView_def[abs_def])
qed

section \<open>Forgetting buckets\<close>

lemma referencedHashes_level:
  "referencedHashes bl is = Inr hs \<Longrightarrow> i \<in> set is \<Longrightarrow> i < length (mLevels bl) \<Longrightarrow>
    mHash (mCurr (mLevels bl ! i)) \<in> set hs \<and> mHash (mSnap (mLevels bl ! i)) \<in> set hs \<and>
    (\<exists>bins. binHashes (getHashes (mNextCurr (mLevels bl ! i))) = Inr bins \<and> set bins \<subseteq> set hs)"
  by (induction "is" arbitrary: hs) (fastforce simp: bindE_Inr_iff getLevel_def)+

lemma binHashes_mem: "binHashes hs = Inr bins \<Longrightarrow> h \<in> set hs \<Longrightarrow> \<exists>bin\<in>set bins. hexToBin256 h = Inr bin"
  by (induction hs arbitrary: bins) (fastforce simp: bindE_Inr_iff)+

lemma map_of_filter_keys: "map_of (filter (\<lambda>(k, v). k \<notin> D) m) k = (if k \<in> D then None else map_of m k)"
  by (induction m) auto

lemma forget_found:
  assumes "forgetUnreferencedBuckets publishQueue inUse bm = Inr bm'"
  shows "\<exists>levels pub. referencedHashes (mBucketList bm) [0..<kNumLevels] = Inr levels \<and> binHashes publishQueue = Inr pub \<and>
    mBucketList bm' = mBucketList bm \<and>
    (\<forall>h\<in>set levels \<union> set pub \<union> {h. inUse h}. fst (getBucketByHash h bm') = fst (getBucketByHash h bm))"
proof -
  obtain levels pub where r: "referencedHashes (mBucketList bm) [0..<kNumLevels] = Inr levels" "binHashes publishQueue = Inr pub"
    using assms by (auto simp: forgetUnreferencedBuckets_def bindE_Inr_iff)
  define D where "D = set (filter (\<lambda>h. h \<notin> set (levels @ pub) \<and> \<not> inUse h) (map fst (mSharedBuckets bm)))"
  have bm': "bm' = bm\<lparr>mSharedBuckets := filter (\<lambda>(h, b). h \<notin> D) (mSharedBuckets bm),
      bucketFiles := filter (\<lambda>(h, es). h \<notin> D) (bucketFiles bm)\<rparr>"
    using assms r by (simp add: forgetUnreferencedBuckets_def D_def)
  have "h \<notin> D" if "h \<in> set levels \<union> set pub \<union> {h. inUse h}" for h using that by (auto simp: D_def)
  then have "\<forall>h\<in>set levels \<union> set pub \<union> {h. inUse h}. fst (getBucketByHash h bm') = fst (getBucketByHash h bm)"
    unfolding bm' by (auto simp: getBucketByHash_def map_of_filter_keys Let_def split: option.splits)
  moreover have "mBucketList bm' = mBucketList bm" using bm' by simp
  ultimately show ?thesis using r by blast
qed

definition demoDead :: "nat Bucket" where
  "demoDead = mkBucket demoContext [DEADENTRY (demoKey (BalanceId ''a''))]"

section \<open>Properties\<close>

text \<open>C6. Restarting a node does not change what its bucket list does: the list rebuilt from the stored
  state takes any further batches with the same hashes and the same ledger as the list that was
  stored, whether merges were done or still running, provided the bucket files are there and the
  merges that are run again keep tombstones as before.\<close>

theorem restart_transparent:
  assumes "distinctTypes B" "hashes32 B" "closed B l M bl" "filesPresent ready bl bm" "flagsKept ready u bl"
    "mBucketList bm = mkBucketList v" "addBatches B L' bs bl = Inr r"
  shows "\<exists>bm' r'. restart B ready u L bl bm = Inr bm' \<and> addBatches B L' bs (mBucketList bm') = Inr r' \<and>
    bucketListHash B r' = bucketListHash B r \<and> liveView (mLevels r') = liveView (mLevels r)"
proof -
  obtain bm' where bm': "restart B ready u L bl bm = Inr bm'" "levelsEquiv (mLevels bl) (mLevels (mBucketList bm'))"
    using restart_equiv[OF assms(1-6)] by blast
  obtain r' where "addBatches B L' bs (mBucketList bm') = Inr r'" "levelsEquiv (mLevels r) (mLevels r')"
    using addBatches_equiv[OF bm'(2) assms(7)] by blast
  then show ?thesis using bm'(1) bucketListHash_equiv[of r r' B] liveView_equiv[of "mLevels r" "mLevels r'"] by auto
qed

theorem restart_transparent_witness:
  "\<exists>bm'. restart demoContext (\<lambda>_. True) (\<lambda>_. False) 0 (mkBucketList True)
     \<lparr>mSharedBuckets = [], bucketFiles = [], mBucketList = mkBucketList False\<rparr> = Inr bm'"
proof -
  let ?bm = "\<lparr>mSharedBuckets = [], bucketFiles = [], mBucketList = mkBucketList False\<rparr> :: nat BucketManager"
  have empty: "fst (getBucketByHash (mHash (emptyBucket :: nat Bucket)) ?bm) = Some emptyBucket"
    by (simp add: getBucketByHash_def isZero_def emptyBucket_def zeroHash_def list_all_iff)
  have lv: "mLevels (mkBucketList True) ! i = mkBucketLevel True i" if "i < 11" for i
    using that by (simp add: mkBucketList_def kNumLevels_def del: upt.simps)
  have "filesPresent (\<lambda>_. True) (mkBucketList True) ?bm"
    using empty by (simp add: filesPresent_def kNumLevels_def lv neededBy_def mkBucketLevel_def clearFutureBucket_def isMerging_def)
  moreover have "flagsKept (\<lambda>_. True) (\<lambda>_. False) (mkBucketList True)" by (simp add: flagsKept_def)
  ultimately show ?thesis
    using restart_transparent[OF distinct_demo hashes32_demo closed.start, of "\<lambda>_. True" True ?bm "\<lambda>_. False" False 1 "[]"] by auto
qed

text \<open>C33. The flag that tells a merge to drop tombstones is neither stored nor set when a merge is read
  back: a merge into the last level that was still running is run again with whatever the memory
  held, and may give a bucket with the tombstones that the other nodes do not have.\<close>

theorem restarted_merge_differs:
  "\<exists>fb ar fb1 fb2 b b2 x y.
     mkFutureBucket demoContext emptyBucket demoDead [] False = Inr fb \<and> resolve fb = Inr (b, x) \<and> bucketEntries b = [] \<and>
     fb_save fb = Inr ar \<and> fb_load ar (clearFutureBucket True) = Inr fb1 \<and>
     makeLive demoContext (\<lambda>h. if isZero h then Some emptyBucket else Some demoDead) fb1 = Inr fb2 \<and>
     resolve fb2 = Inr (b2, y) \<and> bucketEntries b2 = bucketEntries demoDead"
proof -
  let ?look = "\<lambda>h. if isZero h then Some emptyBucket else Some demoDead"
  have h: "hash32 (emptyBucket :: nat Bucket)" "hash32 demoDead" "\<forall>b\<in>set ([] :: nat Bucket list). hash32 b"
    by (simp_all add: demoDead_def)
  have found: "?look (mHash (emptyBucket :: nat Bucket)) = Some emptyBucket" "?look (mHash demoDead) = Some demoDead"
    "\<forall>b\<in>set []. ?look (mHash b) = Some b"
    by (simp_all add: isZero_def emptyBucket_def zeroHash_def list_all_iff demoDead_def mkBucket_def demoContext_def char_of_eq_iff)
  have m: "merge demoContext emptyBucket demoDead [] keep = Inr (if keep then demoDead else emptyBucket)" for keep
    by (simp add: merge_def demoDead_def mkBucket_def emptyBucket_def maybe_put_def put_def mkOutputIterator_def
        isDead_def getBucket_def demoContext_def zeroHash_def)
  note start = mkFutureBucket_merging[OF h, of demoContext]
  obtain x where x: "resolve (merging demoContext emptyBucket demoDead [] False) = Inr (emptyBucket, x)"
    using resolve_merging[OF h, of demoContext False emptyBucket] m by auto
  obtain y where y: "resolve (merging demoContext emptyBucket demoDead [] True) = Inr (demoDead, y)"
    using resolve_merging[OF h, of demoContext True demoDead] m h by auto
  have save: "\<exists>ar. fb_save (merging demoContext emptyBucket demoDead [] False) = Inr ar \<and>
      fb_load ar (clearFutureBucket True) = Inr (hashedInputs emptyBucket demoDead [] True)"
    using stored_running(1)[OF h, of demoContext False] stored_running(2)[OF h, of True] by (auto simp: stored_def)
  have "makeLive demoContext ?look (hashedInputs emptyBucket demoDead [] True) = Inr (merging demoContext emptyBucket demoDead [] True)"
    using revived_running[OF h found, of demoContext True]
    by (simp add: revived_def hasHashes_def isLive_def hashedInputs_def)
  moreover have "bucketEntries (emptyBucket :: nat Bucket) = []" by (simp add: emptyBucket_def)
  ultimately show ?thesis using start save x y by blast
qed

text \<open>C22. Whatever is forgotten, every bucket a level of the list refers to, as its current or snapshotted
  bucket or as an input or output of its merge, is found as before.\<close>

theorem forget_keeps_referenced:
  assumes "forgetUnreferencedBuckets publishQueue inUse bm = Inr bm'" "i < kNumLevels"
    "length (mLevels (mBucketList bm)) = kNumLevels"
  shows "let level = mLevels (mBucketList bm) ! i in
    mBucketList bm' = mBucketList bm \<and>
    (\<forall>h\<in>{mHash (mCurr level), mHash (mSnap level)} \<union> {h. \<exists>hex\<in>set (getHashes (mNextCurr level)). hexToBin256 hex = Inr h}.
       fst (getBucketByHash h bm') = fst (getBucketByHash h bm))"
proof -
  let ?level = "mLevels (mBucketList bm) ! i"
  obtain levels pub where r: "referencedHashes (mBucketList bm) [0..<kNumLevels] = Inr levels"
    "mBucketList bm' = mBucketList bm" "\<forall>h\<in>set levels. fst (getBucketByHash h bm') = fst (getBucketByHash h bm)"
    using forget_found[OF assms(1)] by blast
  obtain bins where bins: "mHash (mCurr ?level) \<in> set levels" "mHash (mSnap ?level) \<in> set levels"
    "binHashes (getHashes (mNextCurr ?level)) = Inr bins" "set bins \<subseteq> set levels"
    using referencedHashes_level[OF r(1), of i] assms(2,3) by auto
  have "h \<in> set levels" if "hex \<in> set (getHashes (mNextCurr ?level))" "hexToBin256 hex = Inr h" for h hex
    using binHashes_mem[OF bins(3) that(1)] that(2) bins(4) by auto
  then show ?thesis using r(2,3) bins(1,2) by (auto simp: Let_def)
qed

theorem forget_keeps_referenced_witness:
  "\<exists>bm'. forgetUnreferencedBuckets [] (\<lambda>_. False)
      \<lparr>mSharedBuckets = [(mHash demoDead, demoDead)], bucketFiles = [], mBucketList = mkBucketList False\<rparr> = Inr bm' \<and>
     fst (getBucketByHash (mHash (emptyBucket :: nat Bucket)) bm') = Some emptyBucket"
proof -
  let ?bm = "\<lparr>mSharedBuckets = [(mHash demoDead, demoDead)], bucketFiles = [], mBucketList = mkBucketList False\<rparr> :: nat BucketManager"
  obtain bm' where bm': "forgetUnreferencedBuckets [] (\<lambda>_. False) ?bm = Inr bm'"
    by (simp add: forgetUnreferencedBuckets_def mkBucketList_def kNumLevels_def getLevel_def mkBucketLevel_def
        clearFutureBucket_def getHashes_def upt_rec Let_def)
  have "0 < kNumLevels" "length (mLevels (mBucketList ?bm)) = kNumLevels"
    by (simp_all add: kNumLevels_def mkBucketList_def)
  from forget_keeps_referenced[OF bm' this] have "fst (getBucketByHash (mHash (emptyBucket :: nat Bucket)) bm') =
      fst (getBucketByHash (mHash (emptyBucket :: nat Bucket)) ?bm)"
    by (simp add: Let_def mkBucketList_def mkBucketLevel_def kNumLevels_def del: upt.simps)
  then show ?thesis
    using bm' by (simp add: getBucketByHash_def isZero_def emptyBucket_def zeroHash_def list_all_iff)
qed

end
