(* ===== verification/LedgerDeltaCorrect.thy ===== *)
theory LedgerDeltaCorrect
  imports LedgerDelta BucketListRefines
begin

text \<open>
  What the record of changes promises: the live and the dead entries a delta reports are exactly the
  difference between the ledger it was opened on and the ledger after the changes it was told of,
  nested deltas that commit included; and its assertions hold as long as entries are created only when
  absent and changed or deleted only when present.
\<close>

section \<open>Ordered maps\<close>

definition keyMapOk :: "(LedgerEntryType \<Rightarrow> int) \<Rightarrow> 'v keyMap \<Rightarrow> bool" where
  "keyMapOk enum m \<longleftrightarrow>
     sorted_wrt (\<lambda>p q. idkey enum (keyId (fst p)) < idkey enum (keyId (fst q))) m \<and>
     (\<forall>p\<in>set m. known (keyId (fst p)))"

definition at :: "'v keyMap \<Rightarrow> LedgerId \<rightharpoonup> 'v" where
  "at m = map_of (map (\<lambda>(k, v). (keyId k, v)) m)"

lemma at_simps [simp]:
  "at [] = Map.empty"
  "at ((k, v) # m) = (at m)(keyId k \<mapsto> v)"
  by (simp_all add: at_def)

lemma keyMapOk_simps [simp]:
  "keyMapOk enum []"
  "keyMapOk enum ((k, v) # m) \<longleftrightarrow> known (keyId k) \<and> keyMapOk enum m \<and>
     (\<forall>p\<in>set m. idkey enum (keyId k) < idkey enum (keyId (fst p)))"
  by (auto simp: keyMapOk_def)

lemma at_above: "(\<forall>p\<in>set m. idkey enum i < idkey enum (keyId (fst p))) \<Longrightarrow> at m i = None"
  by (induction m) auto

lemma at_mem: "(k, v) \<in> set m \<Longrightarrow> keyMapOk enum m \<Longrightarrow> at m (keyId k) = Some v"
  by (induction m) fastforce+

lemma at_dom: "at m i \<noteq> None \<longleftrightarrow> i \<in> (keyId \<circ> fst) ` set m"
  by (induction m) auto

lemma keyFind_at:
  assumes "inj enum" "known (keyId k)"
  shows "keyMapOk enum m \<Longrightarrow> keyFind enum k m = Inr (at m (keyId k))"
proof (induction m)
  case (Cons p m)
  obtain k' v where p: "p = (k', v)" by force
  note cmp = LedgerEntryIdCmp_idkey[OF assms(1)]
  show ?case
  proof (cases "idkey enum (keyId k') < idkey enum (keyId k)")
    case True
    then have "keyId k' \<noteq> keyId k" by auto
    with True show ?thesis using Cons p by (simp add: cmp assms)
  next
    case False
    have "at m (keyId k) = None" if "idkey enum (keyId k) < idkey enum (keyId k')"
      by (rule at_above[where enum = enum]) (use that Cons.prems p in auto)
    moreover have "keyId k = keyId k'" if "\<not> idkey enum (keyId k) < idkey enum (keyId k')"
      using that False assms(1) by (intro idkey_inj[of enum]) simp_all
    ultimately show ?thesis using False Cons.prems p by (auto simp: cmp assms)
  qed
qed simp

lemma keyPut_at:
  assumes "inj enum" "known (keyId k)"
  shows "keyMapOk enum m \<Longrightarrow> \<exists>m'. keyPut enum k v m = Inr m' \<and> keyMapOk enum m' \<and>
    at m' = (at m)(keyId k \<mapsto> v) \<and>
    (\<forall>p\<in>set m'. p \<in> set m \<or> keyId (fst p) = keyId k \<and> snd p = v)"
proof (induction m)
  case (Cons p m)
  obtain k' v' where p: "p = (k', v')" by force
  note cmp = LedgerEntryIdCmp_idkey[OF assms(1)]
  show ?case
  proof (cases "idkey enum (keyId k') < idkey enum (keyId k)")
    case True
    have ok: "keyMapOk enum m" using Cons.prems p by simp
    obtain m' where m': "keyPut enum k v m = Inr m'" "keyMapOk enum m'" "at m' = (at m)(keyId k \<mapsto> v)"
      "\<forall>p\<in>set m'. p \<in> set m \<or> keyId (fst p) = keyId k \<and> snd p = v"
      using Cons.IH ok by blast
    have "\<forall>q\<in>set m'. idkey enum (keyId k') < idkey enum (keyId (fst q))"
      using m'(4) True Cons.prems p by auto
    moreover have "keyId k' \<noteq> keyId k" using True by auto
    ultimately show ?thesis using True m' Cons.prems p by (auto simp: cmp assms fun_upd_twist)
  next
    case False
    have "keyId k = keyId k'" if "\<not> idkey enum (keyId k) < idkey enum (keyId k')"
      using that False assms(1) by (intro idkey_inj[of enum]) simp_all
    then show ?thesis using False Cons.prems p assms(2) by (auto simp: cmp assms)
  qed
qed (simp add: assms)

lemma keyErase_at:
  assumes "inj enum" "known (keyId k)"
  shows "keyMapOk enum m \<Longrightarrow> \<exists>m'. keyErase enum k m = Inr m' \<and> keyMapOk enum m' \<and>
    at m' = (at m)(keyId k := None) \<and> set m' \<subseteq> set m"
proof (induction m)
  case (Cons p m)
  obtain k' v' where p: "p = (k', v')" by force
  note cmp = LedgerEntryIdCmp_idkey[OF assms(1)]
  show ?case
  proof (cases "idkey enum (keyId k') < idkey enum (keyId k)")
    case True
    have ok: "keyMapOk enum m" using Cons.prems p by simp
    obtain m' where m': "keyErase enum k m = Inr m'" "keyMapOk enum m'" "at m' = (at m)(keyId k := None)"
      "set m' \<subseteq> set m"
      using Cons.IH ok by blast
    have "\<forall>q\<in>set m'. idkey enum (keyId k') < idkey enum (keyId (fst q))"
      using m'(4) Cons.prems p by auto
    moreover have "keyId k' \<noteq> keyId k" using True by auto
    ultimately show ?thesis using True m' Cons.prems p by (auto simp: cmp assms fun_upd_twist)
  next
    case False
    have none: "at m (keyId k) = None" if "idkey enum (keyId k) \<le> idkey enum (keyId k')"
      by (rule at_above[where enum = enum]) (use that Cons.prems p in auto)
    have "keyId k = keyId k'" if "\<not> idkey enum (keyId k) < idkey enum (keyId k')"
      using that False assms(1) by (intro idkey_inj[of enum]) simp_all
    moreover have "keyId k \<noteq> keyId k'" if "idkey enum (keyId k) < idkey enum (keyId k')" using that by auto
    moreover have "at m (keyId k) = None" using none False by auto
    ultimately show ?thesis using False Cons.prems p by (auto simp: cmp assms fun_eq_iff)
  qed
qed simp

section \<open>The ledger after the changes\<close>

text \<open>The ledger a delta stands for, on top of the ledger \<open>M\<close> it was opened on.\<close>

definition view_delta :: "'b LedgerDelta \<Rightarrow> (LedgerId \<rightharpoonup> 'b LedgerEntry) \<Rightarrow> LedgerId \<rightharpoonup> 'b LedgerEntry" where
  "view_delta d M i =
     (if at (mDelete d) i \<noteq> None then None
      else case at (mNew d) i of Some e \<Rightarrow> Some e
         | None \<Rightarrow> (case at (mMod d) i of Some e \<Rightarrow> Some e | None \<Rightarrow> M i))"

definition entriesAt :: "'b LedgerEntry keyMap \<Rightarrow> bool" where
  "entriesAt m \<longleftrightarrow> (\<forall>p\<in>set m. entryId (snd p) = keyId (fst p))"

text \<open>Created, changed and deleted entries are disjoint; entries are created only where the ledger has
  none and changed or deleted only where it has one.\<close>

definition deltaOk :: "(LedgerEntryType \<Rightarrow> int) \<Rightarrow> (LedgerId \<rightharpoonup> 'b LedgerEntry) \<Rightarrow> 'b LedgerDelta \<Rightarrow> bool" where
  "deltaOk enum M d \<longleftrightarrow>
     keyMapOk enum (mNew d) \<and> keyMapOk enum (mMod d) \<and> keyMapOk enum (mDelete d) \<and> keyMapOk enum (mPrevious d) \<and>
     entriesAt (mNew d) \<and> entriesAt (mMod d) \<and> entriesAt (mPrevious d) \<and>
     (\<forall>i. (at (mNew d) i \<noteq> None \<longrightarrow> M i = None) \<and> (at (mDelete d) i \<noteq> None \<longrightarrow> M i \<noteq> None) \<and>
          (at (mMod d) i \<noteq> None \<longrightarrow> M i \<noteq> None \<and> at (mDelete d) i = None))"

lemma deltaOk_empty: "deltaOk enum M (mkLedgerDelta h u)"
  by (simp add: deltaOk_def mkLedgerDelta_def entriesAt_def)

lemma view_delta_empty [simp]: "view_delta (mkLedgerDelta h u) M = M"
  by (simp add: fun_eq_iff view_delta_def mkLedgerDelta_def)

lemma view_delta_None:
  assumes "view_delta d M i = None" "deltaOk enum M d"
  shows "at (mNew d) i = None" "at (mMod d) i = None" "at (mDelete d) i = None \<Longrightarrow> M i = None"
  using assms by (force simp: view_delta_def deltaOk_def split: if_splits option.splits)+

lemma view_delta_Some:
  assumes "view_delta d M i = Some e" "deltaOk enum M d"
  shows "at (mDelete d) i = None" "at (mNew d) i = None \<Longrightarrow> M i \<noteq> None"
  using assms by (force simp: view_delta_def deltaOk_def split: if_splits option.splits)+

lemma entriesAt_sub: "entriesAt m \<Longrightarrow> set m' \<subseteq> set m \<Longrightarrow> entriesAt m'"
  by (auto simp: entriesAt_def)

lemma entriesAt_put:
  "entriesAt m \<Longrightarrow> \<forall>p\<in>set m'. p \<in> set m \<or> keyId (fst p) = entryId e \<and> snd p = e \<Longrightarrow> entriesAt m'"
  by (auto simp: entriesAt_def)

section \<open>Operations\<close>

text \<open>What every change of a delta leaves alone.\<close>

definition frame_delta :: "'b LedgerDelta \<Rightarrow> 'b LedgerDelta \<Rightarrow> bool" where
  "frame_delta d d' \<longleftrightarrow> mHeaderSet d' = mHeaderSet d \<and> mCurrentHeader d' = mCurrentHeader d \<and>
     mPreviousHeaderValue d' = mPreviousHeaderValue d \<and> mUpdateLastModified d' = mUpdateLastModified d"

lemma frame_delta_refl [simp]: "frame_delta d d"
  by (simp add: frame_delta_def)

lemma frame_delta_trans: "frame_delta a b \<Longrightarrow> frame_delta b c \<Longrightarrow> frame_delta a c"
  by (simp add: frame_delta_def)

lemma addEntry_ok:
  assumes "inj enum" "deltaOk enum M d" "mHeaderSet d" "known (entryId e)" "view_delta d M (entryId e) = None"
  shows "\<exists>d'. addEntry enum e d = Inr d' \<and> deltaOk enum M d' \<and> frame_delta d d' \<and>
    view_delta d' M = (view_delta d M)(entryId e \<mapsto> e)"
proof -
  let ?i = "entryId e"
  have ok: "keyMapOk enum (mNew d)" "keyMapOk enum (mMod d)" "keyMapOk enum (mDelete d)"
    "entriesAt (mNew d)" "entriesAt (mMod d)"
    using assms(2) by (simp_all add: deltaOk_def)
  note free = view_delta_None[OF assms(5,2)]
  note find = keyFind_at[OF assms(1,4)]
  have key: "LedgerEntryKey e = Inr (entryKey e)" using assms(4) by (simp add: LedgerEntryKey_def known_def)
  obtain n where n: "keyPut enum (entryKey e) e (mNew d) = Inr n" "keyMapOk enum n" "at n = (at (mNew d))(?i \<mapsto> e)"
    "\<forall>p\<in>set n. p \<in> set (mNew d) \<or> keyId (fst p) = ?i \<and> snd p = e"
    using keyPut_at[OF assms(1,4) ok(1)] by blast
  obtain m where m: "keyPut enum (entryKey e) e (mMod d) = Inr m" "keyMapOk enum m" "at m = (at (mMod d))(?i \<mapsto> e)"
    "\<forall>p\<in>set m. p \<in> set (mMod d) \<or> keyId (fst p) = ?i \<and> snd p = e"
    using keyPut_at[OF assms(1,4) ok(2)] by blast
  obtain x where x: "keyErase enum (entryKey e) (mDelete d) = Inr x" "keyMapOk enum x" "at x = (at (mDelete d))(?i := None)"
    using keyErase_at[OF assms(1,4) ok(3)] by blast
  have es: "entriesAt n" "entriesAt m"
    using entriesAt_put[OF ok(4) n(4)] entriesAt_put[OF ok(5) m(4)] by simp_all
  show ?thesis
  proof (cases "at (mDelete d) ?i")
    case None
    then have "addEntry enum e d = Inr (d\<lparr>mNew := n, mAllChanges := mAllChanges d @ [CREATED e]\<rparr>)"
      using assms(3) free key by (simp add: addEntry_def delta_checkState_def find ok n assertE_def)
    then show ?thesis
      using assms(2) None free es n(2,3)
      by (auto simp: deltaOk_def frame_delta_def view_delta_def fun_eq_iff cong: option.case_cong)
  next
    case (Some u)
    then have "addEntry enum e d = Inr (d\<lparr>mDelete := x, mMod := m, mAllChanges := mAllChanges d @ [CREATED e]\<rparr>)"
      using assms(3) key by (simp add: addEntry_def delta_checkState_def find ok m x)
    then show ?thesis
      using assms(2) Some free es m(2,3) x(2,3)
      by (auto simp: deltaOk_def frame_delta_def view_delta_def fun_eq_iff cong: option.case_cong)
  qed
qed

lemma modEntry_ok:
  assumes "inj enum" "deltaOk enum M d" "mHeaderSet d" "known (entryId e)" "view_delta d M (entryId e) \<noteq> None"
  shows "\<exists>d'. modEntry enum e d = Inr d' \<and> deltaOk enum M d' \<and> frame_delta d d' \<and>
    view_delta d' M = (view_delta d M)(entryId e \<mapsto> e)"
proof -
  let ?i = "entryId e"
  have ok: "keyMapOk enum (mNew d)" "keyMapOk enum (mMod d)" "keyMapOk enum (mDelete d)"
    "entriesAt (mNew d)" "entriesAt (mMod d)"
    using assms(2) by (simp_all add: deltaOk_def)
  have free: "at (mDelete d) ?i = None" "at (mNew d) ?i = None \<Longrightarrow> M ?i \<noteq> None"
    using view_delta_Some[OF _ assms(2), of ?i] assms(5) by auto
  note find = keyFind_at[OF assms(1,4)]
  have key: "LedgerEntryKey e = Inr (entryKey e)" using assms(4) by (simp add: LedgerEntryKey_def known_def)
  obtain n where n: "keyPut enum (entryKey e) e (mNew d) = Inr n" "keyMapOk enum n" "at n = (at (mNew d))(?i \<mapsto> e)"
    "\<forall>p\<in>set n. p \<in> set (mNew d) \<or> keyId (fst p) = ?i \<and> snd p = e"
    using keyPut_at[OF assms(1,4) ok(1)] by blast
  obtain m where m: "keyPut enum (entryKey e) e (mMod d) = Inr m" "keyMapOk enum m" "at m = (at (mMod d))(?i \<mapsto> e)"
    "\<forall>p\<in>set m. p \<in> set (mMod d) \<or> keyId (fst p) = ?i \<and> snd p = e"
    using keyPut_at[OF assms(1,4) ok(2)] by blast
  have es: "entriesAt n" "entriesAt m"
    using entriesAt_put[OF ok(4) n(4)] entriesAt_put[OF ok(5) m(4)] by simp_all
  show ?thesis
  proof (cases "at (mMod d) ?i = None \<and> at (mNew d) ?i \<noteq> None")
    case True
    then have "modEntry enum e d = Inr (d\<lparr>mNew := n, mAllChanges := mAllChanges d @ [UPDATED e]\<rparr>)"
      using assms(3) key by (auto simp: modEntry_def delta_checkState_def find ok n)
    then show ?thesis
      using assms(2) True free es n(2,3)
      by (auto simp: deltaOk_def frame_delta_def view_delta_def fun_eq_iff cong: option.case_cong)
  next
    case False
    then have "modEntry enum e d = Inr (d\<lparr>mMod := m, mAllChanges := mAllChanges d @ [UPDATED e]\<rparr>)"
      using assms(3) key free by (auto simp: modEntry_def delta_checkState_def find ok m assertE_def)
    moreover have "at (mNew d) ?i = None" using False assms(2) by (force simp: deltaOk_def)
    ultimately show ?thesis
      using assms(2) free es m(2,3)
      by (auto simp: deltaOk_def frame_delta_def view_delta_def fun_eq_iff cong: option.case_cong)
  qed
qed

lemma deleteEntry_ok:
  assumes "inj enum" "deltaOk enum M d" "mHeaderSet d" "known (keyId k)" "view_delta d M (keyId k) \<noteq> None"
  shows "\<exists>d'. deleteEntry enum k d = Inr d' \<and> deltaOk enum M d' \<and> frame_delta d d' \<and>
    view_delta d' M = (view_delta d M)(keyId k := None)"
proof -
  let ?i = "keyId k"
  have ok: "keyMapOk enum (mNew d)" "keyMapOk enum (mMod d)" "keyMapOk enum (mDelete d)"
    "entriesAt (mNew d)" "entriesAt (mMod d)"
    using assms(2) by (simp_all add: deltaOk_def)
  have free: "at (mDelete d) ?i = None" "at (mNew d) ?i = None \<Longrightarrow> M ?i \<noteq> None"
    using view_delta_Some[OF _ assms(2), of ?i] assms(5) by auto
  note find = keyFind_at[OF assms(1,4)]
  obtain n where n: "keyErase enum k (mNew d) = Inr n" "keyMapOk enum n" "at n = (at (mNew d))(?i := None)" "set n \<subseteq> set (mNew d)"
    using keyErase_at[OF assms(1,4) ok(1)] by blast
  obtain m where m: "keyErase enum k (mMod d) = Inr m" "keyMapOk enum m" "at m = (at (mMod d))(?i := None)" "set m \<subseteq> set (mMod d)"
    using keyErase_at[OF assms(1,4) ok(2)] by blast
  obtain x where x: "keyPut enum k () (mDelete d) = Inr x" "keyMapOk enum x" "at x = (at (mDelete d))(?i \<mapsto> ())"
    using keyPut_at[OF assms(1,4) ok(3)] by blast
  have es: "entriesAt n" "entriesAt m"
    using entriesAt_sub[OF ok(4) n(4)] entriesAt_sub[OF ok(5) m(4)] by simp_all
  show ?thesis
  proof (cases "at (mNew d) ?i")
    case (Some u)
    then have "deleteEntry enum k d = Inr (d\<lparr>mNew := n, mAllChanges := mAllChanges d @ [REMOVED k]\<rparr>)"
      using assms(3) by (simp add: deleteEntry_def delta_checkState_def find ok n)
    moreover have "M ?i = None" "at (mMod d) ?i = None" using Some assms(2) by (force simp: deltaOk_def)+
    ultimately show ?thesis
      using assms(2) free es n(2,3)
      by (auto simp: deltaOk_def frame_delta_def view_delta_def fun_eq_iff cong: option.case_cong)
  next
    case None
    then have "deleteEntry enum k d = Inr (d\<lparr>mDelete := x, mMod := m, mAllChanges := mAllChanges d @ [REMOVED k]\<rparr>)"
      using assms(3) free by (simp add: deleteEntry_def delta_checkState_def find ok m x)
    then show ?thesis
      using assms(2) None free es m(2,3) x(2,3)
      by (auto simp: deltaOk_def frame_delta_def view_delta_def fun_eq_iff cong: option.case_cong)
  qed
qed

lemma recordEntry_ok:
  assumes "inj enum" "deltaOk enum M d" "mHeaderSet d" "known (entryId e)"
  shows "\<exists>d'. recordEntry enum e d = Inr d' \<and> deltaOk enum M d' \<and> frame_delta d d' \<and> view_delta d' M = view_delta d M"
proof -
  have ok: "keyMapOk enum (mPrevious d)" "entriesAt (mPrevious d)"
    using assms(2) by (simp_all add: deltaOk_def)
  have key: "LedgerEntryKey e = Inr (entryKey e)" using assms(4) by (simp add: LedgerEntryKey_def known_def)
  obtain p where p: "keyPut enum (entryKey e) e (mPrevious d) = Inr p" "keyMapOk enum p"
    "\<forall>q\<in>set p. q \<in> set (mPrevious d) \<or> keyId (fst q) = entryId e \<and> snd q = e"
    using keyPut_at[OF assms(1,4) ok(1)] by blast
  have "entriesAt p" by (rule entriesAt_put[OF ok(2) p(3)])
  then show ?thesis
    using assms(2,3) p(1,2) key
    by (auto simp: recordEntry_def delta_checkState_def keyFind_at[OF assms(1,4) ok(1)]
        deltaOk_def frame_delta_def view_delta_def fun_eq_iff cong: option.case_cong)
qed

section \<open>Merging\<close>

lemma at_entry: "entriesAt m \<Longrightarrow> at m i = Some e \<Longrightarrow> entryId e = i"
  by (induction m) (auto simp: entriesAt_def split: if_splits)

lemma recordPrevious_ok:
  assumes "inj enum" "deltaOk enum M d" "mHeaderSet d" "known (keyId k)" "deltaOk enum V other"
  shows "\<exists>d'. recordPrevious enum k other d = Inr d' \<and> deltaOk enum M d' \<and> frame_delta d d' \<and> view_delta d' M = view_delta d M"
proof -
  have ok: "keyMapOk enum (mPrevious other)" "entriesAt (mPrevious other)"
    using assms(5) by (simp_all add: deltaOk_def)
  show ?thesis
  proof (cases "at (mPrevious other) (keyId k)")
    case None
    then show ?thesis using assms(2) by (simp add: recordPrevious_def keyFind_at[OF assms(1,4) ok(1)])
  next
    case (Some e)
    then have "known (entryId e)" using at_entry[OF ok(2)] assms(4) by auto
    from recordEntry_ok[OF assms(1-3) this] Some show ?thesis
      by (simp add: recordPrevious_def keyFind_at[OF assms(1,4) ok(1)])
  qed
qed

lemma keyMapOk_distinct: "keyMapOk enum ((k, v) # m) \<Longrightarrow> at m (keyId k) = None"
  by (rule at_above[where enum = enum]) simp

lemma mergeDeleted_ok:
  assumes "inj enum" "deltaOk enum V other"
  shows "keyMapOk enum ks \<Longrightarrow> deltaOk enum M d \<Longrightarrow> mHeaderSet d \<Longrightarrow>
    \<forall>i. at ks i \<noteq> None \<longrightarrow> view_delta d M i \<noteq> None \<Longrightarrow>
    \<exists>d'. mergeDeleted enum other ks d = Inr d' \<and> deltaOk enum M d' \<and> frame_delta d d' \<and>
      view_delta d' M = (\<lambda>i. if at ks i \<noteq> None then None else view_delta d M i)"
proof (induction ks arbitrary: d)
  case (Cons p ks)
  obtain k where p: "p = (k, ())" by (cases p) auto
  have k: "known (keyId k)" "keyMapOk enum ks" "at ks (keyId k) = None"
    using Cons.prems(1) keyMapOk_distinct[of enum k "()" ks] p by simp_all
  have "view_delta d M (keyId k) \<noteq> None" using Cons.prems(4) p by simp
  from deleteEntry_ok[OF assms(1) Cons.prems(2,3) k(1) this] obtain d1 where
    d1: "deleteEntry enum k d = Inr d1" "deltaOk enum M d1" "frame_delta d d1"
      "view_delta d1 M = (view_delta d M)(keyId k := None)" by blast
  have "mHeaderSet d1" using d1(3) Cons.prems(3) by (simp add: frame_delta_def)
  from recordPrevious_ok[OF assms(1) d1(2) this k(1) assms(2)] obtain d2 where
    d2: "recordPrevious enum k other d1 = Inr d2" "deltaOk enum M d2" "frame_delta d1 d2" "view_delta d2 M = view_delta d1 M"
    by blast
  have "mHeaderSet d2" using d1(3) d2(3) Cons.prems(3) by (simp add: frame_delta_def)
  moreover have "\<forall>i. at ks i \<noteq> None \<longrightarrow> view_delta d2 M i \<noteq> None"
    using Cons.prems(4) p k(3) d1(4) d2(4) by auto
  ultimately obtain d3 where d3: "mergeDeleted enum other ks d2 = Inr d3" "deltaOk enum M d3" "frame_delta d2 d3"
      "view_delta d3 M = (\<lambda>i. if at ks i \<noteq> None then None else view_delta d2 M i)"
    using Cons.IH[OF k(2) d2(2)] by blast
  have "frame_delta d d3" using d1(3) d2(3) d3(3) frame_delta_trans by blast
  then show ?case using p d1 d2 d3 by (auto simp: fun_eq_iff)
qed simp

lemma mergeNew_ok:
  assumes "inj enum"
  shows "keyMapOk enum m \<Longrightarrow> entriesAt m \<Longrightarrow> deltaOk enum M d \<Longrightarrow> mHeaderSet d \<Longrightarrow>
    \<forall>i. at m i \<noteq> None \<longrightarrow> view_delta d M i = None \<Longrightarrow>
    \<exists>d'. mergeNew enum m d = Inr d' \<and> deltaOk enum M d' \<and> frame_delta d d' \<and>
      view_delta d' M = view_delta d M ++ at m"
proof (induction m arbitrary: d)
  case (Cons p m)
  obtain k e where p: "p = (k, e)" by force
  have k: "known (entryId e)" "keyId k = entryId e" "keyMapOk enum m" "entriesAt m" "at m (entryId e) = None"
    using Cons.prems(1,2) keyMapOk_distinct[of enum k e m] p by (auto simp: entriesAt_def)
  have "view_delta d M (entryId e) = None" using Cons.prems(5) p k(2) by simp
  from addEntry_ok[OF assms Cons.prems(3,4) k(1) this] obtain d1 where
    d1: "addEntry enum e d = Inr d1" "deltaOk enum M d1" "frame_delta d d1"
      "view_delta d1 M = (view_delta d M)(entryId e \<mapsto> e)" by blast
  have "mHeaderSet d1" using d1(3) Cons.prems(4) by (simp add: frame_delta_def)
  moreover have "\<forall>i. at m i \<noteq> None \<longrightarrow> view_delta d1 M i = None"
    using Cons.prems(5) p k(5) d1(4) by auto
  ultimately obtain d2 where d2: "mergeNew enum m d1 = Inr d2" "deltaOk enum M d2" "frame_delta d1 d2"
      "view_delta d2 M = view_delta d1 M ++ at m"
    using Cons.IH[OF k(3,4) d1(2)] by blast
  have "frame_delta d d2" using d1(3) d2(3) frame_delta_trans by blast
  then show ?case using p k d1 d2 by (auto simp: fun_eq_iff map_add_def split: option.splits)
qed simp

lemma mergeMod_ok:
  assumes "inj enum" "deltaOk enum V other"
  shows "keyMapOk enum m \<Longrightarrow> entriesAt m \<Longrightarrow> deltaOk enum M d \<Longrightarrow> mHeaderSet d \<Longrightarrow>
    \<forall>i. at m i \<noteq> None \<longrightarrow> view_delta d M i \<noteq> None \<Longrightarrow>
    \<exists>d'. mergeMod enum other m d = Inr d' \<and> deltaOk enum M d' \<and> frame_delta d d' \<and>
      view_delta d' M = view_delta d M ++ at m"
proof (induction m arbitrary: d)
  case (Cons p m)
  obtain k e where p: "p = (k, e)" by force
  have k: "known (entryId e)" "keyId k = entryId e" "keyMapOk enum m" "entriesAt m" "at m (entryId e) = None"
    using Cons.prems(1,2) keyMapOk_distinct[of enum k e m] p by (auto simp: entriesAt_def)
  have "view_delta d M (entryId e) \<noteq> None" using Cons.prems(5) p k(2) by simp
  from modEntry_ok[OF assms(1) Cons.prems(3,4) k(1) this] obtain d1 where
    d1: "modEntry enum e d = Inr d1" "deltaOk enum M d1" "frame_delta d d1"
      "view_delta d1 M = (view_delta d M)(entryId e \<mapsto> e)" by blast
  have "mHeaderSet d1" "known (keyId k)" using d1(3) Cons.prems(4) k by (simp_all add: frame_delta_def)
  from recordPrevious_ok[OF assms(1) d1(2) this assms(2)] obtain d2 where
    d2: "recordPrevious enum k other d1 = Inr d2" "deltaOk enum M d2" "frame_delta d1 d2" "view_delta d2 M = view_delta d1 M"
    by blast
  have "mHeaderSet d2" using d1(3) d2(3) Cons.prems(4) by (simp add: frame_delta_def)
  moreover have "\<forall>i. at m i \<noteq> None \<longrightarrow> view_delta d2 M i \<noteq> None"
    using Cons.prems(5) p d1(4) d2(4) by auto
  ultimately obtain d3 where d3: "mergeMod enum other m d2 = Inr d3" "deltaOk enum M d3" "frame_delta d2 d3"
      "view_delta d3 M = view_delta d2 M ++ at m"
    using Cons.IH[OF k(3,4) d2(2)] by blast
  have "frame_delta d d3" using d1(3) d2(3) d3(3) frame_delta_trans by blast
  then show ?case using p k d1 d2 d3 by (auto simp: fun_eq_iff map_add_def split: option.splits)
qed simp

lemma mergeEntries_ok:
  assumes "inj enum" "deltaOk enum M d" "mHeaderSet d" "deltaOk enum (view_delta d M) other"
  shows "\<exists>d'. mergeEntries enum other d = Inr d' \<and> deltaOk enum M d' \<and> frame_delta d d' \<and>
    view_delta d' M = view_delta other (view_delta d M)"
proof -
  let ?V = "view_delta d M"
  have ok: "keyMapOk enum (mDelete other)" "keyMapOk enum (mNew other)" "keyMapOk enum (mMod other)"
    "entriesAt (mNew other)" "entriesAt (mMod other)"
    using assms(4) by (simp_all add: deltaOk_def)
  have sep: "at (mDelete other) i \<noteq> None \<Longrightarrow> ?V i \<noteq> None" "at (mNew other) i \<noteq> None \<Longrightarrow> ?V i = None"
    "at (mMod other) i \<noteq> None \<Longrightarrow> ?V i \<noteq> None \<and> at (mDelete other) i = None" for i
    using assms(4) by (simp_all add: deltaOk_def)
  obtain d1 where d1: "mergeDeleted enum other (mDelete other) d = Inr d1" "deltaOk enum M d1" "frame_delta d d1"
      "view_delta d1 M = (\<lambda>i. if at (mDelete other) i \<noteq> None then None else ?V i)"
    using mergeDeleted_ok[OF assms(1,4) ok(1) assms(2,3)] sep(1) by blast
  have "mHeaderSet d1" using d1(3) assms(3) by (simp add: frame_delta_def)
  moreover have "\<forall>i. at (mNew other) i \<noteq> None \<longrightarrow> view_delta d1 M i = None" using sep(2) d1(4) by auto
  ultimately obtain d2 where d2: "mergeNew enum (mNew other) d1 = Inr d2" "deltaOk enum M d2" "frame_delta d1 d2"
      "view_delta d2 M = view_delta d1 M ++ at (mNew other)"
    using mergeNew_ok[OF assms(1) ok(2,4) d1(2)] by blast
  have "mHeaderSet d2" using d1(3) d2(3) assms(3) by (simp add: frame_delta_def)
  moreover have "view_delta d2 M i \<noteq> None" if "at (mMod other) i \<noteq> None" for i
    using sep(3)[OF that] d1(4) d2(4) by (auto simp: map_add_def split: option.splits)
  ultimately obtain d3 where d3: "mergeMod enum other (mMod other) d2 = Inr d3" "deltaOk enum M d3" "frame_delta d2 d3"
      "view_delta d3 M = view_delta d2 M ++ at (mMod other)"
    using mergeMod_ok[OF assms(1,4) ok(3,5) d2(2)] by blast
  have "frame_delta d d3" using d1(3) d2(3) d3(3) frame_delta_trans by blast
  moreover have "view_delta d3 M = view_delta other ?V"
  proof
    fix i
    show "view_delta d3 M i = view_delta other ?V i"
      using sep[of i] d1(4) d2(4) d3(4)
      by (cases "at (mMod other) i"; cases "at (mNew other) i") (auto simp: view_delta_def[of other] map_add_def)
  qed
  ultimately show ?thesis
    using assms(3) d1(1) d2(1) d3(1,2) by (simp add: mergeEntries_def delta_checkState_def)
qed

lemma mCurrentHeader_irrelevant [simp]:
  "deltaOk enum M (d\<lparr>mCurrentHeader := h\<rparr>) = deltaOk enum M d"
  "view_delta (d\<lparr>mCurrentHeader := h\<rparr>) M = view_delta d M"
  by (simp_all add: deltaOk_def view_delta_def fun_eq_iff cong: option.case_cong)

lemma delta_commit_ok:
  assumes "inj enum" "deltaOk enum M outer" "mHeaderSet outer" "deltaOk enum (view_delta outer M) d"
    "mHeaderSet d" "mPreviousHeaderValue d = mCurrentHeader outer"
  shows "\<exists>outer'. delta_commit enum d (ToOuter outer) = Inr (d\<lparr>mHeaderSet := False\<rparr>, ToOuter outer') \<and>
    deltaOk enum M outer' \<and> mHeaderSet outer' \<and> view_delta outer' M = view_delta d (view_delta outer M) \<and>
    mCurrentHeader outer' = mCurrentHeader d"
proof -
  obtain o' where o: "mergeEntries enum d outer = Inr o'" "deltaOk enum M o'" "frame_delta outer o'"
    "view_delta o' M = view_delta d (view_delta outer M)"
    using mergeEntries_ok[OF assms(1-4)] by blast
  then show ?thesis
    using assms(3,5,6) o by (simp add: delta_commit_def delta_checkState_def frame_delta_def)
qed

section \<open>Deltas that follow a ledger\<close>

text \<open>\<open>tracks enum M d V\<close>: the delta \<open>d\<close>, opened when the ledger was \<open>M\<close>, has been told of all changes up
  to the ledger \<open>V\<close>. A nested delta is opened on the ledger its outer delta stands for and its header.\<close>

inductive tracks :: "(LedgerEntryType \<Rightarrow> int) \<Rightarrow> (LedgerId \<rightharpoonup> 'b LedgerEntry) \<Rightarrow> 'b LedgerDelta \<Rightarrow>
    (LedgerId \<rightharpoonup> 'b LedgerEntry) \<Rightarrow> bool" for enum where
  opened: "tracks enum M (mkLedgerDelta h u) M"
| created: "tracks enum M d V \<Longrightarrow> V (entryId e) = None \<Longrightarrow> known (entryId e) \<Longrightarrow>
    addEntry enum e d = Inr d' \<Longrightarrow> tracks enum M d' (V(entryId e \<mapsto> e))"
| changed: "tracks enum M d V \<Longrightarrow> V (entryId e) \<noteq> None \<Longrightarrow> known (entryId e) \<Longrightarrow>
    modEntry enum e d = Inr d' \<Longrightarrow> tracks enum M d' (V(entryId e \<mapsto> e))"
| deleted: "tracks enum M d V \<Longrightarrow> V (keyId k) \<noteq> None \<Longrightarrow> known (keyId k) \<Longrightarrow>
    deleteEntry enum k d = Inr d' \<Longrightarrow> tracks enum M d' (V(keyId k := None))"
| recorded: "tracks enum M d V \<Longrightarrow> known (entryId e) \<Longrightarrow> recordEntry enum e d = Inr d' \<Longrightarrow> tracks enum M d' V"
| header: "tracks enum M d V \<Longrightarrow> tracks enum M (d\<lparr>mCurrentHeader := h\<rparr>) V"
| nested: "tracks enum M outer V \<Longrightarrow> tracks enum V d W \<Longrightarrow>
    delta_commit enum d (ToOuter outer) = Inr (d', ToOuter outer') \<Longrightarrow> tracks enum M outer' W"

lemma tracks_inv:
  assumes "inj enum"
  shows "tracks enum M d V \<Longrightarrow> deltaOk enum M d \<and> mHeaderSet d \<and> view_delta d M = V"
proof (induction rule: tracks.induct)
  case (opened M h u)
  show ?case by (simp add: deltaOk_empty) (simp add: mkLedgerDelta_def)
next
  case (created M d V e d')
  then show ?case using addEntry_ok[OF assms, of M d e] by (auto simp: frame_delta_def)
next
  case (changed M d V e d')
  then show ?case using modEntry_ok[OF assms, of M d e] by (auto simp: frame_delta_def)
next
  case (deleted M d V k d')
  then show ?case using deleteEntry_ok[OF assms, of M d k] by (auto simp: frame_delta_def)
next
  case (recorded M d V e d')
  then show ?case using recordEntry_ok[OF assms, of M d e] by (auto simp: frame_delta_def)
next
  case (header M d V h)
  then show ?case by simp
next
  case (nested M outer V d W d' outer')
  have "mPreviousHeaderValue d = mCurrentHeader outer"
    using nested.hyps(3) by (auto simp: delta_commit_def bindE_Inr_iff split: if_splits)
  then show ?case using nested delta_commit_ok[OF assms, of M outer d] by auto
qed

section \<open>The batch of a delta\<close>

lemma entriesAt_ids:
  "entriesAt m \<Longrightarrow> map (\<lambda>e. (entryId e, e)) (map snd m) = map (\<lambda>(k, v). (keyId k, v)) m"
  "entriesAt m \<Longrightarrow> map entryId (map snd m) = map (keyId \<circ> fst) m"
  by (auto simp: entriesAt_def)

lemma keyMapOk_ids: "keyMapOk enum m \<Longrightarrow> distinct (map (keyId \<circ> fst) m)"
  by (induction m) force+

lemma deltaOk_batch:
  assumes "deltaOk enum M d"
  shows "batch (getLiveEntries d) (getDeadEntries d)"
    "applyBatch (getLiveEntries d) (getDeadEntries d) M = view_delta d M"
proof -
  have ok: "keyMapOk enum (mNew d)" "keyMapOk enum (mMod d)" "keyMapOk enum (mDelete d)" "entriesAt (mNew d)" "entriesAt (mMod d)"
    and sep: "\<And>i. at (mNew d) i \<noteq> None \<Longrightarrow> M i = None" "\<And>i. at (mDelete d) i \<noteq> None \<Longrightarrow> M i \<noteq> None"
      "\<And>i. at (mMod d) i \<noteq> None \<Longrightarrow> M i \<noteq> None \<and> at (mDelete d) i = None"
    using assms by (simp_all add: deltaOk_def)
  let ?ids = "\<lambda>m. (keyId \<circ> fst) ` set m"
  have disj: "?ids (mNew d) \<inter> ?ids (mMod d) = {}" "?ids (mNew d) \<inter> ?ids (mDelete d) = {}" "?ids (mMod d) \<inter> ?ids (mDelete d) = {}"
    unfolding disjoint_iff at_dom[symmetric] by (metis sep)+
  have live: "map entryId (getLiveEntries d) = map (keyId \<circ> fst) (mNew d) @ map (keyId \<circ> fst) (mMod d)"
    using entriesAt_ids(2)[OF ok(4)] entriesAt_ids(2)[OF ok(5)] by (simp add: getLiveEntries_def)
  have dead: "map keyId (getDeadEntries d) = map (keyId \<circ> fst) (mDelete d)" by (simp add: getDeadEntries_def)
  have "distinct (map entryId (getLiveEntries d) @ map keyId (getDeadEntries d))"
    unfolding live dead using disj ok(1-3)[THEN keyMapOk_ids] by auto
  moreover have "\<forall>i\<in>set (map entryId (getLiveEntries d) @ map keyId (getDeadEntries d)). known i"
    unfolding live dead using ok(1-3) by (auto simp: keyMapOk_def)
  ultimately show "batch (getLiveEntries d) (getDeadEntries d)" unfolding batch_def by blast
  have of: "map_of (map (\<lambda>e. (entryId e, e)) (getLiveEntries d)) = at (mMod d) ++ at (mNew d)"
    unfolding getLiveEntries_def map_append map_of_append at_def
      entriesAt_ids(1)[OF ok(4)] entriesAt_ids(1)[OF ok(5)] by (rule refl)
  have "i \<in> keyId ` set (getDeadEntries d) \<longleftrightarrow> at (mDelete d) i \<noteq> None" for i
    unfolding at_dom getDeadEntries_def by auto
  then show "applyBatch (getLiveEntries d) (getDeadEntries d) M = view_delta d M"
    by (auto simp: fun_eq_iff applyBatch_def of view_delta_def map_add_def split: option.splits)
qed

lemma tracks_batch:
  assumes "inj enum" "tracks enum M d V"
  shows "batch (getLiveEntries d) (getDeadEntries d)" "applyBatch (getLiveEntries d) (getDeadEntries d) M = V"
  using tracks_inv[OF assms] deltaOk_batch[of enum M d] by auto

lemma tracks_succeeds:
  assumes "inj enum" "tracks enum M d V"
  shows "known (entryId e) \<Longrightarrow> V (entryId e) = None \<Longrightarrow> \<exists>d'. addEntry enum e d = Inr d'"
    "known (entryId e) \<Longrightarrow> V (entryId e) \<noteq> None \<Longrightarrow> \<exists>d'. modEntry enum e d = Inr d'"
    "known (keyId k) \<Longrightarrow> V (keyId k) \<noteq> None \<Longrightarrow> \<exists>d'. deleteEntry enum k d = Inr d'"
    "tracks enum V inner W \<Longrightarrow> mPreviousHeaderValue inner = mCurrentHeader d \<Longrightarrow>
       \<exists>r. delta_commit enum inner (ToOuter d) = Inr r"
proof -
  have d: "deltaOk enum M d" "mHeaderSet d" "view_delta d M = V" using tracks_inv[OF assms] by simp_all
  show "known (entryId e) \<Longrightarrow> V (entryId e) = None \<Longrightarrow> \<exists>d'. addEntry enum e d = Inr d'"
    using addEntry_ok[OF assms(1) d(1,2)] d(3) by blast
  show "known (entryId e) \<Longrightarrow> V (entryId e) \<noteq> None \<Longrightarrow> \<exists>d'. modEntry enum e d = Inr d'"
    using modEntry_ok[OF assms(1) d(1,2)] d(3) by blast
  show "known (keyId k) \<Longrightarrow> V (keyId k) \<noteq> None \<Longrightarrow> \<exists>d'. deleteEntry enum k d = Inr d'"
    using deleteEntry_ok[OF assms(1) d(1,2)] d(3) by blast
  show "tracks enum V inner W \<Longrightarrow> mPreviousHeaderValue inner = mCurrentHeader d \<Longrightarrow>
       \<exists>r. delta_commit enum inner (ToOuter d) = Inr r"
    using delta_commit_ok[OF assms(1) d(1,2)] tracks_inv[OF assms(1), of V inner W] d(3) by blast
qed

text \<open>A delta that has been told of one new balance.\<close>

abbreviation demoHeader :: LedgerHeader where
  "demoHeader \<equiv> \<lparr>ledgerSeq = 1, previousLedgerHash = zeroHash, scpValue = \<lparr>txSetHash = zeroHash, closeTime = 0, valueRest = []\<rparr>,
     bucketListHash_of = zeroHash, skipList = replicate 4 zeroHash, idGenerators = [], headerRest = []\<rparr>"

abbreviation demoDelta :: "nat LedgerDelta" where
  "demoDelta \<equiv> mkLedgerDelta demoHeader True"

lemma demo_tracks:
  "\<exists>d. addEntry demoEnum (demoEntry (BalanceId ''b'') 2) demoDelta = Inr d \<and>
     tracks demoEnum Map.empty d [BalanceId ''b'' \<mapsto> demoEntry (BalanceId ''b'') 2]"
proof -
  have start: "tracks demoEnum Map.empty demoDelta Map.empty" by (rule tracks.opened)
  have k: "known (entryId (demoEntry (BalanceId ''b'') 2))" by (simp add: known_def)
  obtain d' where d': "addEntry demoEnum (demoEntry (BalanceId ''b'') 2) demoDelta = Inr d'"
    using tracks_succeeds(1)[OF inj_demoEnum start k] by auto
  from tracks.created[OF start _ k this] d' show ?thesis by auto
qed

section \<open>Properties\<close>

text \<open>C20. A delta describes exactly the changes it was told of: the live and the dead entries it reports
  are a batch without repeated identities, and applying that batch to the ledger the delta was opened
  on gives the ledger after all changes, those of committed nested deltas included.\<close>

theorem delta_describes_changes:
  assumes "inj enum" "tracks enum M d V"
  shows "batch (getLiveEntries d) (getDeadEntries d) \<and> applyBatch (getLiveEntries d) (getDeadEntries d) M = V"
  using tracks_batch[OF assms] by blast

theorem delta_describes_changes_witness:
  "\<exists>d :: nat LedgerDelta. tracks demoEnum Map.empty d [BalanceId ''b'' \<mapsto> demoEntry (BalanceId ''b'') 2] \<and>
     batch (getLiveEntries d) (getDeadEntries d) \<and>
     applyBatch (getLiveEntries d) (getDeadEntries d) Map.empty = [BalanceId ''b'' \<mapsto> demoEntry (BalanceId ''b'') 2]"
proof -
  obtain d where d: "tracks demoEnum Map.empty d [BalanceId ''b'' \<mapsto> demoEntry (BalanceId ''b'') 2]"
    using demo_tracks by blast
  from delta_describes_changes[OF inj_demoEnum d] d show ?thesis by (intro exI[of _ d]) simp
qed

text \<open>C21. No assertion of a delta fails while entries are created only when absent and changed or deleted
  only when present, and a nested delta that was opened on the current header can be committed.\<close>

theorem delta_operations_succeed:
  assumes "inj enum" "tracks enum M d V" "known (entryId e)" "known (keyId k)" "tracks enum V inner W"
  shows "(if V (entryId e) = None then \<exists>d'. addEntry enum e d = Inr d' else \<exists>d'. modEntry enum e d = Inr d') \<and>
    (V (keyId k) = None \<or> (\<exists>d'. deleteEntry enum k d = Inr d')) \<and>
    (mPreviousHeaderValue inner \<noteq> mCurrentHeader d \<or> (\<exists>r. delta_commit enum inner (ToOuter d) = Inr r))"
  using tracks_succeeds[OF assms(1,2)] assms(3-5) by metis

theorem delta_operations_succeed_witness:
  "\<exists>d :: nat LedgerDelta. tracks demoEnum Map.empty d [BalanceId ''b'' \<mapsto> demoEntry (BalanceId ''b'') 2] \<and>
     (\<exists>d'. modEntry demoEnum (demoEntry (BalanceId ''b'') 3) d = Inr d')"
proof -
  obtain d where d: "tracks demoEnum Map.empty d [BalanceId ''b'' \<mapsto> demoEntry (BalanceId ''b'') 2]"
    using demo_tracks by blast
  have k: "known (entryId (demoEntry (BalanceId ''b'') 3))" "known (keyId (demoKey (AssetId ''x'')))"
    by (simp_all add: known_def)
  from delta_operations_succeed[OF inj_demoEnum d k tracks.opened[of _ _ demoHeader True]]
  have "\<exists>d'. modEntry demoEnum (demoEntry (BalanceId ''b'') 3) d = Inr d'" by simp
  then show ?thesis using d by blast
qed

text \<open>C32. References are stored by sender and reference, but the maps of a delta compare only the
  reference: when two accounts use the same reference in one ledger, recording the second one runs into
  the assertion against creating an entry twice, although the two keys differ.\<close>

theorem same_reference_aborts:
  assumes "entryKey e1 = \<lparr>keyId = ReferenceId r, keyRest = sender1\<rparr>"
    "entryKey e2 = \<lparr>keyId = ReferenceId r, keyRest = sender2\<rparr>" "sender1 \<noteq> sender2"
  shows "entryKey e1 \<noteq> entryKey e2 \<and>
    (\<exists>d. addEntry enum e1 (mkLedgerDelta h u) = Inr d \<and> addEntry enum e2 d = Inl AssertFailed)"
  using assms by (simp add: addEntry_def mkLedgerDelta_def delta_checkState_def LedgerEntryKey_def assertE_def
      LedgerEntryIdCmp_same)

theorem same_reference_aborts_witness:
  "\<exists>d :: nat LedgerDelta. addEntry demoEnum \<lparr>lastModifiedLedgerSeq = 1,
       entryKey = \<lparr>keyId = ReferenceId ''r'', keyRest = ''b''\<rparr>, entryBody = 2\<rparr> d = Inl AssertFailed"
  using same_reference_aborts[of
      "\<lparr>lastModifiedLedgerSeq = 1, entryKey = \<lparr>keyId = ReferenceId ''r'', keyRest = ''a''\<rparr>, entryBody = 1\<rparr>" "''r''" "''a''"
      "\<lparr>lastModifiedLedgerSeq = 1, entryKey = \<lparr>keyId = ReferenceId ''r'', keyRest = ''b''\<rparr>, entryBody = 2\<rparr>" "''b''"
      demoEnum demoHeader True] by auto

end
