(* ===== verification/LedgerClose.thy ===== *)
theory LedgerClose
  imports BucketRestart LedgerDeltaCorrect
begin

text \<open>
  Closing ledgers one after the other. Between two closings the changes of the ledger are recorded in
  a delta; closing hands its batch to the bucket list, puts the hash of the list into the header,
  stores the state and links the next header to the closed one.
\<close>

text \<open>The ledger \<open>M\<close> a node that started from nothing has reached. The header may change while a ledger is
  worked on, but for its number.\<close>

inductive ledgers :: "'b BucketContext \<Rightarrow> (LedgerHeader \<Rightarrow> Hash) \<Rightarrow> 'b LedgerManager \<Rightarrow> 'b ledger \<Rightarrow> bool"
  for B headerHash where
  genesis: "mBucketList (mBuckets lm) = mkBucketList uninitialised \<Longrightarrow> ledgerSeq (mCurrentLedger lm) = 1 \<Longrightarrow>
    ledgers B headerHash lm Map.empty"
| close: "ledgers B headerHash lm M \<Longrightarrow> tracks (enumOf B) M d V \<Longrightarrow> ledgerSeq h = ledgerSeq (mCurrentLedger lm) \<Longrightarrow>
    closeLedgerHelper B headerHash pessimize ready d (lm\<lparr>mCurrentLedger := h\<rparr>) = Inr lm' \<Longrightarrow> ledgers B headerHash lm' V"

lemma skip_keeps [simp]:
  "ledgerSeq (calculateSkipValues h) = ledgerSeq h"
  "bucketListHash_of (calculateSkipValues h) = bucketListHash_of h"
  by (simp_all add: calculateSkipValues_def Let_def)

lemma closeLedgerHelper_result:
  assumes "closeLedgerHelper B headerHash pessimize ready d lm = Inr lm'"
  shows "\<exists>bl. addBatch B (ledgerSeq (mCurrentLedger lm)) (getLiveEntries d) (getDeadEntries d) (mBucketList (mBuckets lm)) = Inr bl \<and>
    mBucketList (mBuckets lm') = bl \<and> bucketListHash_of (mLastClosedHeader lm') = bucketListHash B bl \<and>
    mLastClosedHash lm' = headerHash (mLastClosedHeader lm') \<and>
    previousLedgerHash (mCurrentLedger lm') = mLastClosedHash lm' \<and>
    ledgerSeq (mLastClosedHeader lm') = ledgerSeq (mCurrentLedger lm) \<and>
    ledgerSeq (mCurrentLedger lm') = ledgerSeq (mCurrentLedger lm) + 1"
  using assms
  by (auto simp: closeLedgerHelper_def manager_addBatch_def bindE_Inr_iff Let_def snapshotLedger_def advanceLedgerPointers_def)

lemma addBatch_positive: "addBatch B L live dead bl = Inr r \<Longrightarrow> 0 < L"
  by (auto simp: addBatch_def bindE_Inr_iff assertE_def split: if_splits)

lemma seq_Suc: "l < 2 ^ 32 \<Longrightarrow> L = of_nat (Suc l) \<Longrightarrow> (0 :: uint32) < L \<Longrightarrow> unat L = Suc l \<and> Suc l < 2 ^ 32"
proof -
  assume "l < 2 ^ 32" "L = of_nat (Suc l)" "(0 :: uint32) < L"
  moreover have "of_nat (2 ^ 32) = (0 :: uint32)" by simp
  ultimately have "Suc l \<noteq> 2 ^ 32" by (metis less_irrefl)
  with \<open>l < 2 ^ 32\<close> have "Suc l < 2 ^ 32" by simp
  with \<open>L = of_nat (Suc l)\<close> show ?thesis by (simp add: unat_of_nat del: of_nat_Suc)
qed

lemma ledgers_closed:
  assumes "inj (enumOf B)"
  shows "ledgers B headerHash lm M \<Longrightarrow>
    \<exists>l<2 ^ 32. closed B l M (mBucketList (mBuckets lm)) \<and> ledgerSeq (mCurrentLedger lm) = of_nat (Suc l)"
proof (induction rule: ledgers.induct)
  case (genesis lm uninitialised)
  then show ?case using closed.start[of B uninitialised] by (intro exI[of _ 0]) simp
next
  case (close lm M d V h pessimize ready lm')
  then obtain l where l: "l < 2 ^ 32" "closed B l M (mBucketList (mBuckets lm))" "ledgerSeq h = of_nat (Suc l)" by auto
  from closeLedgerHelper_result[OF close.hyps(4)] obtain bl where
    bl: "addBatch B (ledgerSeq h) (getLiveEntries d) (getDeadEntries d) (mBucketList (mBuckets lm)) = Inr bl"
      "mBucketList (mBuckets lm') = bl" "ledgerSeq (mCurrentLedger lm') = ledgerSeq h + 1"
    by auto
  have seq: "unat (ledgerSeq h) = Suc l \<and> Suc l < 2 ^ 32" by (rule seq_Suc[OF l(1,3) addBatch_positive[OF bl(1)]])
  have "closed B (Suc l) (applyBatch (getLiveEntries d) (getDeadEntries d) M) bl"
    using closed.close[OF l(2) _ tracks_batch(1)[OF assms close.hyps(2)] bl(1)] seq by simp
  then show ?case
    using bl(2,3) seq l(3) tracks_batch(2)[OF assms close.hyps(2)] by (intro exI[of _ "Suc l"]) simp
qed

section \<open>Closing succeeds\<close>

lemma stored_ok:
  assumes "goodFuture B keep fb"
  shows "\<exists>ar. stored fb ready = Inr ar"
proof (cases "mState fb = FB_CLEAR")
  case True
  moreover have "tidy fb" using assms True by (auto simp: goodFuture_def merging_def)
  ultimately show ?thesis using stored_clear(1) by blast
next
  case False
  then obtain c s shadows b where fb: "fb = merging B c s shadows keep"
    and h: "hash32 c" "hash32 s" "\<forall>b\<in>set shadows. hash32 b" "merge B c s shadows keep = Inr b" "hash32 b"
    using assms by (auto simp: goodFuture_def)
  show ?thesis
    using stored_done(1)[OF h, of "\<lambda>_. Some b"] stored_running(1)[OF h(1-3)] fb by (cases ready) auto
qed

lemma saveLevels_ok:
  "\<forall>l\<in>set ls. \<forall>r. \<exists>ar. stored (hs_next l) r = Inr ar \<Longrightarrow> \<exists>ls1 ars. resolveLevels ready k ls = Inr ls1 \<and> saveLevels ls1 = Inr ars"
proof (induction ls arbitrary: k)
  case (Cons l ls)
  obtain ls1 ars where r: "resolveLevels ready (Suc k) ls = Inr ls1" "saveLevels ls1 = Inr ars"
    using Cons.IH[of "Suc k"] Cons.prems by auto
  obtain ar where "stored (hs_next l) (ready k) = Inr ar" using Cons.prems by (meson list.set_intros(1))
  then obtain l1 where "(if isMerging (hs_next l) \<and> ready k
      then bindE (resolve (hs_next l)) (\<lambda>(b, fb). Inr (l\<lparr>hs_next := fb\<rparr>)) else Inr l) = Inr l1" "fb_save (hs_next l1) = Inr ar"
    by (auto simp: stored_def bindE_Inr_iff split: if_splits)
  then show ?case using r by auto
qed simp

lemma resolveLevels_none: "resolveLevels (\<lambda>_. False) k ls = Inr ls"
  by (induction ls arbitrary: k) simp_all

lemma closed_stores:
  assumes "distinctTypes B" "hashes32 B" "closed B l M bl"
  shows "\<exists>has has1 ar. mkHistoryState L bl = Inr has \<and>
    (if pessimize then Inr has else resolveAnyReadyFutures ready has) = Inr has1 \<and> has_toString has1 = Inr ar"
proof -
  have len: "length (mLevels bl) = 11" using closed_inv[OF assms] by (simp add: listInv_def)
  have "\<forall>l\<in>set (map hashesOf (mLevels bl)). \<forall>r. \<exists>ar. stored (hs_next l) r = Inr ar"
    using stored_ok closed_goodFuture[OF assms] len by (fastforce simp: in_set_conv_nth hashesOf_def)
  from saveLevels_ok[OF this, of "if pessimize then \<lambda>_. False else ready" 0] obtain ls1 ars where
    r: "resolveLevels (if pessimize then \<lambda>_. False else ready) 0 (map hashesOf (mLevels bl)) = Inr ls1" "saveLevels ls1 = Inr ars"
    by blast
  then show ?thesis
    using mkHistoryState_map[of bl L] len
    by (auto simp: kNumLevels_def resolveAnyReadyFutures_def has_toString_def resolveLevels_none split: if_splits)
qed

lemma ledgers_succeed:
  assumes "distinctTypes B" "hashes32 B" "ledgers B headerHash lm M" "tracks (enumOf B) M d V"
    "ledgerSeq h = ledgerSeq (mCurrentLedger lm)" "0 < ledgerSeq h"
  shows "\<exists>lm'. closeLedgerHelper B headerHash pessimize ready d (lm\<lparr>mCurrentLedger := h\<rparr>) = Inr lm'"
proof -
  obtain l where l: "l < 2 ^ 32" "closed B l M (mBucketList (mBuckets lm))" "ledgerSeq h = of_nat (Suc l)"
    using ledgers_closed[OF assms(1,3)] assms(5) by auto
  have seq: "unat (ledgerSeq h) = Suc l" using seq_Suc[OF l(1,3) assms(6)] by blast
  have b: "batch (getLiveEntries d) (getDeadEntries d)" by (rule tracks_batch(1)[OF assms(1,4)])
  obtain bl where bl: "addBatch B (ledgerSeq h) (getLiveEntries d) (getDeadEntries d) (mBucketList (mBuckets lm)) = Inr bl"
    using addBatch_step[OF assms(1,2) _ seq b] closed_inv[OF assms(1,2) l(2)] by blast
  have "closed B (Suc l) (applyBatch (getLiveEntries d) (getDeadEntries d) M) bl" by (rule closed.close[OF l(2) seq b bl])
  from closed_stores[OF assms(1,2) this, of "ledgerSeq h" pessimize ready] bl show ?thesis
    by (auto simp: closeLedgerHelper_def manager_addBatch_def snapshotLedger_def Let_def)
qed

end
