(* ===== verification/LedgerStore.thy ===== *)
theory LedgerStore
  imports LedgerDelta
begin

text \<open>
  Entries in the database: the entry helpers of \<^verbatim>\<open>ledger/\<close> and \<open>EntryHelperProvider\<close> of
  \<^verbatim>\<open>ledger/EntryHelperLegacy.cpp\<close>. Every helper keeps the entries of its type in a table, one row for an
  entry. The database is a map from the primary keys of rows to the entries in them, with the cache of
  entries: inserting a row that is there and updating one that is not are errors, as SQL and the
  checks of the affected rows have it. Foreign keys and secondary unique indexes are not modelled. The
  helpers do the same for their tables up to the choices below: the primary key, whether \<open>exists\<close> asks
  the cache, whether the cached entry is flushed, and whether the frame is validated. Validity of an
  entry (\<open>isValid\<close> of the frames) is the argument \<open>valid\<close>, since the body of an entry is abstract.
\<close>

section \<open>Tables\<close>

record 'b Database =
  dbRows :: "LedgerKey \<rightharpoonup> 'b LedgerEntry"
  dbCache :: "LedgerKey \<rightharpoonup> 'b LedgerEntry option"

text \<open>The primary key: sender and reference for references, the number alone for offers.\<close>

definition rowOf :: "LedgerKey \<Rightarrow> LedgerKey" where
  "rowOf k = (case keyId k of
     ReferenceId r \<Rightarrow> k
   | OfferId n owner \<Rightarrow> \<lparr>keyId = OfferId n [], keyRest = []\<rparr>
   | i \<Rightarrow> \<lparr>keyId = i, keyRest = []\<rparr>)"

definition sqlInsert :: "'b LedgerEntry \<Rightarrow> 'b Database \<Rightarrow> 'b Database result" where
  "sqlInsert e db =
     (if dbRows db (rowOf (entryKey e)) \<noteq> None then Inl (RuntimeError ''UNIQUE constraint failed'')
      else Inr (db\<lparr>dbRows := (dbRows db)(rowOf (entryKey e) \<mapsto> e)\<rparr>))"

definition sqlUpdate :: "'b LedgerEntry \<Rightarrow> 'b Database \<Rightarrow> 'b Database result" where
  "sqlUpdate e db =
     (if dbRows db (rowOf (entryKey e)) = None then Inl (RuntimeError ''could not update SQL'')
      else Inr (db\<lparr>dbRows := (dbRows db)(rowOf (entryKey e) \<mapsto> e)\<rparr>))"

definition sqlDelete :: "LedgerKey \<Rightarrow> 'b Database \<Rightarrow> 'b Database" where
  "sqlDelete k db = db\<lparr>dbRows := (dbRows db)(rowOf k := None)\<rparr>"

definition flushCachedEntry :: "LedgerKey \<Rightarrow> 'b Database \<Rightarrow> 'b Database" where
  "flushCachedEntry k db = db\<lparr>dbCache := (dbCache db)(k := None)\<rparr>"

section \<open>Helpers\<close>

datatype CacheTest = CacheIgnored | CacheHolds | CacheHoldsEntry

definition cacheTest :: "LedgerEntryType \<Rightarrow> CacheTest" where
  "cacheTest ty =
     (if ty \<in> {REVIEWABLE_REQUEST, SALE_ANTE, SALE, KEY_VALUE, ACCOUNT_ROLE} then CacheHolds
      else if ty \<in> {ACCOUNT, ACCOUNT_KYC} then CacheHoldsEntry
      else CacheIgnored)"

text \<open>\<open>AccountLimitsHelper\<close> and \<open>AccountTypeLimitsHelper\<close> always answer that there is no entry.
  \<open>StatisticsV2Helper\<close> looks for an account whose identifier is the number of the entry, and
  finds none.\<close>

definition neverExists :: "LedgerEntryType set" where
  "neverExists = {ACCOUNT_LIMITS, ACCOUNT_TYPE_LIMITS, STATISTICS_V2}"

definition rowExists :: "LedgerKey \<Rightarrow> 'b Database \<Rightarrow> bool" where
  "rowExists k db = (case dbRows db (rowOf k) of
     None \<Rightarrow> False
   | Some e \<Rightarrow> typeOf (keyId k) = OFFER_ENTRY \<longrightarrow> entryId e = keyId k)"

definition helper_exists :: "LedgerKey \<Rightarrow> 'b Database \<Rightarrow> bool" where
  "helper_exists k db = (let ty = typeOf (keyId k) in
     if ty \<in> neverExists then False
     else (case cacheTest ty of
       CacheIgnored \<Rightarrow> rowExists k db
     | CacheHolds \<Rightarrow> dbCache db k \<noteq> None \<or> rowExists k db
     | CacheHoldsEntry \<Rightarrow> (\<exists>e. dbCache db k = Some (Some e)) \<or> rowExists k db))"

definition flushesOnUpdate :: "LedgerEntryType \<Rightarrow> bool" where
  "flushesOnUpdate ty \<longleftrightarrow> ty \<in> {ACCOUNT, ACCOUNT_KYC, ACCOUNT_LIMITS, ACCOUNT_TYPE_LIMITS, ASSET_PAIR, CONTRACT,
     LIMITS_V2, REVIEWABLE_REQUEST, SALE_ANTE, SALE, TRUST, ASSET, KEY_VALUE}"

definition flushesOnDelete :: "LedgerEntryType \<Rightarrow> bool" where
  "flushesOnDelete ty \<longleftrightarrow> ty \<in> {ACCOUNT, ACCOUNT_KYC, ASSET_PAIR, REVIEWABLE_REQUEST, SALE_ANTE, SALE, TRUST, ASSET, KEY_VALUE}"

definition validates :: "LedgerEntryType \<Rightarrow> bool" where
  "validates ty \<longleftrightarrow> ty \<notin> {ACCOUNT_KYC, CONTRACT, PENDING_STATISTICS, KEY_VALUE}"

definition touch :: "'b LedgerDelta \<Rightarrow> 'b LedgerEntry \<Rightarrow> 'b LedgerEntry result" where
  "touch delta e =
     (if mUpdateLastModified delta
      then bindE (assertE (ledgerSeq (mCurrentHeader delta) \<noteq> 0)) (\<lambda>_.
           Inr (e\<lparr>lastModifiedLedgerSeq := ledgerSeq (mCurrentHeader delta)\<rparr>))
      else Inr e)"

definition storeUpdateHelper :: "(LedgerEntryType \<Rightarrow> int) \<Rightarrow> ('b LedgerEntry \<Rightarrow> bool) \<Rightarrow> bool \<Rightarrow> 'b LedgerEntry \<Rightarrow>
    'b LedgerDelta \<times> 'b Database \<Rightarrow> ('b LedgerDelta \<times> 'b Database) result" where
  "storeUpdateHelper enum valid isInsert e = (\<lambda>(delta, db).
     let ty = typeOf (entryId e);
         db1 = (if flushesOnUpdate ty then flushCachedEntry (entryKey e) db else db) in
     bindE (touch delta e) (\<lambda>e'.
     if validates ty \<and> \<not> valid e'
     then Inl (if ty = ACCOUNT then AssertFailed else RuntimeError ''Invalid entry'')
     else bindE (if isInsert then sqlInsert e' db1 else sqlUpdate e' db1) (\<lambda>db2.
       bindE (if isInsert then addEntry enum e' delta else modEntry enum e' delta) (\<lambda>delta'.
       Inr (delta', db2)))))"

text \<open>\<open>AccountLimitsHelper\<close> refuses to delete; for the types of statistics and limits by account type nothing
  happens.\<close>

definition helper_storeDelete :: "(LedgerEntryType \<Rightarrow> int) \<Rightarrow> LedgerKey \<Rightarrow>
    'b LedgerDelta \<times> 'b Database \<Rightarrow> ('b LedgerDelta \<times> 'b Database) result" where
  "helper_storeDelete enum k = (\<lambda>(delta, db).
     let ty = typeOf (keyId k) in
     if ty = ACCOUNT_LIMITS then Inl (RuntimeError ''AccountLimitsFrame is not supposed to be deleted'')
     else if ty \<in> {ACCOUNT_TYPE_LIMITS, STATISTICS, STATISTICS_V2} then Inr (delta, db)
     else bindE (deleteEntry enum k delta) (\<lambda>delta'.
       Inr (delta', sqlDelete k (if flushesOnDelete ty then flushCachedEntry k db else db))))"

section \<open>The provider\<close>

definition storeAddEntry :: "(LedgerEntryType \<Rightarrow> int) \<Rightarrow> ('b LedgerEntry \<Rightarrow> bool) \<Rightarrow> 'b LedgerEntry \<Rightarrow>
    'b LedgerDelta \<times> 'b Database \<Rightarrow> ('b LedgerDelta \<times> 'b Database) result" where
  "storeAddEntry enum valid e st =
     bindE (deref (getHelper (typeOf (entryId e)))) (\<lambda>_. storeUpdateHelper enum valid True e st)"

definition storeChangeEntry :: "(LedgerEntryType \<Rightarrow> int) \<Rightarrow> ('b LedgerEntry \<Rightarrow> bool) \<Rightarrow> 'b LedgerEntry \<Rightarrow>
    'b LedgerDelta \<times> 'b Database \<Rightarrow> ('b LedgerDelta \<times> 'b Database) result" where
  "storeChangeEntry enum valid e st =
     bindE (deref (getHelper (typeOf (entryId e)))) (\<lambda>_. storeUpdateHelper enum valid False e st)"

text \<open>The types of roles have helpers of another kind, which can be asked whether an entry exists.\<close>

definition existsEntry :: "LedgerKey \<Rightarrow> 'b Database \<Rightarrow> bool result" where
  "existsEntry k db =
     (if getHelper (typeOf (keyId k)) \<noteq> None \<or> typeOf (keyId k) \<in> {ACCOUNT_ROLE, ACCOUNT_ROLE_PERMISSION}
      then Inr (helper_exists k db)
      else Inl (RuntimeError ''There's no legacy helper for this entry, and no helper can be created.''))"

definition storeAddOrChangeEntry :: "(LedgerEntryType \<Rightarrow> int) \<Rightarrow> ('b LedgerEntry \<Rightarrow> bool) \<Rightarrow> 'b LedgerEntry \<Rightarrow>
    'b LedgerDelta \<times> 'b Database \<Rightarrow> ('b LedgerDelta \<times> 'b Database) result" where
  "storeAddOrChangeEntry enum valid e st =
     bindE (LedgerEntryKey e) (\<lambda>k.
     bindE (existsEntry k (snd st)) (\<lambda>there.
     if there then storeChangeEntry enum valid e st else storeAddEntry enum valid e st))"

definition storeDeleteEntry :: "(LedgerEntryType \<Rightarrow> int) \<Rightarrow> LedgerKey \<Rightarrow>
    'b LedgerDelta \<times> 'b Database \<Rightarrow> ('b LedgerDelta \<times> 'b Database) result" where
  "storeDeleteEntry enum k st =
     bindE (deref (getHelper (typeOf (keyId k)))) (\<lambda>_. helper_storeDelete enum k st)"

definition fromXDREntry :: "'b LedgerEntry \<Rightarrow> 'b LedgerEntry result" where
  "fromXDREntry e = bindE (deref (getHelper (typeOf (entryId e)))) (\<lambda>_. Inr e)"

end
