(* ===== verification/BucketApply.thy ===== *)
theory BucketApply
  imports LedgerStore BucketManager
begin

unbundle bit_operations_syntax

text \<open>
  Applying buckets to the database: \<^verbatim>\<open>bucket/BucketApplicator.cpp\<close>, \<open>Bucket::apply\<close> of
  \<^verbatim>\<open>bucket/Bucket.cpp\<close>, and \<open>ApplyBucketsWork\<close> of \<^verbatim>\<open>history/HistoryWork.cpp\<close> with the scheduling of
  \<^verbatim>\<open>work/Work.cpp\<close> that runs it. A stream of a bucket file is the entries not yet read and whether the last read
  succeeded; a stream that was never opened is good as well until it is read. A work without children
  has at most one callback in the queue of the event loop, which is the field \<open>posted\<close>; a step of the work
  is the call of it. An exception in a callback ends the process, so there is no state after a failure.
\<close>

section \<open>Applicators\<close>

text \<open>The header on the stack of \<open>advance\<close>, as XDR initialises it.\<close>

definition defaultHeader :: LedgerHeader where
  "defaultHeader = \<lparr>ledgerSeq = 0, previousLedgerHash = zeroHash, scpValue = \<lparr>txSetHash = zeroHash, closeTime = 0, valueRest = []\<rparr>,
     bucketListHash_of = zeroHash, skipList = replicate 4 zeroHash, idGenerators = [], headerRest = []\<rparr>"

record 'b BucketApplicator =
  unread :: "'b BucketEntry list"
  good :: bool
  mSize :: uint64

definition mkBucketApplicator :: "'b Bucket \<Rightarrow> 'b BucketApplicator" where
  "mkBucketApplicator bucket = \<lparr>unread = bucketEntries bucket, good = True, mSize = 0\<rparr>"

definition applyEntry :: "(LedgerEntryType \<Rightarrow> int) \<Rightarrow> ('b LedgerEntry \<Rightarrow> bool) \<Rightarrow> 'b BucketEntry \<Rightarrow> 'b Database \<Rightarrow> 'b Database result" where
  "applyEntry enum valid entry db =
     (let delta = mkLedgerDelta defaultHeader False in
      bindE (case entry of
          LIVEENTRY e \<Rightarrow> bindE (fromXDREntry e) (\<lambda>ep. storeAddOrChangeEntry enum valid ep (delta, db))
        | DEADENTRY k \<Rightarrow> storeDeleteEntry enum k (delta, db)) (\<lambda>(delta', db').
      bindE (delta_commit enum delta' (ToHeader defaultHeader)) (\<lambda>_. Inr db')))"

fun advanceLoop :: "(LedgerEntryType \<Rightarrow> int) \<Rightarrow> ('b LedgerEntry \<Rightarrow> bool) \<Rightarrow> 'b BucketEntry list \<Rightarrow> uint64 \<Rightarrow> 'b Database \<Rightarrow>
    ('b BucketApplicator \<times> 'b Database) result" where
  "advanceLoop enum valid [] n db = Inr (\<lparr>unread = [], good = False, mSize = n\<rparr>, db)"
| "advanceLoop enum valid (entry # es) n db =
     bindE (applyEntry enum valid entry db) (\<lambda>db'.
     if (n + 1) AND 0xff = 0xff then Inr (\<lparr>unread = es, good = True, mSize = n + 1\<rparr>, db')
     else advanceLoop enum valid es (n + 1) db')"

definition applicator_advance :: "(LedgerEntryType \<Rightarrow> int) \<Rightarrow> ('b LedgerEntry \<Rightarrow> bool) \<Rightarrow> 'b BucketApplicator \<Rightarrow> 'b Database \<Rightarrow>
    ('b BucketApplicator \<times> 'b Database) result" where
  "applicator_advance enum valid ap db =
     (if good ap then advanceLoop enum valid (unread ap) (mSize ap) db else Inr (ap, db))"

text \<open>What an applicator still has to do decreases with every piece of work.\<close>

definition remaining :: "'b BucketApplicator \<Rightarrow> nat" where
  "remaining ap = (if good ap then Suc (length (unread ap)) else 0)"

lemma advanceLoop_remaining:
  "advanceLoop enum valid es n db = Inr (ap, db') \<Longrightarrow> remaining ap < Suc (length es)"
  by (induction es arbitrary: n db) (auto simp: bindE_Inr_iff remaining_def less_Suc_eq split: if_splits)

lemma applicator_advance_remaining:
  "applicator_advance enum valid ap db = Inr (ap', db') \<Longrightarrow> good ap \<Longrightarrow> remaining ap' < remaining ap"
  using advanceLoop_remaining[of enum valid "unread ap" "mSize ap" db ap' db']
  by (simp add: applicator_advance_def) (simp add: remaining_def)

function applyLoop :: "(LedgerEntryType \<Rightarrow> int) \<Rightarrow> ('b LedgerEntry \<Rightarrow> bool) \<Rightarrow> 'b BucketApplicator \<Rightarrow> 'b Database \<Rightarrow> 'b Database result" where
  "applyLoop enum valid ap db =
     (if good ap
      then bindE (applicator_advance enum valid ap db) (\<lambda>p. applyLoop enum valid (fst p) (snd p))
      else Inr db)"
  by pat_completeness auto

termination
  by (relation "measure (\<lambda>(enum, valid, ap, db). remaining ap)") (auto dest: applicator_advance_remaining)

declare applyLoop.simps [simp del]

definition bucket_apply :: "(LedgerEntryType \<Rightarrow> int) \<Rightarrow> ('b LedgerEntry \<Rightarrow> bool) \<Rightarrow> 'b Bucket \<Rightarrow> 'b Database \<Rightarrow> 'b Database result" where
  "bucket_apply enum valid bucket db = applyLoop enum valid (mkBucketApplicator bucket) db"

section \<open>The work that applies buckets\<close>

datatype WorkState = WORK_PENDING | WORK_RUNNING | WORK_SUCCESS | WORK_FAILURE_RETRY | WORK_FAILURE_RAISE

datatype Callback = CallRun | CallComplete

record 'b ApplyBucketsWork =
  workState :: WorkState
  posted :: "Callback option"
  workLevel :: nat
  mApplying :: bool
  mSnapBucket :: "'b Bucket option"
  mCurrBucket :: "'b Bucket option"
  mSnapApplicator :: "'b BucketApplicator option"
  mCurrApplicator :: "'b BucketApplicator option"

text \<open>What the work finds in the application.\<close>

record 'b Application =
  appBuckets :: "'b BucketManager"
  appDatabase :: "'b Database"

text \<open>\<open>lcl\<close> is the number of the last closed ledger, \<open>firstVerified\<close> that of the ledger of the buckets.\<close>

definition mkApplyBucketsWork :: "uint32 \<Rightarrow> uint32 \<Rightarrow> 'b ApplyBucketsWork result" where
  "mkApplyBucketsWork lcl firstVerified =
     (if firstVerified < lcl then Inl (RuntimeError ''ApplyBucketsWork applying ledger earlier than local LCL'')
      else Inr \<lparr>workState = WORK_PENDING, posted = None, workLevel = kNumLevels - 1, mApplying = False,
        mSnapBucket = None, mCurrBucket = None, mSnapApplicator = None, mCurrApplicator = None\<rparr>)"

definition work_getBucket :: "(string \<rightharpoonup> 'b Bucket) \<Rightarrow> string \<Rightarrow> 'b BucketManager \<Rightarrow> ('b Bucket \<times> 'b BucketManager) result" where
  "work_getBucket buckets hash bm =
     (if list_all (\<lambda>c. c = CHR ''0'') hash then Inr (emptyBucket, bm)
      else case buckets hash of
        Some b \<Rightarrow> Inr (b, bm)
      | None \<Rightarrow> bindE (hexToBin256 hash) (\<lambda>h.
          case getBucketByHash h bm of
            (Some b, bm') \<Rightarrow> Inr (b, bm')
          | (None, bm') \<Rightarrow> Inl AssertFailed))"

definition onReset :: "'b ApplyBucketsWork \<Rightarrow> 'b ApplyBucketsWork" where
  "onReset w = w\<lparr>workLevel := kNumLevels - 1, mApplying := False, mSnapBucket := None, mCurrBucket := None,
     mSnapApplicator := None, mCurrApplicator := None\<rparr>"

definition startSnap :: "(string \<rightharpoonup> 'b Bucket) \<Rightarrow> string \<Rightarrow> 'b BucketLevel \<Rightarrow> 'b ApplyBucketsWork \<Rightarrow> 'b BucketManager \<Rightarrow>
    ('b ApplyBucketsWork \<times> 'b BucketManager) result" where
  "startSnap buckets hash level w bm =
     (if mApplying w \<or> hash \<noteq> binToHex (mHash (mSnap level))
      then bindE (work_getBucket buckets hash bm) (\<lambda>(b, bm').
           Inr (w\<lparr>mSnapBucket := Some b, mSnapApplicator := Some (mkBucketApplicator b), mApplying := True\<rparr>, bm'))
      else Inr (w, bm))"

definition startCurr :: "(string \<rightharpoonup> 'b Bucket) \<Rightarrow> string \<Rightarrow> 'b BucketLevel \<Rightarrow> 'b ApplyBucketsWork \<Rightarrow> 'b BucketManager \<Rightarrow>
    ('b ApplyBucketsWork \<times> 'b BucketManager) result" where
  "startCurr buckets hash level w bm =
     (if mApplying w \<or> hash \<noteq> binToHex (mHash (mCurr level))
      then bindE (work_getBucket buckets hash bm) (\<lambda>(b, bm').
           Inr (w\<lparr>mCurrBucket := Some b, mCurrApplicator := Some (mkBucketApplicator b), mApplying := True\<rparr>, bm'))
      else Inr (w, bm))"

definition stateAt :: "nat \<Rightarrow> 'b HistoryArchiveState \<Rightarrow> 'b HistoryStateBucket result" where
  "stateAt i has = (if i < length (currentBuckets has) then Inr (currentBuckets has ! i) else outOfRange)"

definition onStart :: "(string \<rightharpoonup> 'b Bucket) \<Rightarrow> 'b HistoryArchiveState \<Rightarrow> 'b ApplyBucketsWork \<Rightarrow> 'b Application \<Rightarrow>
    ('b ApplyBucketsWork \<times> 'b Application) result" where
  "onStart buckets applyState w app =
     bindE (getLevel (workLevel w) (mBucketList (appBuckets app))) (\<lambda>level.
     bindE (stateAt (workLevel w) applyState) (\<lambda>i.
     bindE (startSnap buckets (hs_snap i) level w (appBuckets app)) (\<lambda>(w1, bm1).
     bindE (startCurr buckets (hs_curr i) level w1 bm1) (\<lambda>(w2, bm2).
     Inr (w2, app\<lparr>appBuckets := bm2\<rparr>)))))"

definition working :: "'b BucketApplicator option \<Rightarrow> bool" where
  "working ap = (case ap of Some a \<Rightarrow> good a | None \<Rightarrow> False)"

definition onRun :: "(LedgerEntryType \<Rightarrow> int) \<Rightarrow> ('b LedgerEntry \<Rightarrow> bool) \<Rightarrow> 'b ApplyBucketsWork \<Rightarrow> 'b Application \<Rightarrow>
    ('b ApplyBucketsWork \<times> 'b Application) result" where
  "onRun enum valid w app =
     bindE (if working (mSnapApplicator w)
       then bindE (deref (mSnapApplicator w)) (\<lambda>ap.
            bindE (applicator_advance enum valid ap (appDatabase app)) (\<lambda>(ap', db).
            Inr (w\<lparr>mSnapApplicator := Some ap'\<rparr>, app\<lparr>appDatabase := db\<rparr>)))
       else if working (mCurrApplicator w)
       then bindE (deref (mCurrApplicator w)) (\<lambda>ap.
            bindE (applicator_advance enum valid ap (appDatabase app)) (\<lambda>(ap', db).
            Inr (w\<lparr>mCurrApplicator := Some ap'\<rparr>, app\<lparr>appDatabase := db\<rparr>)))
       else Inr (w, app)) (\<lambda>(w', app').
     Inr (w'\<lparr>posted := Some CallComplete\<rparr>, app'))"

definition setBuckets :: "'b Bucket option \<Rightarrow> 'b Bucket option \<Rightarrow> 'b FutureBucket \<Rightarrow> 'b BucketLevel \<Rightarrow> 'b BucketLevel" where
  "setBuckets sb cb fb level =
     setNext fb ((case cb of Some b \<Rightarrow> setCurr b | None \<Rightarrow> id) ((case sb of Some b \<Rightarrow> setSnap b | None \<Rightarrow> id) level))"

definition onSuccess :: "'b BucketContext \<Rightarrow> 'b HistoryArchiveState \<Rightarrow> 'b ApplyBucketsWork \<Rightarrow> 'b Application \<Rightarrow>
    (WorkState \<times> 'b ApplyBucketsWork \<times> 'b Application) result" where
  "onSuccess B applyState w app =
     (if working (mSnapApplicator w) \<or> working (mCurrApplicator w) then Inr (WORK_RUNNING, w, app)
      else bindE (getLevel (workLevel w) (mBucketList (appBuckets app))) (\<lambda>_.
        bindE (stateAt (workLevel w) applyState) (\<lambda>i.
        let bm1 = setLevel (workLevel w) (setBuckets (mSnapBucket w) (mCurrBucket w) (hs_next i)) (appBuckets app);
            w1 = w\<lparr>mSnapBucket := None, mCurrBucket := None, mSnapApplicator := None, mCurrApplicator := None\<rparr> in
        if workLevel w \<noteq> 0
        then Inr (WORK_PENDING, w1\<lparr>workLevel := workLevel w - 1\<rparr>, app\<lparr>appBuckets := bm1\<rparr>)
        else bindE (restartMerges B (\<lambda>h. fst (getBucketByHash h bm1)) (mBucketList bm1)) (\<lambda>bl.
          Inr (WORK_SUCCESS, w1, app\<lparr>appBuckets := bm1\<lparr>mBucketList := bl\<rparr>\<rparr>)))))"

section \<open>Scheduling\<close>

definition work_reset :: "'b ApplyBucketsWork \<Rightarrow> 'b ApplyBucketsWork" where
  "work_reset w = onReset (w\<lparr>workState := WORK_PENDING\<rparr>)"

text \<open>A work without children is ready to run as soon as it is pending.\<close>

definition work_advance :: "'b ApplyBucketsWork \<Rightarrow> 'b ApplyBucketsWork" where
  "work_advance w = (if workState w \<noteq> WORK_PENDING then w else w\<lparr>posted := Some CallRun\<rparr>)"

definition work_run :: "'b BucketContext \<Rightarrow> ('b LedgerEntry \<Rightarrow> bool) \<Rightarrow> (string \<rightharpoonup> 'b Bucket) \<Rightarrow> 'b HistoryArchiveState \<Rightarrow>
    'b ApplyBucketsWork \<times> 'b Application \<Rightarrow> ('b ApplyBucketsWork \<times> 'b Application) result" where
  "work_run B valid buckets applyState = (\<lambda>(w, app).
     bindE (if workState w = WORK_PENDING then onStart buckets applyState w app else Inr (w, app)) (\<lambda>(w1, app1).
     onRun (enumOf B) valid (w1\<lparr>workState := WORK_RUNNING\<rparr>) app1))"

text \<open>\<open>onSuccess\<close> never reports a failure, so the work is never retried. On success the parent is notified,
  which does not concern this work any more.\<close>

definition work_complete :: "'b BucketContext \<Rightarrow> 'b HistoryArchiveState \<Rightarrow> 'b ApplyBucketsWork \<times> 'b Application \<Rightarrow>
    ('b ApplyBucketsWork \<times> 'b Application) result" where
  "work_complete B applyState = (\<lambda>(w, app).
     bindE (onSuccess B applyState w app) (\<lambda>(st, w1, app1).
     let w2 = w1\<lparr>workState := st\<rparr> in
     case st of
       WORK_SUCCESS \<Rightarrow> Inr (w2, app1)
     | WORK_PENDING \<Rightarrow> Inr (work_advance w2, app1)
     | WORK_RUNNING \<Rightarrow> Inr (w2\<lparr>posted := Some CallRun\<rparr>, app1)
     | _ \<Rightarrow> Inl AssertFailed))"

text \<open>One turn of the event loop: the posted callback is taken from the queue and called.\<close>

definition work_step :: "'b BucketContext \<Rightarrow> ('b LedgerEntry \<Rightarrow> bool) \<Rightarrow> (string \<rightharpoonup> 'b Bucket) \<Rightarrow> 'b HistoryArchiveState \<Rightarrow>
    'b ApplyBucketsWork \<times> 'b Application \<Rightarrow> ('b ApplyBucketsWork \<times> 'b Application) result" where
  "work_step B valid buckets applyState = (\<lambda>(w, app).
     case posted w of
       None \<Rightarrow> Inr (w, app)
     | Some CallRun \<Rightarrow> work_run B valid buckets applyState (w\<lparr>posted := None\<rparr>, app)
     | Some CallComplete \<Rightarrow> work_complete B applyState (w\<lparr>posted := None\<rparr>, app))"

fun work_steps :: "'b BucketContext \<Rightarrow> ('b LedgerEntry \<Rightarrow> bool) \<Rightarrow> (string \<rightharpoonup> 'b Bucket) \<Rightarrow> 'b HistoryArchiveState \<Rightarrow> nat \<Rightarrow>
    'b ApplyBucketsWork \<times> 'b Application \<Rightarrow> ('b ApplyBucketsWork \<times> 'b Application) result" where
  "work_steps B valid buckets applyState 0 s = Inr s"
| "work_steps B valid buckets applyState (Suc n) s =
     bindE (work_step B valid buckets applyState s) (work_steps B valid buckets applyState n)"

end
