(* ===== verification/BucketApplyCorrect.thy ===== *)
theory BucketApplyCorrect
  imports BucketApply BucketRestart
begin

text \<open>
  Applying bucket entries to the database. The entries of the tables follow the entries applied, the last
  one for an identity deciding, as long as the helpers can handle their types and rows and identities
  correspond. An applicator is done after finitely many pieces of work and has then applied its whole
  bucket.
\<close>

section \<open>What the tables hold\<close>

definition keyOf :: "'b BucketEntry \<Rightarrow> LedgerKey" where
  "keyOf be = (case be of LIVEENTRY e \<Rightarrow> entryKey e | DEADENTRY k \<Rightarrow> k)"

lemma idOf_simps [simp]: "idOf (LIVEENTRY e) = entryId e" "idOf (DEADENTRY k) = keyId k"
  by (simp_all add: idOf_def)

lemma keyOf_simps [simp]: "keyOf (LIVEENTRY e) = entryKey e" "keyOf (DEADENTRY k) = k"
  by (simp_all add: keyOf_def)

text \<open>The tables hold exactly the entries of the ledger \<open>M\<close>, and nothing is cached.\<close>

definition stores :: "'b Database \<Rightarrow> (LedgerId \<rightharpoonup> 'b LedgerEntry) \<Rightarrow> bool" where
  "stores db M \<longleftrightarrow> dbCache db = Map.empty \<and>
     (\<forall>row e. dbRows db row = Some e \<longleftrightarrow> M (entryId e) = Some e \<and> row = rowOf (entryKey e))"

text \<open>Rows and identities correspond: no two senders share a reference and no two owners the number
  of an offer. For all other types this is no restriction.\<close>

definition consistentRows :: "'b BucketEntry set \<Rightarrow> bool" where
  "consistentRows E \<longleftrightarrow> (\<forall>a\<in>E. \<forall>b\<in>E. rowOf (keyOf a) = rowOf (keyOf b) \<longleftrightarrow> idOf a = idOf b)"

text \<open>The helper of the type is there and sees the rows it has written; valid entries can be written, and
  deleting does something.\<close>

definition restorable :: "('b LedgerEntry \<Rightarrow> bool) \<Rightarrow> 'b BucketEntry \<Rightarrow> bool" where
  "restorable valid be \<longleftrightarrow> (let ty = typeOf (idOf be) in
     getHelper ty \<noteq> None \<and> ty \<notin> neverExists \<and>
     (case be of LIVEENTRY e \<Rightarrow> validates ty \<longrightarrow> valid e | DEADENTRY k \<Rightarrow> ty \<noteq> STATISTICS))"

lemma restorable_type:
  "restorable valid be \<Longrightarrow> typeOf (idOf be) \<notin> neverExists \<and> getHelper (typeOf (idOf be)) = Some () \<and>
    typeOf (idOf be) \<notin> {OTHER_TYPE, ACCOUNT_ROLE, ACCOUNT_ROLE_PERMISSION}"
  by (auto simp: restorable_def Let_def getHelper_def split: if_splits)

lemma flush_empty: "dbCache db = Map.empty \<Longrightarrow> flushCachedEntry k db = db"
  by (simp add: flushCachedEntry_def fun_upd_idem)

lemma fresh_delta:
  "LedgerEntryKey e = Inr k \<Longrightarrow> \<exists>d. addEntry enum e (mkLedgerDelta h False) = Inr d \<and> mHeaderSet d \<and> mPreviousHeaderValue d = h"
  "LedgerEntryKey e = Inr k \<Longrightarrow> \<exists>d. modEntry enum e (mkLedgerDelta h False) = Inr d \<and> mHeaderSet d \<and> mPreviousHeaderValue d = h"
  "\<exists>d. deleteEntry enum k (mkLedgerDelta h False) = Inr d \<and> mHeaderSet d \<and> mPreviousHeaderValue d = h"
  by (auto simp: addEntry_def modEntry_def deleteEntry_def mkLedgerDelta_def delta_checkState_def assertE_def)

lemma delta_commit_header:
  "mHeaderSet d \<Longrightarrow> mPreviousHeaderValue d = h \<Longrightarrow> \<exists>r. delta_commit enum d (ToHeader h) = Inr r"
  by (simp add: delta_commit_def delta_checkState_def)

definition rowWritten :: "'b BucketEntry \<Rightarrow> 'b Database \<Rightarrow> 'b Database" where
  "rowWritten be db = db\<lparr>dbRows := (dbRows db)(rowOf (keyOf be) := (case be of LIVEENTRY e \<Rightarrow> Some e | DEADENTRY k \<Rightarrow> None))\<rparr>"

lemma storeUpdateHelper_ok:
  assumes "restorable valid (LIVEENTRY e)" "dbCache db = Map.empty" "isInsert = (dbRows db (rowOf (entryKey e)) = None)"
  shows "\<exists>d. storeUpdateHelper enum valid isInsert e (mkLedgerDelta h False, db) = Inr (d, rowWritten (LIVEENTRY e) db) \<and>
    mHeaderSet d \<and> mPreviousHeaderValue d = h"
proof -
  have k: "LedgerEntryKey e = Inr (entryKey e)" using restorable_type[OF assms(1)] by (simp add: LedgerEntryKey_def)
  have "touch (mkLedgerDelta h False) e = Inr e" by (simp add: touch_def mkLedgerDelta_def)
  moreover have "\<not> (validates (typeOf (entryId e)) \<and> \<not> valid e)" using assms(1) by (simp add: restorable_def Let_def)
  ultimately show ?thesis
    using assms(3) fresh_delta(1,2)[OF k, of enum h]
    by (cases "dbRows db (rowOf (entryKey e))")
      (auto simp: storeUpdateHelper_def flush_empty[OF assms(2)] sqlInsert_def sqlUpdate_def rowWritten_def)
qed

lemma helper_exists_row:
  assumes "dbCache db = Map.empty" "typeOf (keyId k) \<notin> neverExists"
    "\<forall>e. dbRows db (rowOf k) = Some e \<longrightarrow> entryId e = keyId k"
  shows "helper_exists k db \<longleftrightarrow> dbRows db (rowOf k) \<noteq> None"
  using assms by (auto simp: helper_exists_def rowExists_def Let_def split: option.splits CacheTest.splits)

lemma applyEntry_live:
  assumes "restorable valid (LIVEENTRY e)" "dbCache db = Map.empty"
    "\<forall>e'. dbRows db (rowOf (entryKey e)) = Some e' \<longrightarrow> entryId e' = entryId e"
  shows "applyEntry enum valid (LIVEENTRY e) db = Inr (rowWritten (LIVEENTRY e) db)"
proof -
  let ?new = "dbRows db (rowOf (entryKey e)) = None"
  have ty: "typeOf (entryId e) \<notin> neverExists" "getHelper (typeOf (entryId e)) = Some ()" "typeOf (entryId e) \<noteq> OTHER_TYPE"
    using restorable_type[OF assms(1)] by auto
  obtain d where d: "storeUpdateHelper enum valid ?new e (mkLedgerDelta defaultHeader False, db) = Inr (d, rowWritten (LIVEENTRY e) db)"
    "mHeaderSet d" "mPreviousHeaderValue d = defaultHeader"
    using storeUpdateHelper_ok[OF assms(1,2) refl, of enum defaultHeader] by blast
  have "storeAddOrChangeEntry enum valid e (mkLedgerDelta defaultHeader False, db) = Inr (d, rowWritten (LIVEENTRY e) db)"
    using d(1) ty helper_exists_row[OF assms(2) ty(1) assms(3)]
    by (cases ?new) (simp_all add: storeAddOrChangeEntry_def LedgerEntryKey_def existsEntry_def storeAddEntry_def storeChangeEntry_def deref_def)
  then show ?thesis
    using delta_commit_header[OF d(2,3), of enum] ty(2) by (auto simp: applyEntry_def fromXDREntry_def deref_def)
qed

lemma applyEntry_dead:
  assumes "restorable valid (DEADENTRY k)" "dbCache db = Map.empty"
  shows "applyEntry enum valid (DEADENTRY k) db = Inr (rowWritten (DEADENTRY k) db)"
proof -
  have ty: "typeOf (keyId k) \<notin> neverExists" "getHelper (typeOf (keyId k)) = Some ()" "typeOf (keyId k) \<noteq> STATISTICS"
    using restorable_type[OF assms(1)] assms(1) by (auto simp: restorable_def Let_def)
  obtain d :: "'a LedgerDelta" where d: "deleteEntry enum k (mkLedgerDelta defaultHeader False) = Inr d" "mHeaderSet d" "mPreviousHeaderValue d = defaultHeader"
    using fresh_delta(3) by blast
  have "storeDeleteEntry enum k (mkLedgerDelta defaultHeader False, db) = Inr (d, rowWritten (DEADENTRY k) db)"
    using ty d(1) by (auto simp: storeDeleteEntry_def helper_storeDelete_def deref_def neverExists_def Let_def
        flush_empty[OF assms(2)] sqlDelete_def rowWritten_def)
  then show ?thesis using delta_commit_header[OF d(2,3), of enum] by (auto simp: applyEntry_def)
qed

section \<open>Applying a bucket\<close>

text \<open>Entries that have been applied, the last one for every identity.\<close>

definition entriesIn :: "'b BucketEntry set \<Rightarrow> (LedgerId \<rightharpoonup> 'b BucketEntry) \<Rightarrow> bool" where
  "entriesIn E V \<longleftrightarrow> (\<forall>k be. V k = Some be \<longrightarrow> be \<in> E \<and> idOf be = k)"

lemma entriesIn_upd: "entriesIn E V \<Longrightarrow> be \<in> E \<Longrightarrow> entriesIn E (V(idOf be \<mapsto> be))"
  by (simp add: entriesIn_def)

lemma liveOf_Some: "liveOf p = Some e \<longleftrightarrow> p = Some (LIVEENTRY e)"
  by (simp add: liveOf_def split: option.splits BucketEntry.splits)

abbreviation ledgerOf :: "(LedgerId \<rightharpoonup> 'b BucketEntry) \<Rightarrow> LedgerId \<rightharpoonup> 'b LedgerEntry" where
  "ledgerOf V \<equiv> \<lambda>k. liveOf (V k)"

lemma stores_rowWritten:
  assumes "consistentRows E" "entriesIn E V" "be \<in> E" "stores db (ledgerOf V)"
  shows "stores (rowWritten be db) (ledgerOf (V(idOf be \<mapsto> be)))"
proof -
  have rows: "rowOf (entryKey e) = rowOf (keyOf be) \<longleftrightarrow> entryId e = idOf be" if "V (entryId e) = Some (LIVEENTRY e)" for e
  proof -
    have "LIVEENTRY e \<in> E" using assms(2) that by (auto simp: entriesIn_def)
    with assms(1,3) have "rowOf (keyOf (LIVEENTRY e)) = rowOf (keyOf be) \<longleftrightarrow> idOf (LIVEENTRY e) = idOf be"
      unfolding consistentRows_def by blast
    then show ?thesis by simp
  qed
  have old: "dbRows db row = Some e \<longleftrightarrow> V (entryId e) = Some (LIVEENTRY e) \<and> row = rowOf (entryKey e)" for row e
    using assms(4) by (simp add: stores_def liveOf_Some)
  have "dbRows (rowWritten be db) row = Some e \<longleftrightarrow> (V(idOf be \<mapsto> be)) (entryId e) = Some (LIVEENTRY e) \<and> row = rowOf (entryKey e)" for row e
    using old[of row e] rows[of e] by (cases be) (auto simp: rowWritten_def)
  then show ?thesis using assms(4) by (simp add: stores_def liveOf_Some rowWritten_def)
qed

lemma applyEntry_ok:
  assumes "consistentRows E" "entriesIn E V" "be \<in> E" "restorable valid be" "stores db (ledgerOf V)"
  shows "applyEntry enum valid be db = Inr (rowWritten be db)"
proof (cases be)
  case (LIVEENTRY e)
  have "entryId e' = entryId e" if "dbRows db (rowOf (entryKey e)) = Some e'" for e'
  proof -
    have e': "V (entryId e') = Some (LIVEENTRY e')" "rowOf (entryKey e) = rowOf (entryKey e')"
      using assms(5) that by (auto simp: stores_def liveOf_Some)
    then have "LIVEENTRY e' \<in> E" using assms(2) by (auto simp: entriesIn_def)
    then have "rowOf (keyOf (LIVEENTRY e')) = rowOf (keyOf be) \<longleftrightarrow> idOf (LIVEENTRY e') = idOf be"
      using assms(1,3) unfolding consistentRows_def by blast
    with e'(2) LIVEENTRY show ?thesis by simp
  qed
  then show ?thesis using applyEntry_live[of valid e db] assms(4,5) LIVEENTRY by (simp add: stores_def)
next
  case (DEADENTRY k)
  then show ?thesis using applyEntry_dead[of valid k db] assms(4,5) by (simp add: stores_def)
qed

text \<open>What an applicator relies on: entries can be stored one after the other, and what is held then is
  what was held before with the entry in the place of its key.\<close>

locale entry_store =
  fixes store :: "'e \<Rightarrow> 's \<Rightarrow> 's result" and key :: "'e \<Rightarrow> 'k" and usable :: "'e \<Rightarrow> bool" and holds :: "'s \<Rightarrow> ('k \<rightharpoonup> 'e) \<Rightarrow> bool"
  assumes store_holds: "holds s V \<Longrightarrow> usable e \<Longrightarrow> \<exists>s'. store e s = Inr s' \<and> holds s' (V(key e \<mapsto> e))"
begin

lemma foldE_holds:
  "holds s V \<Longrightarrow> \<forall>e\<in>set es. usable e \<Longrightarrow> \<exists>s'. foldE store es s = Inr s' \<and> holds s' (foldl (\<lambda>V e. V(key e \<mapsto> e)) V es)"
proof (induction es arbitrary: s V)
  case (Cons e es)
  then obtain s' where "store e s = Inr s'" "holds s' (V(key e \<mapsto> e))" using store_holds[of s V e] by auto
  with Cons.IH[of s' "V(key e \<mapsto> e)"] Cons.prems(2) show ?case by (simp del: fun_upd_apply)
qed simp

end

text \<open>The tables are such a store for the entries of \<open>E\<close>.\<close>

definition tablesHold :: "'b BucketEntry set \<Rightarrow> 'b Database \<Rightarrow> (LedgerId \<rightharpoonup> 'b BucketEntry) \<Rightarrow> bool" where
  "tablesHold E db V \<longleftrightarrow> consistentRows E \<and> entriesIn E V \<and> stores db (ledgerOf V)"

interpretation tables: entry_store "applyEntry enum valid" idOf "\<lambda>be. be \<in> E \<and> restorable valid be" "tablesHold E" for enum valid E
  by unfold_locales (auto simp: tablesHold_def simp del: fun_upd_apply dest: applyEntry_ok stores_rowWritten intro: entriesIn_upd)

primrec putEntries :: "'b BucketEntry list \<Rightarrow> (LedgerId \<rightharpoonup> 'b BucketEntry) \<Rightarrow> LedgerId \<rightharpoonup> 'b BucketEntry" where
  "putEntries [] V = V"
| "putEntries (be # es) V = putEntries es (V(idOf be \<mapsto> be))"

lemma putEntries_append [simp]: "putEntries (es @ fs) V = putEntries fs (putEntries es V)"
  by (induction es arbitrary: V) simp_all

lemma putEntries_foldl: "putEntries es V = foldl (\<lambda>V be. V(idOf be \<mapsto> be)) V es"
  by (induction es arbitrary: V) simp_all

lemma putEntries_sorted: "sortedEntries B es \<Longrightarrow> distinctTypes B \<Longrightarrow> putEntries es V = V ++ lookup es"
proof (induction es arbitrary: V)
  case (Cons be es)
  have "idOf be \<notin> dom (lookup es)"
  proof
    assume "idOf be \<in> dom (lookup es)"
    then obtain x where "x \<in> set es" "idOf x = idOf be" by (auto simp: lookup_def dom_map_of_conv_image_fst)
    then show False using Cons.prems(1) by (auto simp: ekey_def)
  qed
  then have "V(idOf be \<mapsto> be) ++ lookup es = V ++ lookup (be # es)"
    by (auto simp: map_add_def fun_eq_iff dom_def split: option.splits)
  then show ?case using Cons by (simp del: lookup_simps)
qed simp

text \<open>The database and the entries still to be read lead to \<open>T\<close>.\<close>

definition underway :: "('b LedgerEntry \<Rightarrow> bool) \<Rightarrow> 'b BucketEntry set \<Rightarrow> 'b BucketEntry list \<Rightarrow> (LedgerId \<rightharpoonup> 'b BucketEntry) \<Rightarrow>
    'b Database \<Rightarrow> bool" where
  "underway valid E es T db \<longleftrightarrow> (\<forall>be\<in>E. restorable valid be) \<and> set es \<subseteq> E \<and> (\<exists>V. tablesHold E db V \<and> putEntries es V = T)"

lemma underway_step:
  assumes "underway valid E (be # es) T db"
  shows "\<exists>db'. applyEntry enum valid be db = Inr db' \<and> underway valid E es T db'"
proof -
  obtain V where V: "tablesHold E db V" "putEntries (be # es) V = T" "be \<in> E \<and> restorable valid be"
    using assms by (auto simp: underway_def)
  with tables.store_holds[OF V(1,3), of enum] assms show ?thesis by (auto simp: underway_def)
qed

lemma underway_done: "underway valid E [] T db \<Longrightarrow> stores db (ledgerOf T)"
  by (auto simp: underway_def tablesHold_def)

definition toRead :: "'b BucketApplicator \<Rightarrow> 'b BucketEntry list" where
  "toRead ap = (if good ap then unread ap else [])"

lemma advanceLoop_underway:
  "underway valid E (es @ fs) T db \<Longrightarrow>
    \<exists>ap db'. advanceLoop enum valid es n db = Inr (ap, db') \<and> underway valid E (toRead ap @ fs) T db'"
proof (induction es arbitrary: n db)
  case (Cons be es)
  obtain db1 where step: "applyEntry enum valid be db = Inr db1" "underway valid E (es @ fs) T db1"
    using underway_step[of valid E be "es @ fs" T db] Cons.prems by auto
  then show ?case using Cons.IH[OF step(2)] by (simp add: toRead_def)
qed (simp add: toRead_def)

lemma applicator_advance_underway:
  assumes "underway valid E (toRead ap @ fs) T db" "good ap"
  shows "\<exists>ap' db'. applicator_advance enum valid ap db = Inr (ap', db') \<and> underway valid E (toRead ap' @ fs) T db' \<and>
    remaining ap' < remaining ap"
proof -
  have "underway valid E (unread ap @ fs) T db" using assms by (simp add: toRead_def)
  from advanceLoop_underway[OF this, of enum "mSize ap"] obtain ap' db' where
    r: "applicator_advance enum valid ap db = Inr (ap', db')" "underway valid E (toRead ap' @ fs) T db'"
    using assms(2) by (auto simp: applicator_advance_def)
  with applicator_advance_remaining[OF r(1) assms(2)] show ?thesis by blast
qed

section \<open>Entries one by one\<close>

text \<open>Applying a bucket in pieces is applying its entries one after the other.\<close>

lemma advanceLoop_foldE:
  "bindE (advanceLoop enum valid es n db) (\<lambda>p. foldE (applyEntry enum valid) (toRead (fst p)) (snd p)) = foldE (applyEntry enum valid) es db"
  by (induction es arbitrary: n db) (auto simp: toRead_def bindE_assoc intro!: bindE_cong)

lemma applyLoop_foldE: "applyLoop enum valid ap db = foldE (applyEntry enum valid) (toRead ap) db"
proof (induction enum valid ap db rule: applyLoop.induct)
  case (1 enum valid ap db)
  show ?case
  proof (cases "good ap")
    case True
    have "applyLoop enum valid ap db = bindE (applicator_advance enum valid ap db) (\<lambda>p. foldE (applyEntry enum valid) (toRead (fst p)) (snd p))"
      using True 1[OF True] by (subst applyLoop.simps) (auto intro!: bindE_cong)
    then show ?thesis using True advanceLoop_foldE by (simp add: applicator_advance_def toRead_def)
  next
    case False
    then show ?thesis by (subst applyLoop.simps) (simp add: toRead_def)
  qed
qed

lemma bucket_apply_foldE: "bucket_apply enum valid b db = foldE (applyEntry enum valid) (bucketEntries b) db"
  by (simp add: bucket_apply_def applyLoop_foldE mkBucketApplicator_def toRead_def)

lemma bucket_apply_holds:
  assumes "tablesHold E db V" "set (bucketEntries b) \<subseteq> E" "\<forall>be\<in>E. restorable valid be" "sortedBucket B b" "distinctTypes B"
  shows "\<exists>db'. bucket_apply enum valid b db = Inr db' \<and> tablesHold E db' (V ++ contents b)"
proof -
  have "\<forall>be\<in>set (bucketEntries b). be \<in> E \<and> restorable valid be" using assms(2,3) by blast
  from tables.foldE_holds[OF assms(1) this, of enum] show ?thesis
    using putEntries_sorted[of B "bucketEntries b" V] assms(4,5)
    by (simp add: bucket_apply_foldE putEntries_foldl sortedBucket_def)
qed

section \<open>Types that cannot be restored\<close>

lemma typeOf_rowOf: "typeOf (keyId (rowOf k)) = typeOf (keyId k)"
  by (simp add: rowOf_def split: LedgerId.split)

lemma helper_storeDelete_keeps:
  assumes "helper_storeDelete enum k' (d, db) = Inr (d', db')" "typeOf (keyId k) \<in> neverExists"
  shows "dbRows db' (rowOf k) = dbRows db (rowOf k)"
proof -
  have "rowOf k \<noteq> rowOf k'" if "typeOf (keyId k') \<notin> neverExists" using that assms(2) typeOf_rowOf by metis
  then show ?thesis
    using assms(1) by (auto simp: helper_storeDelete_def neverExists_def sqlDelete_def flushCachedEntry_def bindE_Inr_iff Let_def
        split: if_splits)
qed

lemma storeUpdateHelper_keeps:
  "storeUpdateHelper enum valid ins e (d, db) = Inr (d', db') \<Longrightarrow> dbRows db r \<noteq> None \<or> r = rowOf (entryKey e) \<Longrightarrow>
    dbRows db' r \<noteq> None"
  by (auto simp: storeUpdateHelper_def sqlInsert_def sqlUpdate_def flushCachedEntry_def bindE_Inr_iff touch_def assertE_def Let_def
      split: if_splits)

lemma applyEntry_LIVEENTRY:
  "applyEntry enum valid (LIVEENTRY e) db = Inr db' \<Longrightarrow>
    \<exists>d. storeUpdateHelper enum valid (\<not> helper_exists (entryKey e) db) e (mkLedgerDelta defaultHeader False, db) = Inr (d, db')"
  by (auto simp: applyEntry_def fromXDREntry_def storeAddOrChangeEntry_def existsEntry_def LedgerEntryKey_def storeAddEntry_def
      storeChangeEntry_def bindE_Inr_iff Let_def split: if_splits)

lemma applyEntry_keeps:
  assumes "applyEntry enum valid be db = Inr db'" "typeOf (keyId k) \<in> neverExists"
    "dbRows db (rowOf k) \<noteq> None \<or> (\<exists>e. be = LIVEENTRY e \<and> rowOf (entryKey e) = rowOf k)"
  shows "dbRows db' (rowOf k) \<noteq> None"
proof (cases be)
  case (LIVEENTRY e)
  obtain d where "storeUpdateHelper enum valid (\<not> helper_exists (entryKey e) db) e (mkLedgerDelta defaultHeader False, db) = Inr (d, db')"
    using applyEntry_LIVEENTRY assms(1) LIVEENTRY by blast
  then show ?thesis by (rule storeUpdateHelper_keeps) (use assms(3) LIVEENTRY in auto)
next
  case (DEADENTRY k')
  obtain d where "helper_storeDelete enum k' (mkLedgerDelta defaultHeader False, db) = Inr (d, db')"
    using assms(1) DEADENTRY by (auto simp: applyEntry_def storeDeleteEntry_def bindE_Inr_iff Let_def)
  from helper_storeDelete_keeps[OF this assms(2)] assms(3) DEADENTRY show ?thesis by simp
qed

lemma applyEntry_fails:
  assumes "typeOf (entryId e) \<in> neverExists" "dbRows db (rowOf (entryKey e)) \<noteq> None"
  shows "applyEntry enum valid (LIVEENTRY e) db \<noteq> Inr db'"
proof
  assume "applyEntry enum valid (LIVEENTRY e) db = Inr db'"
  moreover have "\<not> helper_exists (entryKey e) db" using assms(1) by (simp add: helper_exists_def Let_def)
  ultimately obtain d where "storeUpdateHelper enum valid True e (mkLedgerDelta defaultHeader False, db) = Inr d"
    using applyEntry_LIVEENTRY[of enum valid e db db'] by auto
  then show False
    using assms(2) by (auto simp: storeUpdateHelper_def touch_def mkLedgerDelta_def sqlInsert_def flushCachedEntry_def Let_def split: if_splits)
qed

lemma applyEntries_keep:
  "foldE (applyEntry enum valid) es db = Inr db' \<Longrightarrow> typeOf (keyId k) \<in> neverExists \<Longrightarrow>
    dbRows db (rowOf k) \<noteq> None \<or> (\<exists>e. LIVEENTRY e \<in> set es \<and> rowOf (entryKey e) = rowOf k) \<Longrightarrow> dbRows db' (rowOf k) \<noteq> None"
proof (induction es arbitrary: db)
  case (Cons be es)
  obtain db1 where db1: "applyEntry enum valid be db = Inr db1" "foldE (applyEntry enum valid) es db1 = Inr db'"
    using Cons.prems(1) by (auto simp: bindE_Inr_iff)
  show ?case using Cons.IH[OF db1(2) Cons.prems(2)] applyEntry_keeps[OF db1(1) Cons.prems(2)] Cons.prems(3) by auto
qed simp

lemma applyEntries_fail:
  "LIVEENTRY e \<in> set es \<Longrightarrow> typeOf (entryId e) \<in> neverExists \<Longrightarrow> dbRows db (rowOf (entryKey e)) \<noteq> None \<Longrightarrow>
    foldE (applyEntry enum valid) es db \<noteq> Inr db'"
proof (induction es arbitrary: db)
  case (Cons be es)
  show ?case
  proof
    assume "foldE (applyEntry enum valid) (be # es) db = Inr db'"
    then obtain db1 where db1: "applyEntry enum valid be db = Inr db1" "foldE (applyEntry enum valid) es db1 = Inr db'"
      by (auto simp: bindE_Inr_iff)
    have "be \<noteq> LIVEENTRY e" using applyEntry_fails[OF Cons.prems(2,3)] db1(1) by auto
    moreover have "dbRows db1 (rowOf (entryKey e)) \<noteq> None"
      using applyEntry_keeps[OF db1(1) Cons.prems(2)] Cons.prems(3) by blast
    ultimately show False using Cons.IH[OF _ Cons.prems(2), of db1] Cons.prems(1) db1(2) by simp
  qed
qed simp

lemma rowOf_identity: "typeOf (keyId k) \<in> neverExists \<Longrightarrow> keyId k' = keyId k \<Longrightarrow> rowOf k' = rowOf k"
  by (cases "keyId k") (simp_all add: rowOf_def neverExists_def)

end
