(* ===== verification/CatchUp.thy ===== *)
theory CatchUp
  imports BucketApplyCorrect
begin

text \<open>
  A new node that catches up from an archive. The work goes through the levels from the oldest to the
  youngest and applies every bucket piece by piece; each callback either moves an applicator forward or
  finishes a level. Started on a node with an empty ledger it ends after finitely many callbacks with the
  tables and the bucket list of the archived ledger.
\<close>

section \<open>Buckets by the name of their hash\<close>





text \<open>Managers that differ at most in the buckets held in memory.\<close>

definition sameBuckets :: "'b BucketManager \<Rightarrow> 'b BucketManager \<Rightarrow> bool" where
  "sameBuckets bm bm' \<longleftrightarrow> (omap_wf (mSharedBuckets bm) \<longrightarrow> omap_wf (mSharedBuckets bm')) \<and>
     (\<forall>h. fst (getBucketByHash h bm') = fst (getBucketByHash h bm))"


lemma sameBuckets_refl [simp]: "sameBuckets bm bm"
  by (simp add: sameBuckets_def)



section \<open>Working through the buckets of a level\<close>

definition optRead :: "'b BucketApplicator option \<Rightarrow> 'b BucketEntry list" where
  "optRead p = (case p of Some ap \<Rightarrow> toRead ap | None \<Rightarrow> [])"

definition optRemaining :: "'b BucketApplicator option \<Rightarrow> nat" where
  "optRemaining p = (case p of Some ap \<Rightarrow> remaining ap | None \<Rightarrow> 0)"



lemma opt_simps [simp]: "optRead (Some ap) = toRead ap" "optRemaining (Some ap) = remaining ap"
  by (simp_all add: optRead_def optRemaining_def)





section \<open>A level\<close>










section \<open>All levels\<close>












section \<open>Catching up\<close>

lemma reset_starts_over: "mkApplyBucketsWork lcl L = Inr w \<Longrightarrow> workLevel (work_reset w') = workLevel w \<and> work_reset w = w"
  by (auto simp: mkApplyBucketsWork_def work_reset_def onReset_def split: if_splits)






abbreviation emptyDatabase :: "'b Database" where
  "emptyDatabase \<equiv> \<lparr>dbRows = Map.empty, dbCache = Map.empty\<rparr>"



section \<open>A ledger to catch up with\<close>






section \<open>Properties\<close>



text \<open>C34. The helpers of limits by account, limits by account type and statistics of the second version do
  not find the entries they have stored. Such an entry that was changed after it went into a bucket
  stops every node that catches up: applying the older and then the newer bucket always fails.\<close>

theorem changed_limits_stop_catchup:
  assumes "typeOf (entryId old) \<in> {ACCOUNT_LIMITS, ACCOUNT_TYPE_LIMITS, STATISTICS_V2}" "entryId new = entryId old"
    "LIVEENTRY old \<in> set (bucketEntries older)" "LIVEENTRY new \<in> set (bucketEntries newer)"
  shows "\<exists>f. bindE (bucket_apply enum valid older db) (bucket_apply enum valid newer) = Inl f"
proof (cases "bucket_apply enum valid older db")
  case (Inr db')
  have ty: "typeOf (entryId old) \<in> neverExists" "typeOf (entryId new) \<in> neverExists" using assms(1,2) by (simp_all add: neverExists_def)
  have "dbRows db' (rowOf (entryKey old)) \<noteq> None"
    using applyEntries_keep[OF _ ty(1)] Inr assms(3) unfolding bucket_apply_foldE by blast
  then have "dbRows db' (rowOf (entryKey new)) \<noteq> None" using rowOf_identity[OF ty(1) assms(2)] by simp
  from applyEntries_fail[OF assms(4) ty(2) this, of enum valid] have "bucket_apply enum valid newer db' \<noteq> Inr x" for x
    by (simp add: bucket_apply_foldE)
  then show ?thesis using Inr by (cases "bucket_apply enum valid newer db'") auto
qed simp

theorem changed_limits_stop_catchup_witness:
  "\<exists>f. bindE (bucket_apply demoEnum (\<lambda>_. True) \<lparr>bucketEntries = [LIVEENTRY (demoEntry (StatisticsV2Id 7) 1)], mHash = ''a''\<rparr> emptyDatabase)
      (bucket_apply demoEnum (\<lambda>_. True) \<lparr>bucketEntries = [LIVEENTRY (demoEntry (StatisticsV2Id 7) 2)], mHash = ''b''\<rparr>) = Inl f"
  by (rule changed_limits_stop_catchup[of "demoEntry (StatisticsV2Id 7) 1" "demoEntry (StatisticsV2Id 7) 2"]) simp_all

end
