(* ===== verification/LedgerSync.thy ===== *)
theory LedgerSync
  imports BucketApply
begin

text \<open>
  How a node stays in step with the network: \<open>externalizeValue\<close>, \<open>startCatchUp\<close>, \<open>verifyCatchupCandidate\<close>,
  \<open>historyCaughtup\<close> and \<open>closeLedger\<close> of \<^verbatim>\<open>ledger/LedgerManagerImpl.cpp\<close>, and \<open>catchupHistory\<close> with the
  arithmetic of checkpoints of \<^verbatim>\<open>history/HistoryManagerImpl.cpp\<close>. Ledgers the network closes while the
  node catches up are kept in \<open>mSyncingLedgers\<close> and closed afterwards. The work that catches up is represented by what it
  was started with; it ends by calling back. Closing a ledger applies its transactions, which is the argument
  \<open>applyTxSet\<close>: it gives the delta and the header they lead to. Publishing, metrics and logging are not
  modelled. An exception ends the process, so there is no state after a failure.
\<close>

section \<open>Data\<close>

datatype CatchupMode = CATCHUP_COMPLETE | CATCHUP_MINIMAL | CATCHUP_RECENT | CATCHUP_BUCKET_REPAIR

datatype VerifyHashStatus = VERIFY_HASH_OK | VERIFY_HASH_BAD | VERIFY_HASH_UNKNOWN

datatype LmState = LM_BOOTING_STATE | LM_SYNCED_STATE | LM_CATCHING_UP_STATE

record LedgerHeaderHistoryEntry =
  entryHash :: Hash
  entryHeader :: LedgerHeader

abbreviation entrySeq :: "LedgerHeaderHistoryEntry \<Rightarrow> uint32" where
  "entrySeq e \<equiv> ledgerSeq (entryHeader e)"

record TxSetFrame =
  mPreviousLedgerHash :: Hash
  mTransactions :: "bytes list"

record LedgerCloseData =
  mLedgerSeq :: uint32
  mTxSet :: TxSetFrame
  mValue :: StellarValue

record CatchupWork =
  mInitLedger :: uint32
  catchupMode :: CatchupMode
  mManualCatchup :: bool

record 'b Node =
  manager :: "'b LedgerManager"
  lmState :: LmState
  mSyncingLedgers :: "LedgerCloseData list"
  mCatchupWork :: "CatchupWork option"

text \<open>
  The configuration, the hash functions, what transactions do, which merges are done when a ledger is closed,
  and whether, and with what still in use, buckets are forgotten after it.
\<close>

record 'b NodeContext =
  bucketContext :: "'b BucketContext"
  cfgCatchupComplete :: bool
  cfgCatchupRecent :: uint32
  cfgAccelerate :: bool
  cfgPessimize :: bool
  headerHashOf :: "LedgerHeader \<Rightarrow> Hash"
  contentsHash :: "TxSetFrame \<Rightarrow> Hash"
  applyTxSet :: "LedgerCloseData \<Rightarrow> 'b LedgerManager \<Rightarrow> ('b LedgerDelta \<times> LedgerHeader) result"
  mergesReady :: "uint32 \<Rightarrow> nat \<Rightarrow> bool"
  forgetsNow :: "uint32 \<Rightarrow> bool"
  publishing :: "uint32 \<Rightarrow> string list"
  holdsBucket :: "uint32 \<Rightarrow> Hash \<Rightarrow> bool"

definition getLastClosedLedgerHeader :: "'b Node \<Rightarrow> LedgerHeaderHistoryEntry" where
  "getLastClosedLedgerHeader n =
     \<lparr>entryHash = mLastClosedHash (manager n), entryHeader = mLastClosedHeader (manager n)\<rparr>"

definition getLastClosedLedgerNum :: "'b Node \<Rightarrow> uint32" where
  "getLastClosedLedgerNum n = ledgerSeq (mLastClosedHeader (manager n))"

section \<open>Checkpoints\<close>

definition getCheckpointFrequency :: "'b NodeContext \<Rightarrow> uint32" where
  "getCheckpointFrequency C = (if cfgAccelerate C then 8 else 64)"

definition prevCheckpointLedger :: "'b NodeContext \<Rightarrow> uint32 \<Rightarrow> uint32" where
  "prevCheckpointLedger C ledger = ledger div getCheckpointFrequency C * getCheckpointFrequency C"

definition nextCheckpointLedger :: "'b NodeContext \<Rightarrow> uint32 \<Rightarrow> uint32" where
  "nextCheckpointLedger C ledger =
     (let freq = getCheckpointFrequency C in
      if ledger = 0 then freq else (ledger + freq - 1) div freq * freq)"

section \<open>Closing a ledger\<close>

definition closeLedger :: "'b NodeContext \<Rightarrow> LedgerCloseData \<Rightarrow> 'b Node \<Rightarrow> 'b Node result" where
  "closeLedger C ledgerData n =
     (let lm = manager n; seq = ledgerSeq (mCurrentLedger lm) in
      if mPreviousLedgerHash (mTxSet ledgerData) \<noteq> mLastClosedHash lm then Inl (RuntimeError ''txset mismatch'')
      else if contentsHash C (mTxSet ledgerData) \<noteq> txSetHash (mValue ledgerData)
      then Inl (RuntimeError ''corrupt transaction set'')
      else let lm1 = lm\<lparr>mCurrentLedger := (mCurrentLedger lm)\<lparr>scpValue := mValue ledgerData\<rparr>\<rparr> in
        bindE (applyTxSet C ledgerData lm1) (\<lambda>(delta, h).
        bindE (closeLedgerHelper (bucketContext C) (headerHashOf C) (cfgPessimize C) (mergesReady C seq) delta
                (lm1\<lparr>mCurrentLedger := h\<rparr>)) (\<lambda>lm2.
        if lmState n \<noteq> LM_CATCHING_UP_STATE \<and> forgetsNow C seq
        then bindE (forgetUnreferencedBuckets (publishing C seq) (holdsBucket C seq) (mBuckets lm2)) (\<lambda>bm.
          Inr (n\<lparr>manager := lm2\<lparr>mBuckets := bm\<rparr>\<rparr>))
        else Inr (n\<lparr>manager := lm2\<rparr>))))"

text \<open>The constructor of a header frame on a closed ledger.\<close>

definition headerAfter :: "'b NodeContext \<Rightarrow> LedgerHeaderHistoryEntry \<Rightarrow> LedgerHeader result" where
  "headerAfter C lastClosed =
     (if headerHashOf C (entryHeader lastClosed) \<noteq> entryHash lastClosed
      then Inl (RuntimeError ''provided ledger header is invalid'')
      else Inr ((entryHeader lastClosed)\<lparr>ledgerSeq := entrySeq lastClosed + 1, previousLedgerHash := entryHash lastClosed\<rparr>))"

section \<open>Starting to catch up\<close>

definition getCatchupMode :: "'b NodeContext \<Rightarrow> CatchupMode" where
  "getCatchupMode C =
     (if cfgCatchupComplete C then CATCHUP_COMPLETE
      else if cfgCatchupRecent C = 0 then CATCHUP_MINIMAL else CATCHUP_RECENT)"

definition catchupHistory :: "'b NodeContext \<Rightarrow> uint32 \<Rightarrow> CatchupMode \<Rightarrow> bool \<Rightarrow> 'b Node \<Rightarrow> 'b Node result" where
  "catchupHistory C initLedger mode manualCatchup n =
     bindE (assertE (mode \<noteq> CATCHUP_BUCKET_REPAIR)) (\<lambda>_.
     if mCatchupWork n \<noteq> None then Inl (RuntimeError ''Catchup already in progress'')
     else let lcl = getLastClosedLedgerNum n;
              mode' = (if mode = CATCHUP_RECENT \<and> lcl < initLedger \<and> initLedger - lcl \<le> cfgCatchupRecent C
                       then CATCHUP_COMPLETE else mode)
          in Inr (n\<lparr>mCatchupWork := Some \<lparr>mInitLedger = initLedger, catchupMode = mode', mManualCatchup = manualCatchup\<rparr>\<rparr>))"

definition startCatchUp :: "'b NodeContext \<Rightarrow> uint32 \<Rightarrow> CatchupMode \<Rightarrow> bool \<Rightarrow> 'b Node \<Rightarrow> 'b Node result" where
  "startCatchUp C initLedger resume manualCatchup n =
     catchupHistory C initLedger resume manualCatchup (n\<lparr>lmState := LM_CATCHING_UP_STATE\<rparr>)"

section \<open>Consensus on a ledger\<close>

definition externalizeValue :: "'b NodeContext \<Rightarrow> LedgerCloseData \<Rightarrow> 'b Node \<Rightarrow> 'b Node result" where
  "externalizeValue C ledgerData n =
     (case lmState n of
        LM_CATCHING_UP_STATE \<Rightarrow>
          if mSyncingLedgers n = [] \<or> mLedgerSeq (last (mSyncingLedgers n)) + 1 = mLedgerSeq ledgerData
          then Inr (n\<lparr>mSyncingLedgers := mSyncingLedgers n @ [ledgerData]\<rparr>)
          else Inr n
      | _ \<Rightarrow>
          if getLastClosedLedgerNum n + 1 = mLedgerSeq ledgerData
          then if mLastClosedHash (manager n) = mPreviousLedgerHash (mTxSet ledgerData)
               then closeLedger C ledgerData (n\<lparr>lmState := LM_SYNCED_STATE\<rparr>)
               else Inl (RuntimeError ''Network consensus inconsistency'')
          else if mLedgerSeq ledgerData \<le> getLastClosedLedgerNum n then Inr n
          else bindE (assertE (length (mSyncingLedgers n) = 0)) (\<lambda>_.
            startCatchUp C (mLedgerSeq ledgerData) (getCatchupMode C) False
              (n\<lparr>mSyncingLedgers := mSyncingLedgers n @ [ledgerData]\<rparr>)))"

section \<open>Judging a ledger from the archive\<close>

text \<open>\<open>CHECK_PAIR\<close> for the pairs of numbers and hashes in turn: the first pair with the number of the candidate decides.\<close>

fun checkPairs :: "Hash \<Rightarrow> (uint32 \<times> uint32 \<times> Hash) list \<Rightarrow> VerifyHashStatus" where
  "checkPairs bhash [] = VERIFY_HASH_UNKNOWN"
| "checkPairs bhash ((aseq, bseq, ahash) # ps) =
     (if aseq = bseq then if ahash = bhash then VERIFY_HASH_OK else VERIFY_HASH_BAD else checkPairs bhash ps)"

definition verifyCatchupCandidate :: "LedgerHeaderHistoryEntry \<Rightarrow> 'b Node \<Rightarrow> VerifyHashStatus" where
  "verifyCatchupCandidate candidate n =
     (let lm = manager n; seq = entrySeq candidate in
      checkPairs (entryHash candidate)
        ([(ledgerSeq (mLastClosedHeader lm), seq, mLastClosedHash lm),
          (ledgerSeq (mLastClosedHeader lm), seq + 1, previousLedgerHash (mLastClosedHeader lm)),
          (ledgerSeq (mCurrentLedger lm), seq + 1, previousLedgerHash (mCurrentLedger lm))]
         @ map (\<lambda>ld. (mLedgerSeq ld, seq + 1, mPreviousLedgerHash (mTxSet ld))) (mSyncingLedgers n)))"

section \<open>Caught up\<close>

text \<open>Replaying what was kept. The result is the node and whether catching up was started anew. The code reads the
  number of the last ledger kept through a reference after the container was cleared; the number read is taken to be
  the one that was there.\<close>

fun replayLoop :: "'b NodeContext \<Rightarrow> LedgerCloseData list \<Rightarrow> 'b Node \<Rightarrow> ('b Node \<times> bool) result" where
  "replayLoop C [] n = Inr (n, False)"
| "replayLoop C (lcd # lcds) n =
     (let lcl = getLastClosedLedgerNum n in
      if mLedgerSeq lcd < lcl + 1
      then bindE (if mLedgerSeq lcd = lcl
                  then bindE (assertE (contentsHash C (mTxSet lcd) = txSetHash (mValue lcd))) (\<lambda>_.
                       assertE (mValue lcd = scpValue (mLastClosedHeader (manager n))))
                  else Inr ()) (\<lambda>_. replayLoop C lcds n)
      else if mLedgerSeq lcd = lcl + 1
      then bindE (closeLedger C lcd n) (\<lambda>n'. replayLoop C lcds n')
      else bindE (assertE (lcl + 1 < mLedgerSeq lcd)) (\<lambda>_.
           bindE (startCatchUp C (mLedgerSeq (last (mSyncingLedgers n))) (getCatchupMode C) False
                   (n\<lparr>mSyncingLedgers := []\<rparr>)) (\<lambda>n'. Inr (n', True))))"

definition depositLedger :: "'b NodeContext \<Rightarrow> LedgerHeaderHistoryEntry \<Rightarrow> 'b Node \<Rightarrow> 'b Node result" where
  "depositLedger C lastClosed n =
     bindE (headerAfter C lastClosed) (\<lambda>h.
     Inr (n\<lparr>manager := (manager n)\<lparr>mLastClosedHash := entryHash lastClosed, mLastClosedHeader := entryHeader lastClosed,
       mCurrentLedger := h\<rparr>\<rparr>))"

text \<open>After a minimal catchup the ledger is taken over; after a complete one it has been reached by replaying.\<close>

definition adoptLedger :: "'b NodeContext \<Rightarrow> CatchupMode \<Rightarrow> LedgerHeaderHistoryEntry \<Rightarrow> 'b Node \<Rightarrow> 'b Node result" where
  "adoptLedger C mode lastClosed n =
     (if mode = CATCHUP_MINIMAL then depositLedger C lastClosed n
      else bindE (assertE (mode = CATCHUP_COMPLETE)) (\<lambda>_.
           bindE (assertE (entryHash lastClosed = mLastClosedHash (manager n))) (\<lambda>_.
           bindE (assertE (entryHeader lastClosed = mLastClosedHeader (manager n))) (\<lambda>_. Inr n))))"

definition historyCaughtup :: "'b NodeContext \<Rightarrow> bool \<Rightarrow> CatchupMode \<Rightarrow> LedgerHeaderHistoryEntry \<Rightarrow> 'b Node \<Rightarrow> 'b Node result" where
  "historyCaughtup C ec mode lastClosed n =
     (if ec then Inr (n\<lparr>lmState := LM_BOOTING_STATE, mSyncingLedgers := []\<rparr>)
      else if mode = CATCHUP_RECENT then depositLedger C lastClosed n
      else bindE (adoptLedger C mode lastClosed n) (\<lambda>n1.
           bindE (replayLoop C (mSyncingLedgers n1) n1) (\<lambda>(n2, restarted).
           Inr (if restarted then n2 else n2\<lparr>lmState := LM_SYNCED_STATE, mSyncingLedgers := []\<rparr>))))"

text \<open>The works call \<open>HistoryManagerImpl::historyCaughtup\<close> before they call back.\<close>

definition catchupDone :: "'b NodeContext \<Rightarrow> bool \<Rightarrow> CatchupMode \<Rightarrow> LedgerHeaderHistoryEntry \<Rightarrow> 'b Node \<Rightarrow> 'b Node result" where
  "catchupDone C ec mode lastClosed n = historyCaughtup C ec mode lastClosed (n\<lparr>mCatchupWork := None\<rparr>)"

text \<open>The operator may ask a node that is in sync to catch up with some ledger; \<open>ledger\<close> is zero when it cannot be
  parsed.\<close>

definition parseMode :: "string option \<Rightarrow> CatchupMode option" where
  "parseMode mode =
     (if mode = None \<or> mode = Some ''minimal'' then Some CATCHUP_MINIMAL
      else if mode = Some ''complete'' then Some CATCHUP_COMPLETE
      else if mode = Some ''recent'' then Some CATCHUP_RECENT else None)"

definition catchupCommand :: "'b NodeContext \<Rightarrow> uint32 \<Rightarrow> string option \<Rightarrow> 'b Node \<Rightarrow> 'b Node result" where
  "catchupCommand C ledger mode n =
     (if lmState n \<noteq> LM_SYNCED_STATE \<or> ledger = 0 then Inr n
      else case parseMode mode of None \<Rightarrow> Inr n | Some m \<Rightarrow> startCatchUp C ledger m True n)"

section \<open>An example\<close>

text \<open>A chain whose hashes are runs of a letter, and a node whose transactions change nothing.\<close>

definition demoReal :: "nat \<Rightarrow> LedgerHeader" where
  "demoReal i = defaultHeader\<lparr>ledgerSeq := of_nat i, previousLedgerHash := replicate i CHR ''a''\<rparr>"

definition demoNodeContext :: "nat NodeContext" where
  "demoNodeContext = \<lparr>bucketContext = demoContext, cfgCatchupComplete = False, cfgCatchupRecent = 0, cfgAccelerate = True,
     cfgPessimize = False,
     headerHashOf = (\<lambda>h. if h = demoReal (unat (ledgerSeq h)) then replicate (Suc (unat (ledgerSeq h))) CHR ''a'' else []),
     contentsHash = (\<lambda>t. zeroHash), applyTxSet = (\<lambda>lcd lm. Inr (mkLedgerDelta (mCurrentLedger lm) False, mCurrentLedger lm)),
     mergesReady = (\<lambda>seq i. False), forgetsNow = (\<lambda>seq. False), publishing = (\<lambda>seq. []), holdsBucket = (\<lambda>seq h. False)\<rparr>"

definition demoEntryOf :: "nat \<Rightarrow> LedgerHeaderHistoryEntry" where
  "demoEntryOf i = \<lparr>entryHash = replicate (Suc i) CHR ''a'', entryHeader = demoReal i\<rparr>"

lemma demoReal_simps [simp]: "ledgerSeq (demoReal i) = of_nat i" "previousLedgerHash (demoReal i) = replicate i CHR ''a''"
  by (simp_all add: demoReal_def)

lemma demo_hash:
  "i < 2 ^ 32 \<Longrightarrow> headerHashOf demoNodeContext h = replicate (Suc i) CHR ''a'' \<longleftrightarrow> h = demoReal i"
  by (auto simp: demoNodeContext_def unat_of_nat unsigned_of_nat take_bit_nat_eq_self_iff simp del: replicate_Suc)

end
