(* ===== verification/LedgerChain.thy ===== *)
theory LedgerChain
  imports LedgerSync
begin

text \<open>
  Verifying the chain of ledger headers an archive offers, \<open>VerifyLedgerChainWork\<close> of
  \<^verbatim>\<open>history/HistoryWork.cpp\<close>. The headers come in a file for each checkpoint, \<open>files\<close>; a file that
  cannot be opened is \<^term>\<open>None\<close>. The work verifies one file in every turn and asks the ledger manager about the
  last one. The manager changes between the turns, so every turn has the node it finds.
\<close>

section \<open>The checkpoints to catch up with\<close>

definition nextLedger :: "'b NodeContext \<Rightarrow> CatchupWork \<Rightarrow> uint32" where
  "nextLedger C cw = (if mManualCatchup cw then mInitLedger cw else nextCheckpointLedger C (mInitLedger cw))"

definition lastCheckpointSeq :: "'b NodeContext \<Rightarrow> CatchupWork \<Rightarrow> uint32" where
  "lastCheckpointSeq C cw = nextLedger C cw - 1"

definition minimal_firstCheckpointSeq :: "'b NodeContext \<Rightarrow> CatchupWork \<Rightarrow> uint32" where
  "minimal_firstCheckpointSeq C cw =
     (let firstLedger = (if cfgCatchupRecent C < mInitLedger cw then mInitLedger cw - cfgCatchupRecent C else 0)
      in nextCheckpointLedger C firstLedger - 1)"

definition complete_firstCheckpointSeq :: "'b NodeContext \<Rightarrow> 'b HistoryArchiveState \<Rightarrow> uint32" where
  "complete_firstCheckpointSeq C localState = nextCheckpointLedger C (currentLedger localState) - 1"

section \<open>Verifying a chain\<close>

text \<open>An entry as XDR initialises it.\<close>

definition noEntry :: LedgerHeaderHistoryEntry where
  "noEntry = \<lparr>entryHash = zeroHash, entryHeader = defaultHeader\<rparr>"

definition verifyLedgerHistoryEntry :: "'b NodeContext \<Rightarrow> LedgerHeaderHistoryEntry \<Rightarrow> VerifyHashStatus" where
  "verifyLedgerHistoryEntry C hhe =
     (if headerHashOf C (entryHeader hhe) \<noteq> entryHash hhe then VERIFY_HASH_BAD else VERIFY_HASH_OK)"

definition verifyLedgerHistoryLink :: "'b NodeContext \<Rightarrow> Hash \<Rightarrow> LedgerHeaderHistoryEntry \<Rightarrow> VerifyHashStatus" where
  "verifyLedgerHistoryLink C prev cur =
     (if verifyLedgerHistoryEntry C cur \<noteq> VERIFY_HASH_OK then VERIFY_HASH_BAD
      else if prev \<noteq> previousLedgerHash (entryHeader cur) then VERIFY_HASH_BAD
      else VERIFY_HASH_OK)"

text \<open>The loop over a file: the last entry read, or nothing when the file is bad.\<close>

fun chainLoop :: "'b NodeContext \<Rightarrow> LedgerHeaderHistoryEntry \<Rightarrow> LedgerHeaderHistoryEntry \<Rightarrow> LedgerHeaderHistoryEntry list \<Rightarrow>
    LedgerHeaderHistoryEntry option" where
  "chainLoop C prev cur [] = Some cur"
| "chainLoop C prev cur (e # es) =
     (if entrySeq prev = 0 then chainLoop C e e es
      else let expectedSeq = entrySeq prev + 1 in
        if entrySeq e < expectedSeq then chainLoop C prev e es
        else if expectedSeq < entrySeq e then None
        else if verifyLedgerHistoryLink C (entryHash prev) e \<noteq> VERIFY_HASH_OK then None
        else chainLoop C e e es)"

record VerifyLedgerChainWork =
  mFirstSeq :: uint32
  mCurrSeq :: uint32
  mLastSeq :: uint32
  manualVerify :: bool
  mFirstVerified :: LedgerHeaderHistoryEntry
  mLastVerified :: LedgerHeaderHistoryEntry

definition mkVerifyLedgerChainWork :: "uint32 \<Rightarrow> uint32 \<Rightarrow> bool \<Rightarrow> LedgerHeaderHistoryEntry \<Rightarrow> LedgerHeaderHistoryEntry \<Rightarrow>
    VerifyLedgerChainWork" where
  "mkVerifyLedgerChainWork first lst manualCatchup firstVerified lastVerified =
     \<lparr>mFirstSeq = first, mCurrSeq = first, mLastSeq = lst, manualVerify = manualCatchup,
      mFirstVerified = firstVerified, mLastVerified = lastVerified\<rparr>"

definition verify_onReset :: "'b Node \<Rightarrow> VerifyLedgerChainWork \<Rightarrow> VerifyLedgerChainWork" where
  "verify_onReset n w =
     w\<lparr>mFirstVerified := (if entrySeq (mFirstVerified w) \<noteq> 0 then getLastClosedLedgerHeader n else mFirstVerified w),
       mLastVerified := (if entrySeq (mLastVerified w) \<noteq> 0 then getLastClosedLedgerHeader n else mLastVerified w),
       mCurrSeq := mFirstSeq w\<rparr>"

definition verifyHistoryOfSingleCheckpoint :: "'b NodeContext \<Rightarrow> (uint32 \<rightharpoonup> LedgerHeaderHistoryEntry list) \<Rightarrow> 'b Node \<Rightarrow>
    VerifyLedgerChainWork \<Rightarrow> (VerifyHashStatus \<times> VerifyLedgerChainWork) result" where
  "verifyHistoryOfSingleCheckpoint C files n w =
     (case files (mCurrSeq w) of
        None \<Rightarrow> Inl (RuntimeError ''failed to open XDR file'')
      | Some es \<Rightarrow> (case chainLoop C (mLastVerified w) noEntry es of
          None \<Rightarrow> Inr (VERIFY_HASH_BAD, w)
        | Some cur \<Rightarrow>
            if entrySeq cur \<noteq> mCurrSeq w then Inr (VERIFY_HASH_BAD, w)
            else let
              asked = (if mCurrSeq w = mLastSeq w then verifyCatchupCandidate cur n else VERIFY_HASH_OK);
              status = (if mCurrSeq w = mLastSeq w \<and> asked = VERIFY_HASH_UNKNOWN \<and> manualVerify w
                        then VERIFY_HASH_OK else asked);
              w1 = (if mCurrSeq w = mFirstSeq w then w\<lparr>mFirstVerified := cur\<rparr> else w)
            in Inr (status, if status = VERIFY_HASH_OK then w1\<lparr>mLastVerified := cur\<rparr> else w)))"

definition verify_onSuccess :: "'b NodeContext \<Rightarrow> (uint32 \<rightharpoonup> LedgerHeaderHistoryEntry list) \<Rightarrow> 'b Node \<Rightarrow>
    VerifyLedgerChainWork \<Rightarrow> (WorkState \<times> VerifyLedgerChainWork) result" where
  "verify_onSuccess C files n w =
     (if mLastSeq w < mCurrSeq w then Inl (RuntimeError ''Verification overshot target ledger'')
      else bindE (verifyHistoryOfSingleCheckpoint C files n w) (\<lambda>(status, w').
        case status of
          VERIFY_HASH_OK \<Rightarrow>
            if mCurrSeq w' = mLastSeq w' then Inr (WORK_SUCCESS, w')
            else Inr (WORK_RUNNING, w'\<lparr>mCurrSeq := mCurrSeq w' + getCheckpointFrequency C\<rparr>)
        | VERIFY_HASH_UNKNOWN \<Rightarrow> Inr (WORK_FAILURE_RETRY, w')
        | VERIFY_HASH_BAD \<Rightarrow> Inr (WORK_FAILURE_RAISE, w')))"

text \<open>The turns of the work: it is run again as long as it is running, in every turn with the node of that time.\<close>

fun verifyRuns :: "'b NodeContext \<Rightarrow> (uint32 \<rightharpoonup> LedgerHeaderHistoryEntry list) \<Rightarrow> 'b Node list \<Rightarrow>
    VerifyLedgerChainWork \<Rightarrow> (WorkState \<times> VerifyLedgerChainWork) result" where
  "verifyRuns C files [] w = Inr (WORK_RUNNING, w)"
| "verifyRuns C files (n # ns) w =
     bindE (verify_onSuccess C files n w) (\<lambda>(st, w').
     if st = WORK_RUNNING then verifyRuns C files ns w' else Inr (st, w'))"

end
