(* ===== verification/LedgerChainCorrect.thy ===== *)
theory LedgerChainCorrect
  imports LedgerChain
begin

text \<open>
  What verifying a chain of headers guarantees. If the files of the archive are in order, every header of the
  chain that is verified is the one the network agreed on, since the last one is compared with
  a hash the node knows from consensus and every other one is fixed by its successor.
\<close>

section \<open>Checkpoints\<close>

lemma frequency: "unat (getCheckpointFrequency C) \<in> {8, 64}"
  by (simp add: getCheckpointFrequency_def)

text \<open>The number of a checkpoint in terms of how many there are up to it.\<close>

lemma unat_nextCheckpoint:
  assumes "unat l + unat (getCheckpointFrequency C) < 2 ^ 32"
  shows "\<exists>k. unat (nextCheckpointLedger C l) = Suc k * unat (getCheckpointFrequency C) \<and>
    Suc k = (if l = 0 then 1 else (unat l + unat (getCheckpointFrequency C) - 1) div unat (getCheckpointFrequency C))"
proof (cases "l = 0")
  case False
  let ?f = "getCheckpointFrequency C"
  let ?q = "(unat l + unat ?f - 1) div unat ?f"
  have f: "0 < unat ?f" and l: "0 < unat l" using frequency[of C] False by (auto simp: unat_gt_0)
  have s: "unat (l + ?f - 1) = unat l + unat ?f - 1"
    using unat_next[OF assms] f l by (subst unat_sub) (auto simp: word_le_nat_alt)
  then have d: "unat ((l + ?f - 1) div ?f) = ?q" by (simp add: unat_div)
  have "?q * unat ?f < 2 ^ 32" using assms f by (meson div_times_less_eq_dividend le_less_trans less_imp_diff_less)
  then have "unat ((l + ?f - 1) div ?f * ?f) = ?q * unat ?f" using d by (subst unat_mult_lem[THEN iffD1]) simp_all
  moreover have "0 < ?q" using f l by (simp add: div_greater_zero_iff)
  ultimately show ?thesis using False by (intro exI[of _ "?q - 1"]) (simp add: nextCheckpointLedger_def Let_def)
qed (simp add: nextCheckpointLedger_def Let_def)

text \<open>The checkpoints a minimal catchup asks for, unless an operator gave the ledger, are whole numbers of checkpoints apart, so that the
  verification meets the last one and never overshoots it.\<close>

lemma checkpoint_range:
  assumes "\<not> mManualCatchup cw" "unat (mInitLedger cw) + unat (getCheckpointFrequency C) < 2 ^ 32"
  shows "\<exists>m. unat (lastCheckpointSeq C cw) = unat (minimal_firstCheckpointSeq C cw) + m * unat (getCheckpointFrequency C)"
proof -
  let ?f = "unat (getCheckpointFrequency C)"
  define l where "l = (if cfgCatchupRecent C < mInitLedger cw then mInitLedger cw - cfgCatchupRecent C else 0)"
  have le: "unat l \<le> unat (mInitLedger cw)" by (simp add: l_def unat_sub order_less_imp_le)
  obtain i where i: "unat (nextCheckpointLedger C (mInitLedger cw)) = Suc i * ?f"
      "Suc i = (if mInitLedger cw = 0 then 1 else (unat (mInitLedger cw) + ?f - 1) div ?f)"
    using unat_nextCheckpoint[OF assms(2)] by blast
  obtain j where j: "unat (nextCheckpointLedger C l) = Suc j * ?f" "Suc j = (if l = 0 then 1 else (unat l + ?f - 1) div ?f)"
    using unat_nextCheckpoint[OF le_less_trans[OF add_right_mono[OF le] assms(2)]] by blast
  have "(unat l + ?f - 1) div ?f \<le> (unat (mInitLedger cw) + ?f - 1) div ?f" using le by (intro div_le_mono) simp
  moreover have "mInitLedger cw = 0 \<Longrightarrow> l = 0" by (simp add: l_def)
  ultimately have "j \<le> i" using i(2) j(2) by (auto split: if_splits)
  then have "Suc i * ?f = Suc j * ?f + (i - j) * ?f" by (simp add: distrib_right[symmetric])
  moreover have pred: "unat (x - 1) = Suc k * ?f - 1" if "unat x = Suc k * ?f" for x :: uint32 and k
    using that frequency[of C] by (subst unat_sub) (auto simp: word_le_nat_alt)
  moreover have "1 \<le> Suc j * ?f" using frequency[of C] by auto
  ultimately have "Suc i * ?f - 1 = Suc j * ?f - 1 + (i - j) * ?f" by linarith
  then show ?thesis
    using pred[OF i(1)] pred[OF j(1)] assms(1)
    by (intro exI[of _ "i - j"]) (simp add: lastCheckpointSeq_def nextLedger_def minimal_firstCheckpointSeq_def l_def[symmetric])
qed

section \<open>Linked entries\<close>






lemma verifyLedgerHistoryLink_OK:
  "verifyLedgerHistoryLink C prev e = VERIFY_HASH_OK \<longleftrightarrow>
    headerHashOf C (entryHeader e) = entryHash e \<and> previousLedgerHash (entryHeader e) = prev"
  by (auto simp: verifyLedgerHistoryLink_def verifyLedgerHistoryEntry_def)



section \<open>A run of the work\<close>










section \<open>The chain of the network\<close>

text \<open>The ledgers of the network up to number \<open>N\<close>: numbered, linked, and with hashes nobody has another header for.\<close>

definition networkChain :: "'b NodeContext \<Rightarrow> (nat \<Rightarrow> LedgerHeader) \<Rightarrow> nat \<Rightarrow> bool" where
  "networkChain C real N \<longleftrightarrow>
     (\<forall>i<N. previousLedgerHash (real (Suc i)) = headerHashOf C (real i)) \<and>
     (\<forall>i\<le>N. ledgerSeq (real i) = of_nat i) \<and>
     (\<forall>i\<le>N. \<forall>h. headerHashOf C h = headerHashOf C (real i) \<longrightarrow> h = real i)"

definition hashGenuine :: "'b NodeContext \<Rightarrow> (nat \<Rightarrow> LedgerHeader) \<Rightarrow> LedgerHeaderHistoryEntry \<Rightarrow> bool" where
  "hashGenuine C real e \<longleftrightarrow> entryHash e = headerHashOf C (real (unat (entrySeq e)))"

definition genuine :: "'b NodeContext \<Rightarrow> (nat \<Rightarrow> LedgerHeader) \<Rightarrow> LedgerHeaderHistoryEntry \<Rightarrow> bool" where
  "genuine C real e \<longleftrightarrow> hashGenuine C real e \<and> entryHeader e = real (unat (entrySeq e))"







section \<open>An honest archive\<close>

definition entryOf :: "'b NodeContext \<Rightarrow> (nat \<Rightarrow> LedgerHeader) \<Rightarrow> nat \<Rightarrow> LedgerHeaderHistoryEntry" where
  "entryOf C real i = \<lparr>entryHash = headerHashOf C (real i), entryHeader = real i\<rparr>"

lemma entryOf_seq: "networkChain C real N \<Longrightarrow> i \<le> N \<Longrightarrow> entrySeq (entryOf C real i) = of_nat i"
  by (simp add: networkChain_def entryOf_def)

lemma chainLoop_step:
  assumes "networkChain C real N" "N + 1 < 2 ^ 32" "0 < p" "p \<le> N" "a \<le> N" "a \<le> Suc p"
  shows "chainLoop C (entryOf C real p) cur (entryOf C real a # es) =
    chainLoop C (entryOf C real (max p a)) (entryOf C real a) es"
proof -
  have seq: "entrySeq (entryOf C real p) = of_nat p" "entrySeq (entryOf C real a) = of_nat a"
    using entryOf_seq[OF assms(1)] assms(4,5) by auto
  have p0: "(of_nat p :: uint32) \<noteq> 0" using u32_compare(2)[of p 0] assms(2-4) by simp
  have lt: "((of_nat a :: uint32) < of_nat p + 1) = (a \<le> p)"
    using u32_compare(1)[of a "Suc p"] assms(2,4,5) by (simp add: less_Suc_eq_le add.commute)
  have gt: "\<not> (of_nat p + 1 :: uint32) < of_nat a"
    using u32_compare(1)[of "Suc p" a] assms(2,4-6) by (simp add: add.commute)
  have "verifyLedgerHistoryLink C (entryHash (entryOf C real p)) (entryOf C real a) = VERIFY_HASH_OK" if "\<not> a \<le> p"
  proof -
    have "a = Suc p" using that assms(6) by simp
    then show ?thesis using assms(1,5) by (auto simp: verifyLedgerHistoryLink_OK networkChain_def entryOf_def)
  qed
  then show ?thesis using seq p0 lt gt by (auto simp: Let_def max_def)
qed

lemma chainLoop_honest:
  assumes "networkChain C real N" "N + 1 < 2 ^ 32"
  shows "0 < p \<Longrightarrow> p \<le> N \<Longrightarrow> a \<le> Suc p \<Longrightarrow> b \<le> Suc N \<Longrightarrow>
    chainLoop C (entryOf C real p) cur (map (entryOf C real) [a..<b]) = Some (last (cur # map (entryOf C real) [a..<b]))"
proof (induction "b - a" arbitrary: a p cur)
  case (Suc d)
  then have ab: "[a..<b] = a # [Suc a..<b]" by (simp add: upt_conv_Cons)
  have "chainLoop C (entryOf C real (max p a)) (entryOf C real a) (map (entryOf C real) [Suc a..<b]) =
      Some (last (entryOf C real a # map (entryOf C real) [Suc a..<b]))"
    using Suc.hyps(2) Suc.prems by (intro Suc.hyps(1)) auto
  then show ?case using chainLoop_step[OF assms, of p a] Suc.prems Suc.hyps(2) ab by simp
qed simp








section \<open>An example\<close>

text \<open>A node that has closed the first ledger and heard of the eighth.\<close>

definition demoNode :: "nat Node" where
  "demoNode = \<lparr>manager = \<lparr>mCurrentLedger = demoReal 2, mLastClosedHash = ''aa'', mLastClosedHeader = demoReal 1,
       mBuckets = \<lparr>mSharedBuckets = [], bucketFiles = [], mBucketList = mkBucketList True\<rparr>,
       persistedLastClosed = [], persistedState = None\<rparr>,
     lmState = LM_CATCHING_UP_STATE,
     mSyncingLedgers = [\<lparr>mLedgerSeq = 8, mTxSet = \<lparr>mPreviousLedgerHash = replicate 8 CHR ''a'', mTransactions = []\<rparr>,
       mValue = \<lparr>txSetHash = zeroHash, closeTime = 0, valueRest = []\<rparr>\<rparr>],
     mCatchupWork = None\<rparr>"

lemma demo_chain: "N < 2 ^ 32 \<Longrightarrow> networkChain demoNodeContext demoReal N"
proof -
  assume N: "N < 2 ^ 32"
  then have h: "headerHashOf demoNodeContext (demoReal i) = replicate (Suc i) CHR ''a''" if "i \<le> N" for i
    using demo_hash[of i "demoReal i"] that by simp
  have "x = demoReal i" if "i \<le> N" "headerHashOf demoNodeContext x = headerHashOf demoNodeContext (demoReal i)" for i x
    using demo_hash[of i x] h[of i] that N by simp
  then show ?thesis using h by (auto simp: networkChain_def)
qed



section \<open>What is not verified\<close>

text \<open>C35. The first entry of a chain is accepted without checking it against its hash. A file that holds nothing but an entry with the right number and hash
  and any header passes, although the header has another hash: it is reported as verified, and the process stops only when it is
  deposited after all buckets were applied.\<close>

theorem forged_header_verified:
  assumes "files (entrySeq forged) = Some [forged]" "verifyCatchupCandidate forged n = VERIFY_HASH_OK"
    and "headerHashOf C (entryHeader forged) \<noteq> entryHash forged"
  shows "\<exists>w. verifyRuns C files [n] (mkVerifyLedgerChainWork (entrySeq forged) (entrySeq forged) False noEntry noEntry) =
      Inr (WORK_SUCCESS, w) \<and> mFirstVerified w = forged \<and>
    catchupDone C False CATCHUP_MINIMAL (mFirstVerified w) n = Inl (RuntimeError ''provided ledger header is invalid'')"
proof -
  have "entrySeq noEntry = 0" by (simp add: noEntry_def defaultHeader_def)
  then show ?thesis
    using assms by (simp add: verify_onSuccess_def verifyHistoryOfSingleCheckpoint_def mkVerifyLedgerChainWork_def Let_def
      catchupDone_def historyCaughtup_def adoptLedger_def depositLedger_def headerAfter_def)
qed

theorem forged_header_verified_witness:
  "\<exists>w. verifyRuns demoNodeContext [7 \<mapsto> [(demoEntryOf 7)\<lparr>entryHeader := (demoReal 7)\<lparr>bucketListHash_of := ''forged''\<rparr>\<rparr>]] [demoNode]
     (mkVerifyLedgerChainWork 7 7 False noEntry noEntry) = Inr (WORK_SUCCESS, w) \<and> \<not> genuine demoNodeContext demoReal (mFirstVerified w)"
proof -
  let ?f = "(demoEntryOf 7)\<lparr>entryHeader := (demoReal 7)\<lparr>bucketListHash_of := ''forged''\<rparr>\<rparr>"
  have seq: "entrySeq ?f = 7" by simp
  have ne: "entryHeader ?f \<noteq> demoReal 7" by (auto simp: demoReal_def zeroHash_def defaultHeader_def dest: arg_cong[of _ _ length])
  then have "headerHashOf demoNodeContext (entryHeader ?f) \<noteq> entryHash ?f" using demo_hash[of 7 "entryHeader ?f"] by (simp add: demoEntryOf_def)
  moreover have "verifyCatchupCandidate ?f demoNode = VERIFY_HASH_OK"
    by (simp add: verifyCatchupCandidate_def demoNode_def Let_def demoEntryOf_def)
  ultimately show ?thesis
    using forged_header_verified[of "[7 \<mapsto> [?f]]" ?f demoNode demoNodeContext] ne seq by (fastforce simp: genuine_def)
qed

section \<open>Trying again\<close>

lemma verify_onSuccess_kept:
  assumes "verify_onSuccess C files n w = Inr (st, w')"
  shows "mFirstSeq w' = mFirstSeq w" "mLastSeq w' = mLastSeq w" "mCurrSeq w \<le> mLastSeq w"
    "st = WORK_RUNNING \<Longrightarrow> entrySeq (mLastVerified w') = mCurrSeq w \<and> mCurrSeq w' = mCurrSeq w + getCheckpointFrequency C"
    "st = WORK_FAILURE_RETRY \<Longrightarrow> w' = w"
  using assms
  by (auto simp: verify_onSuccess_def verifyHistoryOfSingleCheckpoint_def bindE_Inr_iff Let_def not_less
      split: option.splits if_splits VerifyHashStatus.splits)

lemma run_retry:
  "verifyRuns C files ns w = Inr (WORK_FAILURE_RETRY, w') \<Longrightarrow> mCurrSeq w \<noteq> 0 \<Longrightarrow>
    unat (mLastSeq w) + unat (getCheckpointFrequency C) < 2 ^ 32 \<Longrightarrow>
    mFirstSeq w' = mFirstSeq w \<and> mLastSeq w' = mLastSeq w \<and> mCurrSeq w \<le> mLastSeq w \<and> (w' = w \<or> entrySeq (mLastVerified w') \<noteq> 0)"
proof (induction ns arbitrary: w)
  case (Cons n ns)
  from Cons.prems(1) obtain st w1 where st: "verify_onSuccess C files n w = Inr (st, w1)"
    "st = WORK_FAILURE_RETRY \<and> w1 = w' \<or> st = WORK_RUNNING \<and> verifyRuns C files ns w1 = Inr (WORK_FAILURE_RETRY, w')"
    by (auto simp: bindE_Inr_iff split: if_splits)
  note kept = verify_onSuccess_kept[OF st(1)]
  show ?case
  proof (cases "st = WORK_RUNNING")
    case True
    have "unat (mCurrSeq w) + unat (getCheckpointFrequency C) < 2 ^ 32" using Cons.prems(3) kept(3) by (simp add: word_le_nat_alt)
    then have "unat (mCurrSeq w1) \<noteq> 0" using unat_next kept(4)[OF True] Cons.prems(2) by (simp add: unat_eq_zero)
    then have "mCurrSeq w1 \<noteq> 0" by auto
    then show ?thesis using Cons.IH[of w1] st(2) True kept Cons.prems(2,3) by auto
  qed (use st(2) kept in auto)
qed simp

text \<open>C36. Verification that has to be tried again, since the network has not reached the last checkpoint, is bound to fail once an earlier
  checkpoint was verified: resetting the work makes the last closed ledger the start of the chain, from where the files, which are as good as before, overshoot.\<close>

theorem verification_retry_fails:
  assumes "verifyRuns C files ns (mkVerifyLedgerChainWork first lst manualCatchup noEntry noEntry) = Inr (WORK_FAILURE_RETRY, w)"
    and "first \<noteq> 0" "unat lst + unat (getCheckpointFrequency C) < 2 ^ 32" "mCurrSeq w \<noteq> first"
    and "files first = Some (e # es)" "getLastClosedLedgerNum n \<noteq> 0" "unat (getLastClosedLedgerNum n) + 1 < unat (entrySeq e)"
  shows "verify_onSuccess C files n' (verify_onReset n w) = Inr (WORK_FAILURE_RAISE, verify_onReset n w)"
proof -
  have "w \<noteq> mkVerifyLedgerChainWork first lst manualCatchup noEntry noEntry" using assms(4) by (auto simp: mkVerifyLedgerChainWork_def)
  then have w: "mFirstSeq w = first" "mLastSeq w = lst" "first \<le> lst" "entrySeq (mLastVerified w) \<noteq> 0"
    using run_retry[OF assms(1)] assms(2,3) by (simp_all add: mkVerifyLedgerChainWork_def)
  have "getLastClosedLedgerNum n < entrySeq e" using assms(7) by (simp add: word_less_nat_alt)
  then have "unat (getLastClosedLedgerNum n + 1) < unat (entrySeq e)" using unat_succ assms(7) by simp
  then have "getLastClosedLedgerNum n + 1 < entrySeq e" by (simp add: word_less_nat_alt)
  then have "chainLoop C (getLastClosedLedgerHeader n) noEntry (e # es) = None"
    using assms(6) by (auto simp: getLastClosedLedgerHeader_def getLastClosedLedgerNum_def Let_def)
  then show ?thesis
    using w assms(5) by (simp add: verify_onSuccess_def verifyHistoryOfSingleCheckpoint_def verify_onReset_def)
qed

theorem verification_retry_fails_witness:
  "\<exists>w. verifyRuns demoNodeContext [7 \<mapsto> [demoEntryOf 7], 15 \<mapsto> map demoEntryOf [8..<16]] [demoNode, demoNode]
      (mkVerifyLedgerChainWork 7 15 False noEntry noEntry) = Inr (WORK_FAILURE_RETRY, w) \<and>
    verify_onSuccess demoNodeContext [7 \<mapsto> [demoEntryOf 7], 15 \<mapsto> map demoEntryOf [8..<16]] demoNode (verify_onReset demoNode w) =
      Inr (WORK_FAILURE_RAISE, verify_onReset demoNode w)"
proof -
  let ?files = "[7 \<mapsto> [demoEntryOf 7], 15 \<mapsto> map demoEntryOf [8..<16]] :: uint32 \<rightharpoonup> LedgerHeaderHistoryEntry list"
  have e: "demoEntryOf i = entryOf demoNodeContext demoReal i" if "i \<le> 15" for i
    using demo_hash[of i "demoReal i"] that by (simp add: demoEntryOf_def entryOf_def)
  have es: "map demoEntryOf [8..<16] = map (entryOf demoNodeContext demoReal) [8..<16]" using e by simp
  have loop: "chainLoop demoNodeContext (demoEntryOf 7) noEntry (map demoEntryOf [8..<16]) = Some (demoEntryOf 15)"
    using chainLoop_honest[OF demo_chain[of 15], of 7 8 16 noEntry] unfolding es e[of 7] by (simp add: e)
  let ?w = "mkVerifyLedgerChainWork 7 15 False noEntry noEntry"
  let ?w1 = "?w\<lparr>mFirstVerified := demoEntryOf 7, mLastVerified := demoEntryOf 7, mCurrSeq := 15\<rparr>"
  have "verify_onSuccess demoNodeContext ?files demoNode ?w = Inr (WORK_RUNNING, ?w1)"
    by (simp add: verify_onSuccess_def verifyHistoryOfSingleCheckpoint_def mkVerifyLedgerChainWork_def noEntry_def defaultHeader_def
      demoEntryOf_def getCheckpointFrequency_def demoNodeContext_def Let_def)
  moreover have "verify_onSuccess demoNodeContext ?files demoNode ?w1 = Inr (WORK_FAILURE_RETRY, ?w1)"
    using loop by (simp add: verify_onSuccess_def verifyHistoryOfSingleCheckpoint_def mkVerifyLedgerChainWork_def
      demoEntryOf_def verifyCatchupCandidate_def demoNode_def Let_def del: chainLoop.simps upt_Suc upt_rec_numeral)
  ultimately have run: "verifyRuns demoNodeContext ?files [demoNode, demoNode] ?w = Inr (WORK_FAILURE_RETRY, ?w1)" by simp
  show ?thesis
    using run verification_retry_fails[OF run, of "demoEntryOf 7" "[]" demoNode demoNode]
    by (simp add: mkVerifyLedgerChainWork_def getCheckpointFrequency_def demoNodeContext_def getLastClosedLedgerNum_def demoNode_def demoEntryOf_def)
qed

end
