(* ===== verification/LedgerReplay.thy ===== *)
theory LedgerReplay
  imports LedgerSync
begin

text \<open>
  Replaying the ledgers of an archive, \<open>ApplyLedgerChainWork\<close> of \<^verbatim>\<open>history/HistoryWork.cpp\<close>. The files of a checkpoint
  are the headers and the transaction sets with their ledger numbers; a stream is what of it is not yet read. An exception the work
  throws itself is caught and leads to a retry, which is the outcome \<open>ReplayFailed\<close>; an exception out of \<open>closeLedger\<close>
  is a failure, since the state it leaves behind is not modelled.
\<close>

type_synonym TransactionHistoryEntry = "uint32 \<times> TxSetFrame"

record ApplyLedgerChainWork =
  replayFirstSeq :: uint32
  replayCurrSeq :: uint32
  replayLastSeq :: uint32
  mHdrIn :: "LedgerHeaderHistoryEntry list"
  mTxIn :: "TransactionHistoryEntry list"
  mTxHistoryEntry :: TransactionHistoryEntry
  mLastApplied :: LedgerHeaderHistoryEntry

text \<open>The downloaded files: the headers and the transaction sets of a checkpoint.\<close>

type_synonym Downloads = "uint32 \<rightharpoonup> LedgerHeaderHistoryEntry list \<times> TransactionHistoryEntry list"

definition emptyTxEntry :: TransactionHistoryEntry where
  "emptyTxEntry = (0, \<lparr>mPreviousLedgerHash = zeroHash, mTransactions = []\<rparr>)"

definition replay_onReset :: "'b Node \<Rightarrow> ApplyLedgerChainWork \<Rightarrow> ApplyLedgerChainWork" where
  "replay_onReset n w = w\<lparr>mLastApplied := getLastClosedLedgerHeader n, replayCurrSeq := replayFirstSeq w, mHdrIn := [], mTxIn := []\<rparr>"

definition openCurrentInputFiles :: "Downloads \<Rightarrow> ApplyLedgerChainWork \<Rightarrow> ApplyLedgerChainWork result" where
  "openCurrentInputFiles files w =
     (let w0 = w\<lparr>mHdrIn := [], mTxIn := []\<rparr> in
      if replayLastSeq w < replayCurrSeq w then Inr w0
      else case files (replayCurrSeq w) of
        None \<Rightarrow> Inl (RuntimeError ''failed to open XDR file'')
      | Some (hdrs, txs) \<Rightarrow> Inr (w0\<lparr>mHdrIn := hdrs, mTxIn := txs, mTxHistoryEntry := emptyTxEntry\<rparr>))"

fun txSetLoop :: "uint32 \<Rightarrow> TransactionHistoryEntry \<Rightarrow> TransactionHistoryEntry list \<Rightarrow>
    TxSetFrame option \<times> TransactionHistoryEntry \<times> TransactionHistoryEntry list" where
  "txSetLoop seq entry txs =
     (if fst entry = seq then (Some (snd entry), entry, txs)
      else if seq < fst entry then (None, entry, txs)
      else case txs of [] \<Rightarrow> (None, entry, []) | e # es \<Rightarrow> txSetLoop seq e es)"

definition getCurrentTxSet :: "'b Node \<Rightarrow> ApplyLedgerChainWork \<Rightarrow> TxSetFrame \<times> ApplyLedgerChainWork" where
  "getCurrentTxSet n w =
     (case txSetLoop (ledgerSeq (mCurrentLedger (manager n))) (mTxHistoryEntry w) (mTxIn w) of
        (found, entry, txs) \<Rightarrow>
          (case found of Some t \<Rightarrow> t | None \<Rightarrow> \<lparr>mPreviousLedgerHash = mLastClosedHash (manager n), mTransactions = []\<rparr>,
           w\<lparr>mTxHistoryEntry := entry, mTxIn := txs\<rparr>))"

datatype ReplayOutcome = ReplayApplied | ReplayEndOfFile | ReplayFailed string

definition applyHistoryOfSingleLedger :: "'b NodeContext \<Rightarrow> ApplyLedgerChainWork \<Rightarrow> 'b Node \<Rightarrow>
    (ReplayOutcome \<times> ApplyLedgerChainWork \<times> 'b Node) result" where
  "applyHistoryOfSingleLedger C w n =
     (case mHdrIn w of
        [] \<Rightarrow> Inr (ReplayEndOfFile, w, n)
      | hHeader # hdrs \<Rightarrow>
        let w1 = w\<lparr>mHdrIn := hdrs\<rparr>; hd = entryHeader hHeader; lm = manager n; previousHeader = mLastClosedHeader lm in
        if ledgerSeq hd + 1 < ledgerSeq previousHeader then Inr (ReplayApplied, w1, n)
        else if ledgerSeq hd + 1 = ledgerSeq previousHeader
        then Inr (if entryHash hHeader \<noteq> previousLedgerHash previousHeader
                  then ReplayFailed ''replay failed to connect on hash of LCL predecessor'' else ReplayApplied, w1, n)
        else if ledgerSeq hd = ledgerSeq previousHeader
        then Inr (if entryHash hHeader \<noteq> mLastClosedHash lm
                  then ReplayFailed ''replay at LCL disagreed on hash'' else ReplayApplied, w1, n)
        else if ledgerSeq hd \<noteq> ledgerSeq (mCurrentLedger lm) then Inr (ReplayFailed ''replay overshot current ledger'', w1, n)
        else if previousLedgerHash hd \<noteq> mLastClosedHash lm
        then Inr (ReplayFailed ''replay at current ledger disagreed on LCL hash'', w1, n)
        else let (txset, w2) = getCurrentTxSet n w1 in
          if txSetHash (scpValue hd) \<noteq> contentsHash C txset
          then Inr (ReplayFailed ''replay txset hash differs from txset hash in replay ledger'', w2, n)
          else bindE (closeLedger C \<lparr>mLedgerSeq = ledgerSeq hd, mTxSet = txset, mValue = scpValue hd\<rparr> n) (\<lambda>n'.
            Inr (if mLastClosedHash (manager n') \<noteq> entryHash hHeader
                 then (ReplayFailed ''replay produced mismatched ledger hash'', w2, n')
                 else (ReplayApplied, w2\<lparr>mLastApplied := hHeader\<rparr>, n'))))"

text \<open>One turn of the work: \<open>onRun\<close> and, unless it failed, \<open>onSuccess\<close>.\<close>

definition replay_onRun :: "'b NodeContext \<Rightarrow> Downloads \<Rightarrow> ApplyLedgerChainWork \<Rightarrow> 'b Node \<Rightarrow>
    (bool \<times> ApplyLedgerChainWork \<times> 'b Node) result" where
  "replay_onRun C files w n =
     bindE (applyHistoryOfSingleLedger C w n) (\<lambda>(out, w1, n1).
     case out of
       ReplayApplied \<Rightarrow> Inr (True, w1, n1)
     | ReplayFailed msg \<Rightarrow> Inr (False, w1, n1)
     | ReplayEndOfFile \<Rightarrow>
         let w2 = w1\<lparr>replayCurrSeq := replayCurrSeq w1 + getCheckpointFrequency C\<rparr> in
         (case openCurrentInputFiles files w2 of Inl e \<Rightarrow> Inr (False, w2\<lparr>mHdrIn := [], mTxIn := []\<rparr>, n1) | Inr w3 \<Rightarrow> Inr (True, w3, n1)))"

definition replay_onSuccess :: "ApplyLedgerChainWork \<Rightarrow> WorkState" where
  "replay_onSuccess w = (if replayLastSeq w < replayCurrSeq w then WORK_SUCCESS else WORK_RUNNING)"

definition replay_step :: "'b NodeContext \<Rightarrow> Downloads \<Rightarrow> ApplyLedgerChainWork \<Rightarrow> 'b Node \<Rightarrow>
    (WorkState \<times> ApplyLedgerChainWork \<times> 'b Node) result" where
  "replay_step C files w n =
     bindE (replay_onRun C files w n) (\<lambda>(ok, w1, n1).
     Inr (if ok then replay_onSuccess w1 else WORK_FAILURE_RETRY, w1, n1))"

end
