(* ===== verification/LedgerSyncCorrect.thy ===== *)
theory LedgerSyncCorrect
  imports LedgerReplay LedgerClose
begin

text \<open>
  Staying in step with the network. A node keeps the ledgers it hears of while it catches up without a gap, and keeps none
  otherwise; closing a ledger links it to the one before. From this follow what the operations do in every state a node
  can reach.
\<close>

section \<open>The invariant\<close>

abbreviation contiguous :: "LedgerCloseData list \<Rightarrow> bool" where
  "contiguous \<equiv> successively (\<lambda>a b. mLedgerSeq a + 1 = mLedgerSeq b)"

definition linkedNode :: "'b NodeContext \<Rightarrow> 'b Node \<Rightarrow> bool" where
  "linkedNode C n \<longleftrightarrow>
     mLastClosedHash (manager n) = headerHashOf C (mLastClosedHeader (manager n)) \<and>
     ledgerSeq (mCurrentLedger (manager n)) = getLastClosedLedgerNum n + 1 \<and>
     previousLedgerHash (mCurrentLedger (manager n)) = mLastClosedHash (manager n)"

definition syncInv :: "'b NodeContext \<Rightarrow> 'b Node \<Rightarrow> bool" where
  "syncInv C n \<longleftrightarrow> linkedNode C n \<and> contiguous (mSyncingLedgers n) \<and>
     (lmState n \<noteq> LM_CATCHING_UP_STATE \<longrightarrow> mSyncingLedgers n = [] \<and> mCatchupWork n = None)"

text \<open>Transactions change neither the number of the ledger nor the hash of the one before.\<close>

definition keepsLink :: "'b NodeContext \<Rightarrow> bool" where
  "keepsLink C \<longleftrightarrow> (\<forall>lcd lm delta h. applyTxSet C lcd lm = Inr (delta, h) \<longrightarrow>
     ledgerSeq h = ledgerSeq (mCurrentLedger lm) \<and> previousLedgerHash h = previousLedgerHash (mCurrentLedger lm))"

lemma closeLedgerHelper_links:
  assumes "closeLedgerHelper B H pessimize ready d lm = Inr lm'"
  shows "mLastClosedHash lm' = H (mLastClosedHeader lm') \<and> ledgerSeq (mLastClosedHeader lm') = ledgerSeq (mCurrentLedger lm) \<and>
    previousLedgerHash (mLastClosedHeader lm') = previousLedgerHash (mCurrentLedger lm) \<and>
    ledgerSeq (mCurrentLedger lm') = ledgerSeq (mCurrentLedger lm) + 1 \<and> previousLedgerHash (mCurrentLedger lm') = mLastClosedHash lm'"
  using assms
  by (auto simp: closeLedgerHelper_def bindE_Inr_iff Let_def snapshotLedger_def calculateSkipValues_def advanceLedgerPointers_def)

text \<open>What closing a ledger does to a node.\<close>

definition closes :: "'b NodeContext \<Rightarrow> LedgerCloseData \<Rightarrow> 'b Node \<Rightarrow> 'b Node \<Rightarrow> bool" where
  "closes C lcd n n' \<longleftrightarrow> closeLedger C lcd n = Inr n' \<and> linkedNode C n' \<and> getLastClosedLedgerNum n' = getLastClosedLedgerNum n + 1 \<and>
     previousLedgerHash (mLastClosedHeader (manager n')) = mLastClosedHash (manager n) \<and>
     lmState n' = lmState n \<and> mSyncingLedgers n' = mSyncingLedgers n \<and> mCatchupWork n' = mCatchupWork n"

lemma closeLedger_closes:
  assumes "keepsLink C" "linkedNode C n" "closeLedger C lcd n = Inr n'"
  shows "closes C lcd n n'"
proof -
  let ?lm = "(manager n)\<lparr>mCurrentLedger := (mCurrentLedger (manager n))\<lparr>scpValue := mValue lcd\<rparr>\<rparr>"
  let ?seq = "ledgerSeq (mCurrentLedger (manager n))"
  obtain d h lm2 where r: "applyTxSet C lcd ?lm = Inr (d, h)"
    "closeLedgerHelper (bucketContext C) (headerHashOf C) (cfgPessimize C) (mergesReady C ?seq) d (?lm\<lparr>mCurrentLedger := h\<rparr>) = Inr lm2"
    "n' = n\<lparr>manager := lm2\<rparr> \<or> (\<exists>bm. n' = n\<lparr>manager := lm2\<lparr>mBuckets := bm\<rparr>\<rparr>)"
    using assms(3) by (auto simp: closeLedger_def Let_def bindE_Inr_iff split: if_splits)
  have "ledgerSeq h = ?seq" "previousLedgerHash h = previousLedgerHash (mCurrentLedger (manager n))"
    using assms(1) r(1) unfolding keepsLink_def by fastforce+
  then show ?thesis
    using closeLedgerHelper_links[OF r(2)] r(3) assms(2,3) by (auto simp: closes_def linkedNode_def getLastClosedLedgerNum_def)
qed

lemma linkedNode_simps [simp]:
  "linkedNode C (n\<lparr>lmState := st\<rparr>) = linkedNode C n"
  "linkedNode C (n\<lparr>mSyncingLedgers := ls\<rparr>) = linkedNode C n"
  "linkedNode C (n\<lparr>mCatchupWork := cw\<rparr>) = linkedNode C n"
  by (simp_all add: linkedNode_def getLastClosedLedgerNum_def)

lemma depositLedger_links: "depositLedger C e n = Inr n' \<Longrightarrow> linkedNode C n' \<and> getLastClosedLedgerHeader n' = e \<and>
    lmState n' = lmState n \<and> mSyncingLedgers n' = mSyncingLedgers n \<and> mCatchupWork n' = mCatchupWork n"
  by (auto simp: depositLedger_def headerAfter_def bindE_Inr_iff linkedNode_def getLastClosedLedgerNum_def getLastClosedLedgerHeader_def
      split: if_splits)

lemma adoptLedger_links:
  assumes "adoptLedger C mode e n = Inr n'" "linkedNode C n"
  shows "linkedNode C n' \<and> getLastClosedLedgerHeader n' = e \<and> lmState n' = lmState n \<and> mSyncingLedgers n' = mSyncingLedgers n \<and>
    mCatchupWork n' = mCatchupWork n"
proof (cases "mode = CATCHUP_MINIMAL")
  case True
  then show ?thesis using assms depositLedger_links[of C e n n'] by (simp add: adoptLedger_def)
next
  case False
  then have "n' = n" "entryHash e = mLastClosedHash (manager n)" "entryHeader e = mLastClosedHeader (manager n)"
    using assms(1) by (auto simp: adoptLedger_def elim!: bindE_InrE)
  then show ?thesis using assms(2) by (simp add: getLastClosedLedgerHeader_def)
qed

lemma startCatchUp_result:
  "startCatchUp C l mode m n = Inr n' \<Longrightarrow> mCatchupWork n = None \<and> (\<exists>cw. n' = n\<lparr>lmState := LM_CATCHING_UP_STATE, mCatchupWork := Some cw\<rparr>)"
  by (auto simp: startCatchUp_def catchupHistory_def bindE_Inr_iff Let_def split: if_splits)

lemma startCatchUp_ok:
  "mode \<noteq> CATCHUP_BUCKET_REPAIR \<Longrightarrow> mCatchupWork n = None \<Longrightarrow>
    \<exists>cw. mInitLedger cw = l \<and> startCatchUp C l mode m n = Inr (n\<lparr>lmState := LM_CATCHING_UP_STATE, mCatchupWork := Some cw\<rparr>)"
  unfolding startCatchUp_def catchupHistory_def Let_def
  by (rule exI[of _ "\<lparr>mInitLedger = l, catchupMode = _, mManualCatchup = m\<rparr>"]) simp

lemma getCatchupMode_ok [simp]: "getCatchupMode C \<noteq> CATCHUP_BUCKET_REPAIR"
  by (simp add: getCatchupMode_def)

section \<open>Replaying what was kept\<close>

lemma replayLoop_state:
  assumes "keepsLink C"
  shows "replayLoop C lcds n = Inr (n', restarted) \<Longrightarrow> linkedNode C n \<Longrightarrow>
    linkedNode C n' \<and> (if restarted then lmState n' = LM_CATCHING_UP_STATE \<and> mSyncingLedgers n' = []
      else lmState n' = lmState n \<and> mSyncingLedgers n' = mSyncingLedgers n \<and> mCatchupWork n' = mCatchupWork n)"
proof (induction lcds arbitrary: n)
  case (Cons lcd lcds)
  let ?l = "getLastClosedLedgerNum n"
  consider "replayLoop C lcds n = Inr (n', restarted)"
    | n1 where "closeLedger C lcd n = Inr n1" "replayLoop C lcds n1 = Inr (n', restarted)"
    | "startCatchUp C (mLedgerSeq (last (mSyncingLedgers n))) (getCatchupMode C) False (n\<lparr>mSyncingLedgers := []\<rparr>) = Inr n'" "restarted"
    using Cons.prems(1) by (auto simp: Let_def bindE_Inr_iff split: if_splits)
  then show ?case
  proof cases
    case 1
    then show ?thesis by (rule Cons.IH[OF _ Cons.prems(2)])
  next
    case 2
    then show ?thesis using Cons.IH[of n1] closeLedger_closes[OF assms Cons.prems(2) 2(1)] by (simp add: closes_def)
  next
    case 3
    then show ?thesis using startCatchUp_result[OF 3(1)] Cons.prems(2) by auto
  qed
qed simp

section \<open>Reachable nodes\<close>

datatype SyncEvent =
  Externalize LedgerCloseData
| CaughtUp bool CatchupMode LedgerHeaderHistoryEntry
| Command uint32 "string option"
| Replay LedgerCloseData

fun syncStep :: "'b NodeContext \<Rightarrow> SyncEvent \<Rightarrow> 'b Node \<Rightarrow> 'b Node result" where
  "syncStep C (Externalize lcd) n = externalizeValue C lcd n"
| "syncStep C (CaughtUp ec mode e) n = catchupDone C ec mode e n"
| "syncStep C (Command ledger mode) n = catchupCommand C ledger mode n"
| "syncStep C (Replay lcd) n = closeLedger C lcd n"

inductive syncs :: "'b NodeContext \<Rightarrow> 'b Node \<Rightarrow> bool" for C where
  boots: "linkedNode C n \<Longrightarrow> lmState n = LM_BOOTING_STATE \<Longrightarrow> mSyncingLedgers n = [] \<Longrightarrow> mCatchupWork n = None \<Longrightarrow> syncs C n"
| steps: "syncs C n \<Longrightarrow> syncStep C ev n = Inr n' \<Longrightarrow> syncs C n'"

lemma externalizeValue_catching:
  "lmState n = LM_CATCHING_UP_STATE \<Longrightarrow> externalizeValue C lcd n =
    (if mSyncingLedgers n = [] \<or> mLedgerSeq (last (mSyncingLedgers n)) + 1 = mLedgerSeq lcd
     then Inr (n\<lparr>mSyncingLedgers := mSyncingLedgers n @ [lcd]\<rparr>) else Inr n)"
  by (simp add: externalizeValue_def)

lemma externalizeValue_following:
  "lmState n \<noteq> LM_CATCHING_UP_STATE \<Longrightarrow> mSyncingLedgers n = [] \<Longrightarrow> externalizeValue C lcd n =
    (if getLastClosedLedgerNum n + 1 = mLedgerSeq lcd
     then if mLastClosedHash (manager n) = mPreviousLedgerHash (mTxSet lcd)
          then closeLedger C lcd (n\<lparr>lmState := LM_SYNCED_STATE\<rparr>) else Inl (RuntimeError ''Network consensus inconsistency'')
     else if mLedgerSeq lcd \<le> getLastClosedLedgerNum n then Inr n
     else startCatchUp C (mLedgerSeq lcd) (getCatchupMode C) False (n\<lparr>mSyncingLedgers := [lcd]\<rparr>))"
  by (cases "lmState n") (simp_all add: externalizeValue_def)

lemma contiguous_snoc:
  "contiguous (xs @ [x]) \<longleftrightarrow> contiguous xs \<and> (xs = [] \<or> mLedgerSeq (last xs) + 1 = mLedgerSeq x)"
  by (simp add: successively_append_iff)

lemma externalizeValue_inv:
  assumes "keepsLink C" "syncInv C n" "externalizeValue C lcd n = Inr n'"
  shows "syncInv C n'"
proof (cases "lmState n = LM_CATCHING_UP_STATE")
  case True
  then show ?thesis
    using assms(2,3) unfolding externalizeValue_catching[OF True] syncInv_def by (auto simp: contiguous_snoc split: if_splits)
next
  case False
  then have n: "mSyncingLedgers n = []" "mCatchupWork n = None" "linkedNode C n" using assms(2) by (auto simp: syncInv_def)
  consider "n' = n" | "closeLedger C lcd (n\<lparr>lmState := LM_SYNCED_STATE\<rparr>) = Inr n'"
    | "startCatchUp C (mLedgerSeq lcd) (getCatchupMode C) False (n\<lparr>mSyncingLedgers := [lcd]\<rparr>) = Inr n'"
    using assms(3) unfolding externalizeValue_following[OF False n(1)]
    by (metis sum.distinct(1) sum.inject(2))
  then show ?thesis
  proof cases
    case 2
    have "linkedNode C (n\<lparr>lmState := LM_SYNCED_STATE\<rparr>)" using n(3) by simp
    from closeLedger_closes[OF assms(1) this 2] n show ?thesis by (simp add: closes_def syncInv_def)
  next
    case 3
    then show ?thesis using startCatchUp_result[OF 3] n by (auto simp: syncInv_def)
  qed (use assms in simp)
qed

lemma catchupDone_inv:
  assumes "keepsLink C" "syncInv C n" "catchupDone C ec mode e n = Inr n'"
  shows "syncInv C n'"
proof -
  let ?n = "n\<lparr>mCatchupWork := None\<rparr>"
  have l: "linkedNode C ?n" "contiguous (mSyncingLedgers n)" using assms(2) by (auto simp: syncInv_def)
  consider "ec" | "\<not> ec" "mode = CATCHUP_RECENT" | "\<not> ec" "mode \<noteq> CATCHUP_RECENT" by blast
  then show ?thesis
  proof cases
    case 1
    then show ?thesis using assms l by (auto simp: catchupDone_def historyCaughtup_def syncInv_def)
  next
    case 2
    then show ?thesis
      using assms(2,3) depositLedger_links[of C e ?n n'] by (auto simp: catchupDone_def historyCaughtup_def syncInv_def)
  next
    case 3
    then obtain n1 n2 r where r: "adoptLedger C mode e ?n = Inr n1" "replayLoop C (mSyncingLedgers n1) n1 = Inr (n2, r)"
      "n' = (if r then n2 else n2\<lparr>lmState := LM_SYNCED_STATE, mSyncingLedgers := []\<rparr>)"
      using assms(3) by (auto simp: catchupDone_def historyCaughtup_def elim!: bindE_InrE)
    then have "linkedNode C n1 \<and> mCatchupWork n1 = None" using adoptLedger_links[OF r(1) l(1)] by simp
    then show ?thesis using replayLoop_state[OF assms(1) r(2)] r(3) by (auto simp: syncInv_def split: if_splits)
  qed
qed

lemma catchupCommand_inv:
  assumes "syncInv C n" "catchupCommand C ledger mode n = Inr n'"
  shows "syncInv C n'"
proof -
  consider "n' = n" | m where "startCatchUp C ledger m True n = Inr n'"
    using assms(2) unfolding catchupCommand_def by (metis not_None_eq option.case sum.inject(2))
  then show ?thesis
  proof cases
    case 2
    then show ?thesis using startCatchUp_result[OF 2] assms(1) by (auto simp: syncInv_def)
  qed (use assms in simp)
qed

lemma closeLedger_inv: "keepsLink C \<Longrightarrow> syncInv C n \<Longrightarrow> closeLedger C lcd n = Inr n' \<Longrightarrow> syncInv C n'"
  using closeLedger_closes[of C n lcd n'] by (simp add: syncInv_def closes_def)

lemma syncs_inv:
  assumes "keepsLink C"
  shows "syncs C n \<Longrightarrow> syncInv C n"
proof (induction rule: syncs.induct)
  case (steps n ev n')
  note inv = externalizeValue_inv[OF assms steps.IH] catchupDone_inv[OF assms steps.IH] catchupCommand_inv[OF steps.IH] closeLedger_inv[OF assms steps.IH]
  show ?case using steps.hyps(2) inv by (cases ev) simp_all
qed (simp add: syncInv_def)

section \<open>An example\<close>

text \<open>A node that has closed no ledger yet, and consensus on ledger \<open>i\<close>.\<close>

definition demoStart :: "nat Node" where
  "demoStart = \<lparr>manager = \<lparr>mCurrentLedger = demoReal 1, mLastClosedHash = ''a'', mLastClosedHeader = demoReal 0,
       mBuckets = \<lparr>mSharedBuckets = [], bucketFiles = [], mBucketList = mkBucketList True\<rparr>,
       persistedLastClosed = [], persistedState = None\<rparr>,
     lmState = LM_BOOTING_STATE, mSyncingLedgers = [], mCatchupWork = None\<rparr>"

definition demoClose :: "nat \<Rightarrow> LedgerCloseData" where
  "demoClose i = \<lparr>mLedgerSeq = of_nat i, mTxSet = \<lparr>mPreviousLedgerHash = replicate i CHR ''a'', mTransactions = []\<rparr>,
     mValue = scpValue defaultHeader\<rparr>"

lemma demo_keepsLink: "keepsLink demoNodeContext"
  by (simp add: keepsLink_def demoNodeContext_def)

lemma demo_syncs: "syncs demoNodeContext demoStart"
  using demo_hash[of 0 "demoReal 0"] by (intro syncs.boots) (simp_all add: linkedNode_def demoStart_def getLastClosedLedgerNum_def)

lemma demo_closes: "\<exists>n. closeLedger demoNodeContext (demoClose 1) (demoStart\<lparr>lmState := LM_SYNCED_STATE\<rparr>) = Inr n"
proof -
  let ?lm = "manager demoStart" and ?h = "demoReal 1\<lparr>scpValue := mValue (demoClose 1)\<rparr>"
  have "ledgers demoContext (headerHashOf demoNodeContext) ?lm Map.empty"
    by (rule ledgers.genesis[where uninitialised = True]) (simp_all add: demoStart_def)
  from ledgers_succeed[OF distinct_demo hashes32_demo this tracks.opened, of ?h False "\<lambda>_. False" ?h False]
  obtain lm' where "closeLedgerHelper demoContext (headerHashOf demoNodeContext) False (\<lambda>_. False) (mkLedgerDelta ?h False) (?lm\<lparr>mCurrentLedger := ?h\<rparr>) = Inr lm'"
    by (auto simp: demoStart_def)
  then show ?thesis
    by (simp add: closeLedger_def Let_def demoStart_def demoClose_def demoNodeContext_def defaultHeader_def)
qed

section \<open>Following the network\<close>

text \<open>C9. A node takes every ledger the network agrees on without an assertion failing or a second catchup being started, provided the next
  ledger can be closed: it closes the next one, linked to the one before, ignores what it has, starts to catch up with one further
  ahead, and while catching up keeps those that come without a gap.\<close>

theorem externalize_keeps_pace:
  assumes "keepsLink C" "syncs C n"
    and "lmState n \<noteq> LM_CATCHING_UP_STATE \<longrightarrow> mLedgerSeq lcd = getLastClosedLedgerNum n + 1 \<longrightarrow>
      (\<exists>n1. closeLedger C lcd (n\<lparr>lmState := LM_SYNCED_STATE\<rparr>) = Inr n1)"
  shows "\<exists>n'. externalizeValue C lcd n = Inr n' \<and>
    (if lmState n = LM_CATCHING_UP_STATE
     then n' = n\<lparr>mSyncingLedgers := mSyncingLedgers n @
       (if mSyncingLedgers n = [] \<or> mLedgerSeq lcd = mLedgerSeq (last (mSyncingLedgers n)) + 1 then [lcd] else [])\<rparr>
     else if mLedgerSeq lcd = getLastClosedLedgerNum n + 1
     then lmState n' = LM_SYNCED_STATE \<and> getLastClosedLedgerNum n' = mLedgerSeq lcd \<and>
       previousLedgerHash (mLastClosedHeader (manager n')) = mLastClosedHash (manager n)
     else if mLedgerSeq lcd \<le> getLastClosedLedgerNum n then n' = n
     else \<exists>cw. mInitLedger cw = mLedgerSeq lcd \<and>
       n' = n\<lparr>lmState := LM_CATCHING_UP_STATE, mSyncingLedgers := [lcd], mCatchupWork := Some cw\<rparr>)"
proof (cases "lmState n = LM_CATCHING_UP_STATE")
  case True
  then show ?thesis by (auto simp: externalizeValue_catching)
next
  case False
  have n: "mSyncingLedgers n = []" "mCatchupWork n = None" "linkedNode C (n\<lparr>lmState := LM_SYNCED_STATE\<rparr>)"
    using syncs_inv[OF assms(1,2)] False by (auto simp: syncInv_def)
  note ext = externalizeValue_following[OF False n(1)]
  show ?thesis
  proof (cases "mLedgerSeq lcd = getLastClosedLedgerNum n + 1")
    case True
    then obtain n1 where n1: "closeLedger C lcd (n\<lparr>lmState := LM_SYNCED_STATE\<rparr>) = Inr n1" using assms(3) False by blast
    then have "mLastClosedHash (manager n) = mPreviousLedgerHash (mTxSet lcd)" by (auto simp: closeLedger_def Let_def split: if_splits)
    then have "externalizeValue C lcd n = Inr n1" using n1 True by (simp add: ext)
    then show ?thesis using closeLedger_closes[OF assms(1) n(3) n1] True False by (simp add: closes_def getLastClosedLedgerNum_def)
  next
    case other: False
    show ?thesis
    proof (cases "mLedgerSeq lcd \<le> getLastClosedLedgerNum n")
      case True
      then show ?thesis using other False ext by simp
    next
      case ahead: False
      obtain cw where "mInitLedger cw = mLedgerSeq lcd" "externalizeValue C lcd n =
          Inr (n\<lparr>mSyncingLedgers := [lcd], lmState := LM_CATCHING_UP_STATE, mCatchupWork := Some cw\<rparr>)"
        using startCatchUp_ok[OF getCatchupMode_ok, where n = "n\<lparr>mSyncingLedgers := [lcd]\<rparr>" and l = "mLedgerSeq lcd" and m = False and C = C] n(2) other ahead
        by (auto simp: ext)
      then show ?thesis using other False ahead by auto
    qed
  qed
qed

theorem externalize_keeps_pace_witness:
  "\<exists>n. externalizeValue demoNodeContext (demoClose 1) demoStart = Inr n \<and> lmState n = LM_SYNCED_STATE \<and> getLastClosedLedgerNum n = 1"
proof -
  have seq: "lmState demoStart \<noteq> LM_CATCHING_UP_STATE" "mLedgerSeq (demoClose 1) = getLastClosedLedgerNum demoStart + 1" "mLedgerSeq (demoClose 1) = 1"
    by (simp_all add: demoStart_def demoClose_def getLastClosedLedgerNum_def)
  show ?thesis
    using externalize_keeps_pace[OF demo_keepsLink demo_syncs, of "demoClose 1"] demo_closes seq by auto
qed

section \<open>Closing what was kept\<close>



text \<open>The kept ledgers a node at number \<open>l\<close> has still to close.\<close>

abbreviation ahead :: "uint32 \<Rightarrow> LedgerCloseData list \<Rightarrow> LedgerCloseData list" where
  "ahead l lcds \<equiv> filter (\<lambda>lcd. l < mLedgerSeq lcd) lcds"









section \<open>Replaying an archive\<close>











end
