(* ===== verification/Spec2Isabelle.thy ===== *)
theory Spec2Isabelle
  imports Agreement BallotRecovery QuorumBlocking ScpRefinement NominationSafety LedgerClose CatchUp LedgerChainCorrect
    LedgerSyncCorrect
begin

text \<open>
  A model of a stellar-core derived node and the theorems that make it correct.

  \<^bold>\<open>The program.\<close> A node takes part in the Stellar consensus protocol. For every ledger it opens a
  slot. In a slot the nomination protocol proposes values, and the ballot protocol agrees on one of
  them; both decide by federated voting over the quorum sets the nodes announce. The driver (the
  herder) validates values, signs and sends envelopes and is told the outcome. The transactions of the
  value agreed on change the entries of the ledger. The changes are recorded in deltas, written to the
  database, and handed as a batch to the bucket list, whose hash goes into the header of the ledger. The
  bucket list keeps the entries in levels of growing size, merged in the background. Its state is stored
  at every ledger, for a restart, and archived, so that other nodes can catch up from it. A node that has lost
  the network keeps the ledgers it hears of, verifies the chain of headers of an archive, applies the archived buckets or replays the
  archived ledgers, and then closes what it has kept.

  \<^bold>\<open>Theories and sources: consensus.\<close>
  \<^item> \<open>Prelude\<close>: machine integers, failures and their sequencing (\<open>bindE\<close>), ordered maps.
  \<^item> \<open>SafeMath\<close>: \<^verbatim>\<open>util/types.cpp\<close>, \<open>bigDivide\<close>, \<open>safeSum\<close>, \<open>safeDelta\<close>.
  \<^item> \<open>SCPTypes\<close>: the messages, with exactly the fields the sources use.
  \<^item> \<open>QuorumSet\<close>, \<open>QuorumBlocking\<close>: \<^verbatim>\<open>scp/LocalNode.cpp\<close>.
  \<^item> \<open>FederatedVoting\<close>: the voting tests of \<^verbatim>\<open>scp/Slot.cpp\<close> and \<^verbatim>\<open>scp/SCPDriver.cpp\<close>.
  \<^item> \<open>BallotProtocol\<close>: \<^verbatim>\<open>scp/BallotProtocol.cpp\<close>, operation by operation. \<open>SlotContract\<close>
    is the contract of its state changes, \<open>BallotOrder\<close>, \<open>BallotTermination\<close> and
    \<open>BallotSafety\<close> its consequences, \<open>BallotRecovery\<close> restoring a slot.
  \<^item> \<open>NominationProtocol\<close>: \<^verbatim>\<open>scp/NominationProtocol.cpp\<close>. \<open>SlotContractNomination\<close> extends the
    contract to it, \<open>NominationProgress\<close> shows that it returns, \<open>NominationSafety\<close> that votes, accepted
    values and candidates are consistent and the leaders are the nodes of greatest priority.
  \<^item> \<open>ScpSlot\<close>: the rest of \<^verbatim>\<open>scp/Slot.cpp\<close> and \<^verbatim>\<open>scp/SCP.cpp\<close>; \<open>ScpRefinement\<close>: every slot of the
    collection has only taken steps of the slot relation.
  \<^item> \<open>Execution\<close>: runs of the model; \<open>SlotReachability\<close>: what can happen to a slot and what holds
    in every slot it reaches; \<open>Agreement\<close>: the network.

  \<^bold>\<open>Theories and sources: ledger and buckets.\<close>
  \<^item> \<open>LedgerCmp\<close>: the order on identities, \<^verbatim>\<open>bucket/LedgerCmp.h\<close>. \<open>Bucket\<close>, \<open>BucketMerge\<close>:
    \<^verbatim>\<open>bucket/Bucket.cpp\<close>, and that a merge answers every lookup as meant.
  \<^item> \<open>FutureBucket\<close>: \<^verbatim>\<open>bucket/FutureBucket.cpp\<close>. \<open>BucketList\<close>: \<^verbatim>\<open>bucket/BucketList.cpp\<close>.
    \<open>BucketLayers\<close> is the abstract list of layered maps, \<open>BucketListCorrect\<close> and \<open>BucketListRefines\<close> show that the list
    refines it and so the ledger.
  \<^item> \<open>LedgerDelta\<close>, \<open>LedgerDeltaCorrect\<close>: \<^verbatim>\<open>ledger/LedgerDeltaImpl.cpp\<close> and the generators of
    \<^verbatim>\<open>ledger/LedgerHeaderFrameImpl.cpp\<close>, and that the batch of a delta describes its changes.
  \<^item> \<open>HistoryState\<close>: \<^verbatim>\<open>history/HistoryArchive.cpp\<close>. \<open>BucketManager\<close>: \<^verbatim>\<open>bucket/BucketManagerImpl.cpp\<close>
    and the end of closing a ledger in \<^verbatim>\<open>ledger/LedgerManagerImpl.cpp\<close>. \<open>BucketRestart\<close>: a list that is stored
    and read back behaves like before. \<open>LedgerClose\<close>: sequences of ledgers.
  \<^item> \<open>LedgerStore\<close>: the entry helpers and \<^verbatim>\<open>ledger/EntryHelperLegacy.cpp\<close> over tables. \<open>BucketApply\<close>:
    \<^verbatim>\<open>bucket/BucketApplicator.cpp\<close>, \<open>ApplyBucketsWork\<close> of \<^verbatim>\<open>history/HistoryWork.cpp\<close> and its
    scheduling in \<^verbatim>\<open>work/Work.cpp\<close>. \<open>BucketApplyCorrect\<close>, \<open>CatchUp\<close>: the tables and the list after catching up.

  \<^bold>\<open>Theories and sources: staying in step.\<close>
  \<^item> \<open>LedgerSync\<close>: \<open>externalizeValue\<close>, \<open>historyCaughtup\<close>, \<open>verifyCatchupCandidate\<close> and \<open>closeLedger\<close> of
    \<^verbatim>\<open>ledger/LedgerManagerImpl.cpp\<close>, \<open>catchupHistory\<close> and the checkpoints of \<^verbatim>\<open>history/HistoryManagerImpl.cpp\<close>,
    and the command to catch up of \<^verbatim>\<open>main/CommandHandler.cpp\<close>.
  \<^item> \<open>LedgerChain\<close>: \<open>VerifyLedgerChainWork\<close> of \<^verbatim>\<open>history/HistoryWork.cpp\<close>; \<open>LedgerChainCorrect\<close>: which headers it
    lets pass. \<open>LedgerReplay\<close>: \<open>ApplyLedgerChainWork\<close> of the same file.
  \<^item> \<open>LedgerSyncCorrect\<close>: the states of a node that follows the network, loses it and catches up.

  \<^bold>\<open>State of consensus.\<close> A slot owns its two protocols by value, so \<open>Slot\<close> is one record built by extension,
  with the fields of the C++ classes. What the driver is told is appended to \<open>mTrace\<close>. The local
  node and the driver's answers are the record \<open>SCPContext\<close>, an argument of every operation;
  nothing is assumed of it except where a theorem names a hypothesis (\<open>extracts\<close>, what
  \<^verbatim>\<open>SCPDriver.h\<close> says of \<open>extractValidValue\<close>; \<open>known_qsets\<close>; \<open>configured\<close>).
  Exceptions, assertions and null dereferences are values of \<open>failure\<close>; the state after a failure
  is not modelled, since no caller continues with the slot.

  \<^bold>\<open>State of the ledger.\<close> A ledger is a map from identities to entries. An entry is its key, the number of the
  ledger that changed it last, and a body of any type, since the bodies are XDR unions generated from a
  submodule. A bucket is the list of entries in its file with its hash; the hash functions and the numbers of the entry types
  are the record \<open>BucketContext\<close>. Hypotheses on it are that types have different numbers (\<open>distinctTypes\<close>) and hashes have 32 bytes
  (\<open>hashes32\<close>). A merge running in another thread is computed when it is started, since its inputs never change; whether
  it is done when somebody asks is an argument. The tables of the database are one map from primary keys to
  entries.

  \<^bold>\<open>State of synchronisation.\<close> \<open>Node\<close> is the ledger manager with its state, the ledgers it keeps and the catchup under way;
  \<open>NodeContext\<close> has the configuration, the hashes and what a set of transactions does, of which it is assumed that it changes neither the
  number of the ledger nor its link (\<open>keepsLink\<close>). \<open>syncs\<close> are the nodes that are reached by consensus, callbacks, commands and
  replayed ledgers in any order. The archive is not trusted: its files are arguments. What is assumed of the chain of the network
  (\<open>networkChain\<close>) is that it is numbered and linked, and that nobody has another header for one of its hashes.

  \<^bold>\<open>The contract of slots.\<close> \<open>slot_contract\<close> lists the elementary state changes of the ballot protocol
  together with what the code has checked when it makes them, for a reflexive and transitive
  relation between states. Every operation, with its recursion, then keeps the relation. The
  invariants are interpretations of it: progress of phase and counter, the message level, the
  recorded envelopes, the lock on the committed value, externalizing once, the quorum behind it, the
  order of emitted statements, and what a node has made and recorded.

  \<^bold>\<open>From changes to buckets and back.\<close> \<open>tracks\<close> are the changes a delta may be told of, \<open>ledgers\<close> the ledgers a node may
  close, \<open>closed\<close> the bucket lists it may reach. The batch of a delta gives the ledger after its changes; the list
  holds that ledger (\<open>ledger_mirrored\<close>) and never fails (\<open>ledger_closes\<close>); a restart does not change what
  the list does (\<open>restart_transparent\<close>); and a new node that applies the archived list has the
  same ledger in its tables (\<open>catchup_restores\<close>). The simulation of one list by another is proved once for a relation between levels
  (\<open>level_simulation\<close>), and so is what a store of entries holds after a bucket was applied (\<open>entry_store\<close>).

  \<^bold>\<open>Catching up.\<close> A chain that passes verification is that of the network (\<open>verified_chain_genuine\<close>), and the chain of the network
  passes (\<open>honest_chain_verified\<close>); exempt is the first entry of a chain without a start, which is taken as it is
  (\<open>forged_header_verified\<close>). A node in step takes every ledger without failing (\<open>externalize_keeps_pace\<close>), and after catching up closes exactly
  the ledgers it has kept and not yet closed (\<open>caught_up_replays\<close>), also after replaying an archive (\<open>replay_ends_at_last_closed\<close>).

  \<^bold>\<open>Recursion and fuel.\<close> \<open>advanceSlot\<close> is reached again from the operations it calls; the code
  stops it at depth 50, so the fuel 50 of \<open>advanceSlot\<close> is never used up (\<open>advanceSlot_returns\<close>).
  The bump loop is \<open>while_option\<close> and ends because each round raises the counter. Nomination
  processes its own statements; \<open>nominationFuel\<close> bounds the rounds by the number of values at
  hand, and beyond it the answer no longer depends on the fuel
  (\<open>processNomination_fuel_mono\<close>). The transitive quorum search is a \<^theory_text>\<open>partial_function\<close>
  proved total. Merging and applying buckets end because every round reads an entry or finds the end of
  a file; the callbacks of \<open>ApplyBucketsWork\<close> are counted by \<open>work_steps\<close>, and enough of them are shown to
  reach success. The turns of \<open>VerifyLedgerChainWork\<close> are counted by the nodes it finds in them, and one for every checkpoint is
  enough.

  \<^bold>\<open>Not modelled.\<close> Logging, JSON printers, metrics and timers as such (a timer that fires is a step);
  cryptography, XDR encoding and the network; the XDR types themselves, generated from a
  submodule, and with them the transactions and the accessors of entries, whose effect is any sequence of recorded
  changes, or an argument of closing a ledger; the herder, whose answers are arguments; SQL beyond rows by primary key; the works that
  download and publish files through shell commands, and the works that put the phases of catching up one after the other; publishing after a ledger
  was closed; the application with its configuration and processes. The remaining components are listed in the manifest.
\<close>

section \<open>The ledger and its buckets\<close>

text \<open>A node that has closed its first ledger with one new balance.\<close>

definition demoManager :: "nat LedgerManager" where
  "demoManager = \<lparr>mCurrentLedger = demoHeader, mLastClosedHash = zeroHash, mLastClosedHeader = demoHeader,
     mBuckets = \<lparr>mSharedBuckets = [], bucketFiles = [], mBucketList = mkBucketList True\<rparr>,
     persistedLastClosed = [], persistedState = None\<rparr>"

lemma demo_ledgers: "ledgers demoContext (\<lambda>_. zeroHash) demoManager Map.empty"
  by (rule ledgers.genesis[where uninitialised = True]) (simp_all add: demoManager_def)

lemma demo_tracked: "\<exists>d. tracks (enumOf demoContext) Map.empty d [BalanceId ''b'' \<mapsto> demoEntry (BalanceId ''b'') 2]"
  using demo_tracks by (auto simp: demoContext_def)

text \<open>C4. Whatever sequence of ledgers a node closes, with whatever changes recorded in nested deltas, its
  bucket list holds exactly the ledger the changes lead to, the hash in the header it closed is the
  hash of that list, and the header in work is linked to the closed one and has the next number.\<close>

theorem ledger_mirrored:
  assumes "distinctTypes B" "hashes32 B" "ledgers B headerHash lm M" "tracks (enumOf B) M d V"
    "ledgerSeq h = ledgerSeq (mCurrentLedger lm)"
    "closeLedgerHelper B headerHash pessimize ready d (lm\<lparr>mCurrentLedger := h\<rparr>) = Inr lm'"
  shows "liveView (mLevels (mBucketList (mBuckets lm'))) = V \<and>
    bucketListHash_of (mLastClosedHeader lm') = bucketListHash B (mBucketList (mBuckets lm')) \<and>
    previousLedgerHash (mCurrentLedger lm') = headerHash (mLastClosedHeader lm') \<and>
    ledgerSeq (mCurrentLedger lm') = ledgerSeq (mLastClosedHeader lm') + 1"
proof -
  have "ledgers B headerHash lm' V" by (rule ledgers.close[OF assms(3-6)])
  then obtain l where "closed B l V (mBucketList (mBuckets lm'))" using ledgers_closed[OF assms(1)] by blast
  from closed_inv[OF assms(1,2) this] closeLedgerHelper_result[OF assms(6)] show ?thesis by auto
qed

theorem ledger_mirrored_witness:
  "\<exists>d lm'. closeLedgerHelper demoContext (\<lambda>_. zeroHash) False (\<lambda>_. True) d (demoManager\<lparr>mCurrentLedger := demoHeader\<rparr>) = Inr lm' \<and>
     liveView (mLevels (mBucketList (mBuckets lm'))) = [BalanceId ''b'' \<mapsto> demoEntry (BalanceId ''b'') 2]"
proof -
  obtain d where d: "tracks (enumOf demoContext) Map.empty d [BalanceId ''b'' \<mapsto> demoEntry (BalanceId ''b'') 2]"
    using demo_tracked by blast
  have seq: "ledgerSeq demoHeader = ledgerSeq (mCurrentLedger demoManager)" "0 < ledgerSeq demoHeader"
    by (simp_all add: demoManager_def)
  obtain lm' where lm': "closeLedgerHelper demoContext (\<lambda>_. zeroHash) False (\<lambda>_. True) d (demoManager\<lparr>mCurrentLedger := demoHeader\<rparr>) = Inr lm'"
    using ledgers_succeed[OF distinct_demo hashes32_demo demo_ledgers d seq] by blast
  from ledger_mirrored[OF distinct_demo hashes32_demo demo_ledgers d seq(1) lm'] lm' show ?thesis by blast
qed

text \<open>C5. The next ledger can always be closed, until the numbers of ledgers are used up: neither the bucket
  list nor storing its state fails, whichever merges are done.\<close>

theorem ledger_closes:
  assumes "distinctTypes B" "hashes32 B" "ledgers B headerHash lm M" "tracks (enumOf B) M d V"
    "ledgerSeq h = ledgerSeq (mCurrentLedger lm)" "0 < ledgerSeq h"
  shows "\<exists>lm'. closeLedgerHelper B headerHash pessimize ready d (lm\<lparr>mCurrentLedger := h\<rparr>) = Inr lm'"
  by (rule ledgers_succeed[OF assms])

theorem ledger_closes_witness:
  "\<exists>d lm'. closeLedgerHelper demoContext (\<lambda>_. zeroHash) True (\<lambda>_. False) d (demoManager\<lparr>mCurrentLedger := demoHeader\<rparr>) = Inr lm'"
proof -
  obtain d where d: "tracks (enumOf demoContext) Map.empty d [BalanceId ''b'' \<mapsto> demoEntry (BalanceId ''b'') 2]"
    using demo_tracked by blast
  have seq: "ledgerSeq demoHeader = ledgerSeq (mCurrentLedger demoManager)" "0 < ledgerSeq demoHeader"
    by (simp_all add: demoManager_def)
  from ledger_closes[OF distinct_demo hashes32_demo demo_ledgers d seq] show ?thesis by blast
qed

end
